(* ===== verification/Prelude.thy ===== *)
theory Prelude
  imports Main "HOL-Library.Word"
begin

text \<open>
  What the component theories share: the machine types of the C sources, the result type of a
  piece of C code that may end the process (\<open>outcome\<close>), sequencing and counted loops over it,
  and the generic lemmas on words and lists that the components use.

  A C function with effects is a function of the process state \<open>'w\<close>. It either returns a
  value and a new state (\<open>Done\<close>) or ends the process with an exit status (\<open>Halt\<close>), as
  \<open>MPI_Abort\<close>, \<open>exit\<close> and \<open>_exit\<close> do. A loop whose length the
  program does not bound runs for a number of iterations that is a parameter; a run that is still
  looping then is \<open>Spin\<close>. A status of 0 or -1 that only says whether
  the output parameters were filled is an option: \<open>None\<close> is -1.
\<close>

unbundle bit_operations_syntax

type_synonym u8 = "8 word"
type_synonym u32 = "32 word"
type_synonym u64 = "64 word"
type_synonym bytes = "u8 list"

named_theorems prog_simps \<open>equations of the program combinators\<close>
named_theorems spinless_intros \<open>code that never spins\<close>
named_theorems done_elims \<open>what a program that returned has done\<close>

section \<open>Programs that may end the process\<close>

datatype ('a, 'w) outcome = Done 'a 'w | Halt nat 'w | Spin 'w

type_synonym ('w, 'a) prog = "'w \<Rightarrow> ('a, 'w) outcome"

definition ret :: "'a \<Rightarrow> ('w, 'a) prog" where
  "ret x w = Done x w"

definition halt :: "nat \<Rightarrow> ('w, 'a) prog" where
  "halt c w = Halt c w"

definition bindP :: "('w, 'a) prog \<Rightarrow> ('a \<Rightarrow> ('w, 'b) prog) \<Rightarrow> ('w, 'b) prog" where
  "bindP m k w = (case m w of Done x w' \<Rightarrow> k x w' | Halt c w' \<Rightarrow> Halt c w' | Spin w' \<Rightarrow> Spin w')"

text \<open>A counted loop without an early exit: the body gets the index and the loop state.\<close>

fun loopP :: "('i \<Rightarrow> 's \<Rightarrow> ('w, 's) prog) \<Rightarrow> 'i list \<Rightarrow> 's \<Rightarrow> ('w, 's) prog" where
  "loopP body [] s = ret s"
| "loopP body (i # is) s = bindP (body i s) (loopP body is)"

text \<open>A counted loop whose body may leave it (\<open>break\<close>, \<open>return\<close>, \<open>goto\<close>).\<close>

datatype ('s, 'r) flow = Next 's | Exit 'r

fun loopX :: "('i \<Rightarrow> 's \<Rightarrow> ('w, ('s, 'r) flow) prog) \<Rightarrow> 'i list \<Rightarrow> 's
    \<Rightarrow> ('w, ('s, 'r) flow) prog" where
  "loopX body [] s = ret (Next s)"
| "loopX body (i # is) s =
     bindP (body i s)
       (\<lambda>f. case f of Next s' \<Rightarrow> loopX body is s' | Exit r \<Rightarrow> ret (Exit r))"

text \<open>A loop that goes on until its body leaves it, for at most \<open>fuel\<close> iterations.\<close>

fun whileX :: "nat \<Rightarrow> ('s \<Rightarrow> ('w, ('s, 'r) flow) prog) \<Rightarrow> 's \<Rightarrow> ('w, 'r) prog" where
  "whileX 0 body s w = Spin w"
| "whileX (Suc fuel) body s w =
     bindP (body s) (\<lambda>f. case f of Next s' \<Rightarrow> whileX fuel body s' | Exit r \<Rightarrow> ret r) w"

lemma ret_run [simp, prog_simps]: "ret x w = Done x w"
  by (simp add: ret_def)

lemma halt_run [simp, prog_simps]: "halt c w = Halt c w"
  by (simp add: halt_def)

lemma bindP_Done [prog_simps]: "m w = Done x w' \<Longrightarrow> bindP m k w = k x w'"
  by (simp add: bindP_def)

lemma bindP_Halt [prog_simps]: "m w = Halt c w' \<Longrightarrow> bindP m k w = Halt c w'"
  by (simp add: bindP_def)

lemma bindP_ret [simp]: "bindP (ret x) k = k x"
  by (rule ext) (simp add: bindP_def)

lemma bindP_halt [simp]: "bindP (halt c) k = halt c"
  by (rule ext) (simp add: bindP_def)

lemma bindP_assoc: "bindP (bindP m k) l = bindP m (\<lambda>x. bindP (k x) l)"
  by (rule ext) (simp add: bindP_def split: outcome.splits)

lemma loopP_append: "loopP body (is @ js) s = bindP (loopP body is s) (loopP body js)"
proof (induction "is" arbitrary: s)
  case (Cons i "is")
  then have "loopP body (is @ js) = (\<lambda>s. bindP (loopP body is s) (loopP body js))" by (rule ext)
  then show ?case by (simp add: bindP_assoc)
qed simp

lemma bindP_Done_iff:
  "bindP m k w = Done y w' \<longleftrightarrow> (\<exists>x v. m w = Done x v \<and> k x v = Done y w')"
  by (simp add: bindP_def split: outcome.splits)

lemma bindP_DoneE [elim!, done_elims]:
  assumes "bindP m k w = Done y w'"
  obtains x v where "m w = Done x v" and "k x v = Done y w'"
  using assms by (auto simp: bindP_Done_iff)

text \<open>A property of the results of a piece of code that returns.\<close>

definition on_done :: "('a \<Rightarrow> bool) \<Rightarrow> ('a, 'w) outcome \<Rightarrow> bool" where
  "on_done P r = (case r of Done x w \<Rightarrow> P x | Halt c w \<Rightarrow> True | Spin w \<Rightarrow> True)"

lemma on_doneI: "(\<And>x w. r = Done x w \<Longrightarrow> P x) \<Longrightarrow> on_done P r"
  by (auto simp: on_done_def split: outcome.splits)

lemma on_doneD: "on_done P (Done x w) \<Longrightarrow> P x"
  by (simp add: on_done_def)

text \<open>The same with the state it leaves.\<close>

definition on_return :: "('a \<Rightarrow> 'w \<Rightarrow> bool) \<Rightarrow> ('a, 'w) outcome \<Rightarrow> bool" where
  "on_return P r = (case r of Done x w \<Rightarrow> P x w | Halt c w \<Rightarrow> True | Spin w \<Rightarrow> True)"

lemma on_returnI: "(\<And>x w. r = Done x w \<Longrightarrow> P x w) \<Longrightarrow> on_return P r"
  by (auto simp: on_return_def split: outcome.splits)

text \<open>An invariant of the loop state and the process state is kept by every run that returns.\<close>

lemma loopP_inv:
  assumes "loopP body is s w = Done s' w'"
    and "P s w"
    and "\<And>i s w s' w'. i \<in> set is \<Longrightarrow> P s w \<Longrightarrow> body i s w = Done s' w' \<Longrightarrow> P s' w'"
  shows "P s' w'"
  using assms
proof (induction "is" arbitrary: s w)
  case Nil
  then show ?case by simp
next
  case (Cons i "is")
  from Cons.prems(1) obtain t v where
    b: "body i s w = Done t v" and l: "loopP body is t v = Done s' w'" by auto
  have "P t v" using Cons.prems(2,3) b by (meson list.set_intros(1))
  from l this Cons.prems(3) [OF list.set_intros(2)] show ?case by (rule Cons.IH)
qed

lemma loopX_inv:
  assumes "loopX body is s w = Done (Next s') w'"
    and "P s w"
    and "\<And>i s w s' w'. i \<in> set is \<Longrightarrow> P s w \<Longrightarrow> body i s w = Done (Next s') w' \<Longrightarrow> P s' w'"
  shows "P s' w'"
  using assms
proof (induction "is" arbitrary: s w)
  case Nil
  then show ?case by simp
next
  case (Cons i "is")
  from Cons.prems(1) obtain f v where
    b: "body i s w = Done f v"
    and l: "(case f of Next t \<Rightarrow> loopX body is t | Exit r \<Rightarrow> ret (Exit r)) v = Done (Next s') w'"
    by auto
  then obtain t where f: "f = Next t" and l': "loopX body is t v = Done (Next s') w'"
    by (cases f) auto
  have "P t v" using Cons.prems(2,3) b f by (meson list.set_intros(1))
  from l' this Cons.prems(3) [OF list.set_intros(2)] show ?case by (rule Cons.IH)
qed

text \<open>A run of \<open>whileX\<close> that returns leaves the loop from a state that satisfies the invariant.\<close>

lemma whileX_inv:
  assumes "whileX fuel body s w = Done r w'"
    and "P s w"
    and "\<And>s w s' w'. P s w \<Longrightarrow> body s w = Done (Next s') w' \<Longrightarrow> P s' w'"
  shows "\<exists>t v. P t v \<and> body t v = Done (Exit r) w'"
  using assms
proof (induction fuel arbitrary: s w)
  case 0
  then show ?case by simp
next
  case (Suc fuel)
  from Suc.prems(1) obtain f v where
    b: "body s w = Done f v"
    and l: "(case f of Next t \<Rightarrow> whileX fuel body t | Exit r \<Rightarrow> ret r) v = Done r w'"
    by auto
  show ?case
  proof (cases f)
    case (Next t)
    then have "P t v" using Suc.prems(2,3) b by blast
    with l Next Suc.prems(3) Suc.IH show ?thesis by auto
  next
    case (Exit x)
    with l b Suc.prems(2) show ?thesis by auto
  qed
qed

lemma whileX_mono:
  assumes "\<And>v. whileX n body s w \<noteq> Spin v" and "n \<le> m"
  shows "whileX m body s w = whileX n body s w"
  using assms
proof (induction n arbitrary: s w m)
  case 0
  from "0.prems"(1) [of w] show ?case by simp
next
  case (Suc n)
  then obtain k where m: "m = Suc k" "n \<le> k" by (cases m) auto
  from Suc.prems(1) Suc.IH [OF _ m(2)] show ?case
    by (auto simp: m(1) bindP_def split: outcome.splits flow.splits)
qed

text \<open>Code without an unbounded loop never spins, and neither does a loop with a measure.\<close>

definition spinless :: "('w, 'a) prog \<Rightarrow> bool" where
  "spinless m \<longleftrightarrow> (\<forall>w v. m w \<noteq> Spin v)"

lemma spinless_basic [spinless_intros]: "spinless (ret x)" "spinless (halt c)"
  by (simp_all add: spinless_def)

lemma spinless_bindP [spinless_intros]:
  "spinless m \<Longrightarrow> (\<And>x. spinless (k x)) \<Longrightarrow> spinless (bindP m k)"
  by (auto simp: spinless_def bindP_def split: outcome.splits)

lemma spinless_cases [spinless_intros]:
  "(b \<Longrightarrow> spinless m) \<Longrightarrow> (\<not> b \<Longrightarrow> spinless n) \<Longrightarrow> spinless (if b then m else n)"
  "spinless a \<Longrightarrow> (\<And>x. spinless (c x)) \<Longrightarrow> spinless (case opt of None \<Rightarrow> a | Some x \<Rightarrow> c x)"
  "(\<And>x y. spinless (d x y)) \<Longrightarrow> spinless (case p of (x, y) \<Rightarrow> d x y)"
  "(\<And>s. spinless (e s)) \<Longrightarrow> (\<And>r. spinless (g r)) \<Longrightarrow> spinless (case fl of Next s \<Rightarrow> e s | Exit r \<Rightarrow> g r)"
  by (auto split: option.split prod.split flow.split)

lemma spinless_loopP [spinless_intros]: "(\<And>i s. spinless (body i s)) \<Longrightarrow> spinless (loopP body is s)"
  by (induction "is" arbitrary: s) (auto intro: spinless_intros)

lemma spinless_loopX [spinless_intros]: "(\<And>i s. spinless (body i s)) \<Longrightarrow> spinless (loopX body is s)"
  by (induction "is" arbitrary: s) (auto intro: spinless_intros)

lemma whileX_measure:
  assumes "P s" and "f s < fuel"
    and "\<And>s w s' w'. P s \<Longrightarrow> body s w = Done (Next s') w' \<Longrightarrow> P s' \<and> (f s' :: nat) < f s"
    and "\<And>s. spinless (body s)"
  shows "whileX fuel body s w \<noteq> Spin v"
  using assms(1,2)
proof (induction fuel arbitrary: s w)
  case (Suc fuel)
  have "body s w \<noteq> Spin v'" for v' using assms(4) by (simp add: spinless_def)
  then show ?case using Suc.IH Suc.prems assms(3) [of s w]
    by (fastforce simp: bindP_def split: outcome.splits flow.splits)
qed simp

text \<open>Loops over an interval of indices, with an invariant that knows the index.\<close>

lemma loopP_upt:
  assumes "loopP body [a..<b] s w = Done s' w'" and "P a s" and "a \<le> b"
    and "\<And>i s w s' w'. a \<le> i \<Longrightarrow> i < b \<Longrightarrow> P i s \<Longrightarrow> body i s w = Done s' w' \<Longrightarrow> P (Suc i) s'"
  shows "P b s'"
  using assms
proof (induction "b - a" arbitrary: a s w)
  case (Suc d)
  then have ab: "a < b" by simp
  with Suc.prems(1) obtain t v where b: "body a s w = Done t v" and l: "loopP body [Suc a..<b] t v = Done s' w'"
    by (auto simp: upt_conv_Cons)
  have "P (Suc a) t" using Suc.prems(4) [OF _ ab Suc.prems(2) b] by simp
  with l Suc.hyps(2) ab Suc.prems(4) show ?case by (intro Suc.hyps(1)) auto
qed simp

section \<open>Words and lists\<close>

lemma unat_u32_of_nat [simp]: "n < 2 ^ 32 \<Longrightarrow> unat (of_nat n :: u32) = n"
  by (simp add: unsigned_of_nat take_bit_nat_eq_self)

lemma unat_u64_of_nat [simp]: "n < 2 ^ 64 \<Longrightarrow> unat (of_nat n :: u64) = n"
  by (simp add: unsigned_of_nat take_bit_nat_eq_self)

lemma unat_word_lt: "unat (x :: 'a::len word) < 2 ^ LENGTH('a)"
  by (rule unsigned_less)

lemma sint_small:
  assumes "uint (x :: 'a::len word) < 2 ^ (LENGTH('a) - Suc 0)"
  shows "sint x = uint x"
  unfolding sint_uint
proof (rule signed_take_bit_int_eq_self [OF _ assms])
  show "- (2 ^ (LENGTH('a) - Suc 0)) \<le> uint x" by (rule order_trans [of _ 0]) simp_all
qed

lemma uint_u64_of_int:
  assumes "0 \<le> k" and "k < 2 ^ 64"
  shows "uint (word_of_int k :: u64) = k"
  using take_bit_int_eq_self [OF assms] assms(1) by (simp add: unsigned_of_int)

lemma take_append_exact: "length xs = n \<Longrightarrow> take n (xs @ ys) = xs"
  by simp

lemma drop_append_exact: "length xs = n \<Longrightarrow> drop n (xs @ ys) = ys"
  by simp

end
