(* ===== verification/Wait_Deadline.thy ===== *)
theory Wait_Deadline
  imports Prelude
begin

text \<open>
  The wait deadlines of src/npb_timeout.c: every blocking MPI call runs inside a scope opened
  by \<open>npb_wait_begin\<close> and closed by \<open>npb_wait_end\<close>; the outermost scope arms one
  SIGALRM for the configured number of seconds, and the handler ends the process with status
  124. The limits come from the environment (\<open>timeout_setting\<close>).

  The static variables are the record \<open>wait_state\<close>; the part of the process's signal state
  the code reads and writes is the record \<open>sig_state\<close>. Which system calls fail is the
  parameter \<open>fails\<close>; the environment variables are the parameter \<open>getenv\<close>.
\<close>

section \<open>Settings\<close>

fun timeout_digits :: "u32 \<Rightarrow> string \<Rightarrow> u32 option" where
  "timeout_digits seconds [] = Some seconds"
| "timeout_digits seconds (c # cs) =
     (if of_char c < (48 :: nat) \<or> of_char c > (57 :: nat) \<or> seconds > 8640 then None
      else let seconds' = seconds * 10 + (of_char c - 48)
           in if seconds' > 86400 then None else timeout_digits seconds' cs)"

text \<open>\<open>None\<close> is \<open>configuration_error\<close>, which ends the process with status 2.\<close>

definition timeout_setting :: "(string \<Rightarrow> string option) \<Rightarrow> string \<Rightarrow> u32 \<Rightarrow> u32 option" where
  "timeout_setting getenv name fallback =
     (case getenv name of
        None \<Rightarrow> Some fallback
      | Some text \<Rightarrow>
          if text = [] then None
          else (case timeout_digits 0 text of
                  None \<Rightarrow> None
                | Some seconds \<Rightarrow> if seconds = 0 then None else Some seconds))"

text \<open>The specification: decimal digits only, and the value they denote.\<close>

definition is_digit :: "char \<Rightarrow> bool" where
  "is_digit c \<longleftrightarrow> 48 \<le> (of_char c :: nat) \<and> of_char c \<le> (57 :: nat)"

definition dec_value :: "string \<Rightarrow> nat" where
  "dec_value cs = foldl (\<lambda>n c. 10 * n + (of_char c - 48)) 0 cs"

lemma foldl_dec_ge: "n \<le> foldl (\<lambda>n c. 10 * n + (of_char c - 48)) (n :: nat) cs"
proof (induction cs arbitrary: n)
  case (Cons c cs)
  have "n \<le> 10 * n + (of_char c - 48)" by simp
  also have "\<dots> \<le> foldl (\<lambda>n c. 10 * n + (of_char c - 48)) (10 * n + (of_char c - 48)) cs"
    by (rule Cons.IH)
  finally show ?case by simp
qed simp

lemma unat_digit_step:
  assumes "is_digit c" and "unat (s :: u32) \<le> 8640"
  shows "unat (s * 10 + (of_char c - 48)) = 10 * unat s + (of_char c - 48)"
proof -
  have c: "48 \<le> (of_char c :: nat)" "of_char c \<le> (57 :: nat)"
    using assms(1) by (simp_all add: is_digit_def)
  define d :: nat where "d = of_char c - 48"
  have d: "d \<le> 9" using c by (simp add: d_def)
  have "(of_char c :: u32) = of_nat (of_char c)"
    by (simp add: of_nat_of_char)
  moreover have "(of_char c :: nat) = d + 48" using c by (simp add: d_def)
  ultimately have w: "(of_char c :: u32) - 48 = of_nat d" by simp
  have "s * 10 + of_nat d = of_nat (unat s * 10 + d)" by simp
  moreover have "unat (of_nat (unat s * 10 + d) :: u32) = unat s * 10 + d"
    using assms(2) d by (intro unat_u32_of_nat) simp
  ultimately show ?thesis by (simp add: w d_def)
qed

lemma timeout_digits_iff:
  "unat s \<le> 86400 \<Longrightarrow>
   timeout_digits s cs = Some v \<longleftrightarrow>
     (\<forall>c\<in>set cs. is_digit c) \<and>
     foldl (\<lambda>n c. 10 * n + (of_char c - 48)) (unat s) cs = unat v \<and> unat v \<le> 86400"
proof (induction cs arbitrary: s)
  case Nil
  then show ?case by (auto simp: word_unat_eq_iff)
next
  case (Cons c cs)
  let ?n' = "10 * unat s + (of_char c - 48)"
  show ?case
  proof (cases "is_digit c \<and> unat s \<le> 8640 \<and> ?n' \<le> 86400")
    case True
    then have u: "unat (s * 10 + (of_char c - 48)) = ?n'" by (intro unat_digit_step) auto
    have "unat (s * 10 + (of_char c - 48)) \<le> 86400" using True u by simp
    then have "\<not> s * 10 + (of_char c - 48) > 86400" by (simp add: word_less_nat_alt)
    moreover have "\<not> s > 8640" using True by (simp add: word_less_nat_alt)
    ultimately have "timeout_digits s (c # cs) = timeout_digits (s * 10 + (of_char c - 48)) cs"
      using True by (simp add: is_digit_def)
    with Cons.IH [of "s * 10 + (of_char c - 48)"] True u show ?thesis by simp
  next
    case False
    have l: "timeout_digits s (c # cs) = None"
      using False unat_digit_step [of c s]
      by (auto simp: is_digit_def word_less_nat_alt Let_def)
    have "?n' > 86400" if "is_digit c"
      using False that by auto
    moreover have "?n' \<le> foldl (\<lambda>n c. 10 * n + (of_char c - 48)) ?n' cs" by (rule foldl_dec_ge)
    ultimately show ?thesis using l by auto
  qed
qed

text \<open>
  A wait limit is accepted exactly when the variable is unset (the fallback is used) or
  holds one or more decimal digits denoting a number of seconds from 1 to 86400, and then that
  number is the limit: the 32-bit accumulation never overflows.
\<close>

theorem timeout_setting_spec:
  "timeout_setting getenv name fallback = Some v \<longleftrightarrow>
     (case getenv name of
        None \<Rightarrow> v = fallback
      | Some text \<Rightarrow> text \<noteq> [] \<and> list_all is_digit text \<and> dec_value text = unat v
                      \<and> 1 \<le> unat v \<and> unat v \<le> 86400)"
proof (cases "getenv name")
  case None
  then show ?thesis by (auto simp: timeout_setting_def)
next
  case (Some t)
  have "unat v \<ge> 1 \<longleftrightarrow> v \<noteq> 0"
    by (simp add: Suc_le_eq unat_gt_0)
  then show ?thesis
    using Some timeout_digits_iff [of 0 t v]
    by (auto simp: timeout_setting_def dec_value_def list_all_iff split: option.splits)
qed

section \<open>The wait scopes\<close>

datatype wait_kind = NPB_WAIT_ENROLLMENT | NPB_WAIT_IO | NPB_WAIT_SHUTDOWN

datatype sig_handler = SIG_DFL | SIG_IGN | Timeout_Handler | Other_Handler

text \<open>The signal mask, the SIGALRM action and ITIMER_REAL (seconds, microseconds).\<close>

record sig_state =
  alrm_blocked :: bool
  alrm_handler :: sig_handler
  it_value :: "nat \<times> nat"
  it_interval :: "nat \<times> nat"

record wait_state =
  wait_limits :: "wait_kind \<Rightarrow> u32"
  wait_depth :: u32
  configured :: bool
  deadline_active :: bool
  sigs :: sig_state

text \<open>The groups of system calls whose failure is a configuration error.\<close>

datatype wait_call = Block_Alarm | Restore_Mask | Inspect_Timer | Install_Handler

record wait_sys =
  ws_getenv :: "string \<Rightarrow> string option"
  ws_fails :: "wait_call \<Rightarrow> bool"

definition block_alarm :: "wait_sys \<Rightarrow> (wait_state, bool) prog" where
  \<comment> \<open>returns the previous mask: whether SIGALRM was blocked\<close>
  "block_alarm Y s =
     (if ws_fails Y Block_Alarm then Halt 2 s
      else Done (alrm_blocked (sigs s)) (s\<lparr>sigs := (sigs s)\<lparr>alrm_blocked := True\<rparr>\<rparr>))"

definition restore_mask :: "wait_sys \<Rightarrow> bool \<Rightarrow> (wait_state, unit) prog" where
  "restore_mask Y prev s =
     (if ws_fails Y Restore_Mask then Halt 2 s
      else Done () (s\<lparr>sigs := (sigs s)\<lparr>alrm_blocked := prev\<rparr>\<rparr>))"

definition set_alarm :: "nat \<Rightarrow> wait_state \<Rightarrow> wait_state" where
  \<comment> \<open>alarm(n): one shot after n seconds, 0 disarms\<close>
  "set_alarm n s = s\<lparr>sigs := (sigs s)\<lparr>it_value := (n, 0), it_interval := (0, 0)\<rparr>\<rparr>"

definition configure_limits :: "wait_sys \<Rightarrow> (wait_state, unit) prog" where
  "configure_limits Y s =
     (if configured s then Done () s
      else case timeout_setting (ws_getenv Y) ''PPDPC_ENROLL_TIMEOUT_SECONDS'' 300 of
             None \<Rightarrow> Halt 2 s
           | Some e \<Rightarrow>
      (case timeout_setting (ws_getenv Y) ''PPDPC_IO_TIMEOUT_SECONDS'' 600 of
             None \<Rightarrow> Halt 2 s
           | Some i \<Rightarrow>
      (case timeout_setting (ws_getenv Y) ''PPDPC_SHUTDOWN_TIMEOUT_SECONDS'' 60 of
             None \<Rightarrow> Halt 2 s
           | Some d \<Rightarrow>
               Done () (s\<lparr>wait_limits := (\<lambda>k. case k of NPB_WAIT_ENROLLMENT \<Rightarrow> e
                                                 | NPB_WAIT_IO \<Rightarrow> i
                                                 | NPB_WAIT_SHUTDOWN \<Rightarrow> d),
                          configured := True\<rparr>))))"

definition arm_deadline :: "wait_sys \<Rightarrow> wait_kind \<Rightarrow> (wait_state, unit) prog" where
  \<comment> \<open>the part of npb_wait_begin that opens the outermost scope\<close>
  "arm_deadline Y kind =
     bindP (block_alarm Y) (\<lambda>was_blocked s.
       if was_blocked then Halt 2 s
       else if ws_fails Y Inspect_Timer then Halt 2 s
       else if (alrm_handler (sigs s) \<noteq> SIG_DFL \<and> alrm_handler (sigs s) \<noteq> Timeout_Handler)
               \<or> it_value (sigs s) \<noteq> (0, 0) \<or> it_interval (sigs s) \<noteq> (0, 0)
       then Halt 2 s
       else if ws_fails Y Install_Handler then Halt 2 s
       else
         restore_mask Y was_blocked
           (set_alarm (unat (wait_limits s kind))
             (s\<lparr>sigs := (sigs s)\<lparr>alrm_handler := Timeout_Handler\<rparr>,
                deadline_active := True, wait_depth := 1\<rparr>)))"

definition npb_wait_begin :: "wait_sys \<Rightarrow> wait_kind \<Rightarrow> (wait_state, unit) prog" where
  "npb_wait_begin Y kind s =
     (if wait_depth s \<noteq> 0 then
        (if wait_depth s = - 1 then Halt 2 s
         else Done () (s\<lparr>wait_depth := wait_depth s + 1\<rparr>))
      else bindP (configure_limits Y) (\<lambda>_. arm_deadline Y kind) s)"

definition npb_wait_end :: "wait_sys \<Rightarrow> (wait_state, unit) prog" where
  "npb_wait_end Y s =
     (if wait_depth s = 0 then Halt 2 s
      else if wait_depth s - 1 \<noteq> 0 then Done () (s\<lparr>wait_depth := wait_depth s - 1\<rparr>)
      else
        bindP (block_alarm Y) (\<lambda>was_blocked.
        \<lambda>s. restore_mask Y was_blocked (set_alarm 0 (s\<lparr>deadline_active := False\<rparr>)))
        (s\<lparr>wait_depth := wait_depth s - 1\<rparr>))"

text \<open>The signal handler: the exit status if the deadline is live when SIGALRM arrives.\<close>

definition timeout_handler :: "wait_state \<Rightarrow> nat option" where
  "timeout_handler s = (if deadline_active s then Some 124 else None)"

definition npb_bind_child_to_parent :: "bool \<Rightarrow> int \<Rightarrow> int \<Rightarrow> int" where
  \<comment> \<open>arguments: whether prctl succeeds, the pid getppid() then reports, the expected pid\<close>
  "npb_bind_child_to_parent prctl_ok ppid expected_parent =
     (if \<not> prctl_ok then - 1 else if ppid \<noteq> expected_parent then - 1 else 0)"

section \<open>The scopes as a state machine\<close>

text \<open>
  A step opens a scope, closes one, or lets a second of the armed timer pass. The timer's last
  second has no successor state: SIGALRM arrives and the handler ends the process, because the
  deadline is live whenever the timer runs (the invariant below).
\<close>

definition wait_init :: wait_state where
  "wait_init = \<lparr>wait_limits = (\<lambda>_. 0), wait_depth = 0, configured = False,
     deadline_active = False,
     sigs = \<lparr>alrm_blocked = False, alrm_handler = SIG_DFL, it_value = (0, 0),
             it_interval = (0, 0)\<rparr>\<rparr>"

inductive wait_step :: "wait_sys \<Rightarrow> wait_state \<Rightarrow> wait_state \<Rightarrow> bool" where
  wait_open: "npb_wait_begin Y k s = Done () s' \<Longrightarrow> wait_step Y s s'"
| wait_close: "npb_wait_end Y s = Done () s' \<Longrightarrow> wait_step Y s s'"
| wait_tick: "it_value (sigs s) = (Suc (Suc n), 0) \<Longrightarrow>
     wait_step Y s (s\<lparr>sigs := (sigs s)\<lparr>it_value := (Suc n, 0)\<rparr>\<rparr>)"

inductive wait_reach :: "wait_sys \<Rightarrow> wait_state \<Rightarrow> bool" where
  reach_init: "wait_reach Y wait_init"
| reach_step: "wait_reach Y s \<Longrightarrow> wait_step Y s s' \<Longrightarrow> wait_reach Y s'"

definition limits_ok :: "wait_state \<Rightarrow> bool" where
  "limits_ok s \<longleftrightarrow> (\<forall>k. 1 \<le> unat (wait_limits s k) \<and> unat (wait_limits s k) \<le> 86400)"

definition wait_inv :: "wait_state \<Rightarrow> bool" where
  "wait_inv s \<longleftrightarrow>
     \<not> alrm_blocked (sigs s) \<and> it_interval (sigs s) = (0, 0) \<and>
     (configured s \<longrightarrow> limits_ok s) \<and>
     (if wait_depth s = 0
      then \<not> deadline_active s \<and> it_value (sigs s) = (0, 0)
           \<and> alrm_handler (sigs s) \<in> {SIG_DFL, Timeout_Handler}
      else deadline_active s \<and> configured s \<and> alrm_handler (sigs s) = Timeout_Handler
           \<and> snd (it_value (sigs s)) = 0
           \<and> 1 \<le> fst (it_value (sigs s)) \<and> fst (it_value (sigs s)) \<le> 86400)"

lemma timeout_setting_range:
  assumes "timeout_setting g name fb = Some v" and "1 \<le> unat fb" and "unat fb \<le> 86400"
  shows "1 \<le> unat v \<and> unat v \<le> 86400"
proof -
  have t: "\<And>s cs. timeout_digits s cs = Some v \<Longrightarrow> unat s \<le> 86400 \<Longrightarrow> unat v \<le> 86400"
    using timeout_digits_iff by blast
  have "unat v \<ge> 1 \<longleftrightarrow> v \<noteq> 0" by (simp add: Suc_le_eq unat_gt_0)
  with assms t [of 0] show ?thesis
    by (auto simp: timeout_setting_def split: option.splits if_splits)
qed

lemma configure_limits_Done:
  assumes "configure_limits Y s = Done u s'" and "configured s \<longrightarrow> limits_ok s"
  shows "configured s' \<and> limits_ok s' \<and> wait_depth s' = wait_depth s
         \<and> deadline_active s' = deadline_active s \<and> sigs s' = sigs s"
proof (cases "configured s")
  case True
  then show ?thesis using assms by (auto simp: configure_limits_def)
next
  case False
  with assms(1) obtain e i d where
    v: "timeout_setting (ws_getenv Y) ''PPDPC_ENROLL_TIMEOUT_SECONDS'' 300 = Some e"
       "timeout_setting (ws_getenv Y) ''PPDPC_IO_TIMEOUT_SECONDS'' 600 = Some i"
       "timeout_setting (ws_getenv Y) ''PPDPC_SHUTDOWN_TIMEOUT_SECONDS'' 60 = Some d"
    and s': "s' = s\<lparr>wait_limits := (\<lambda>k. case k of NPB_WAIT_ENROLLMENT \<Rightarrow> e
                      | NPB_WAIT_IO \<Rightarrow> i | NPB_WAIT_SHUTDOWN \<Rightarrow> d), configured := True\<rparr>"
    by (auto simp: configure_limits_def split: option.splits)
  from timeout_setting_range [OF v(1)] timeout_setting_range [OF v(2)]
    timeout_setting_range [OF v(3)]
  show ?thesis by (auto simp: s' limits_ok_def split: wait_kind.splits)
qed

lemma npb_wait_begin_inv:
  assumes b: "npb_wait_begin Y k s = Done u s'" and inv: "wait_inv s"
  shows "wait_inv s' \<and> wait_depth s' = wait_depth s + 1"
proof (cases "wait_depth s = 0")
  case False
  with b have s': "s' = s\<lparr>wait_depth := wait_depth s + 1\<rparr>" and "wait_depth s \<noteq> - 1"
    by (auto simp: npb_wait_begin_def split: if_splits)
  then have "wait_depth s + 1 \<noteq> 0" by (metis add.commute add_eq_0_iff)
  with s' False inv show ?thesis by (auto simp: wait_inv_def limits_ok_def)
next
  case True
  with b obtain u1 s1 where c: "configure_limits Y s = Done u1 s1"
    and a: "arm_deadline Y k s1 = Done u s'"
    unfolding npb_wait_begin_def bindP_Done_iff by auto
  from a have s': "\<not> alrm_blocked (sigs s1)"
     "s' = (set_alarm (unat (wait_limits s1 k)) (s1\<lparr>sigs := (sigs s1)\<lparr>alrm_blocked := False,
              alrm_handler := Timeout_Handler\<rparr>, deadline_active := True, wait_depth := 1\<rparr>))"
    by (auto simp: arm_deadline_def block_alarm_def restore_mask_def set_alarm_def bindP_Done_iff
        split: if_splits)
  from configure_limits_Done [OF c] inv
  have "configured s1" "limits_ok s1" by (auto simp: wait_inv_def)
  with s' True show ?thesis by (auto simp: wait_inv_def set_alarm_def limits_ok_def)
qed

lemma npb_wait_end_inv:
  assumes e: "npb_wait_end Y s = Done u s'" and inv: "wait_inv s"
  shows "wait_inv s' \<and> wait_depth s' = wait_depth s - 1 \<and> wait_depth s \<noteq> 0"
proof (cases "wait_depth s - 1 = 0")
  case True
  with e inv show ?thesis
    by (auto simp: npb_wait_end_def wait_inv_def block_alarm_def restore_mask_def set_alarm_def
        limits_ok_def split: if_splits)
next
  case False
  with e inv show ?thesis
    by (auto simp: npb_wait_end_def wait_inv_def limits_ok_def split: if_splits)
qed

lemma wait_step_inv: "wait_step Y s s' \<Longrightarrow> wait_inv s \<Longrightarrow> wait_inv s'"
proof (induction rule: wait_step.induct)
  case (wait_open Y k s s')
  then show ?case using npb_wait_begin_inv by blast
next
  case (wait_close Y s s')
  then show ?case using npb_wait_end_inv by blast
next
  case (wait_tick s n Y)
  then show ?case by (auto simp: wait_inv_def limits_ok_def split: if_splits)
qed

lemma wait_reach_inv: "wait_reach Y s \<Longrightarrow> wait_inv s"
proof (induction rule: wait_reach.induct)
  case (reach_init Y)
  show ?case by (simp add: wait_inv_def wait_init_def)
next
  case (reach_step Y s s')
  then show ?case by (blast intro: wait_step_inv)
qed

section \<open>Scopes that cannot fail\<close>

definition wait_sys_good :: "wait_sys \<Rightarrow> bool" where
  "wait_sys_good Y \<longleftrightarrow> (\<forall>c. \<not> ws_fails Y c)
     \<and> timeout_setting (ws_getenv Y) ''PPDPC_ENROLL_TIMEOUT_SECONDS'' 300 \<noteq> None
     \<and> timeout_setting (ws_getenv Y) ''PPDPC_IO_TIMEOUT_SECONDS'' 600 \<noteq> None
     \<and> timeout_setting (ws_getenv Y) ''PPDPC_SHUTDOWN_TIMEOUT_SECONDS'' 60 \<noteq> None"

definition wait_ready :: "wait_sys \<Rightarrow> wait_state \<Rightarrow> bool" where
  "wait_ready Y s \<longleftrightarrow> wait_sys_good Y \<and> wait_inv s \<and> wait_depth s \<noteq> - 1"

lemma configure_limits_good:
  "wait_sys_good Y \<Longrightarrow> \<exists>s'. configure_limits Y s = Done () s'"
  by (auto simp: configure_limits_def wait_sys_good_def)

lemma npb_wait_begin_ready:
  assumes "wait_ready Y s"
  shows "\<exists>s'. npb_wait_begin Y k s = Done () s'"
proof (cases "wait_depth s = 0")
  case False
  with assms show ?thesis by (auto simp: npb_wait_begin_def wait_ready_def)
next
  case True
  from assms obtain s1 where c: "configure_limits Y s = Done () s1"
    using configure_limits_good wait_ready_def by blast
  from configure_limits_Done [OF c] assms
  have "sigs s1 = sigs s" by (auto simp: wait_ready_def wait_inv_def)
  with True c assms show ?thesis
    by (auto simp: npb_wait_begin_def arm_deadline_def wait_ready_def wait_inv_def
        wait_sys_good_def bindP_def block_alarm_def restore_mask_def)
qed

lemma npb_wait_end_good:
  assumes "wait_sys_good Y" and "wait_depth s \<noteq> 0"
  shows "\<exists>s'. npb_wait_end Y s = Done () s'"
  using assms by (auto simp: npb_wait_end_def wait_sys_good_def bindP_def block_alarm_def
      restore_mask_def)

lemma wait_bracket:
  assumes "wait_ready Y s"
  shows "\<exists>s1 s2. npb_wait_begin Y k s = Done () s1 \<and> npb_wait_end Y s1 = Done () s2
           \<and> wait_ready Y s2 \<and> wait_depth s2 = wait_depth s"
proof -
  obtain s1 where b: "npb_wait_begin Y k s = Done () s1"
    using npb_wait_begin_ready [OF assms] by blast
  have i1: "wait_inv s1" and d1: "wait_depth s1 = wait_depth s + 1"
    using npb_wait_begin_inv [OF b] assms by (auto simp: wait_ready_def)
  have "wait_depth s1 \<noteq> 0"
    using d1 assms by (metis add.commute add_eq_0_iff wait_ready_def)
  then obtain s2 where e: "npb_wait_end Y s1 = Done () s2"
    using npb_wait_end_good assms wait_ready_def by blast
  have "wait_inv s2" "wait_depth s2 = wait_depth s"
    using npb_wait_end_inv [OF e i1] d1 by auto
  with b e assms show ?thesis by (auto simp: wait_ready_def)
qed


definition demo_wait_sys :: wait_sys where
  "demo_wait_sys = \<lparr>ws_getenv = (\<lambda>n. if n = ''PPDPC_IO_TIMEOUT_SECONDS'' then Some ''45'' else None),
                    ws_fails = (\<lambda>_. False)\<rparr>"

lemma demo_wait_sys_good: "wait_sys_good demo_wait_sys"
  by (simp add: wait_sys_good_def demo_wait_sys_def timeout_setting_def)

lemma demo_io_state:
  "\<exists>s. npb_wait_begin demo_wait_sys NPB_WAIT_IO wait_init = Done () s \<and> wait_depth s = 1"
proof -
  have "wait_ready demo_wait_sys wait_init"
    by (simp add: wait_ready_def demo_wait_sys_good wait_reach_inv [OF reach_init])
      (simp add: wait_init_def)
  from npb_wait_begin_ready [OF this, of NPB_WAIT_IO] obtain s where
    "npb_wait_begin demo_wait_sys NPB_WAIT_IO wait_init = Done () s" by blast
  with npb_wait_begin_inv [OF this wait_reach_inv [OF reach_init]] show ?thesis
    by (auto simp: wait_init_def)
qed


lemma spinless_wait [spinless_intros]:
  "spinless (npb_wait_begin Y kind)" "spinless (npb_wait_end Y)"
proof -
  have "spinless (block_alarm Y)" "spinless (restore_mask Y b)" "spinless (configure_limits Y)" for b
    by (auto simp: spinless_def block_alarm_def restore_mask_def configure_limits_def split: option.splits)
  moreover from this have "spinless (arm_deadline Y kind)"
    unfolding arm_deadline_def
    by (intro spinless_intros) (auto simp: spinless_def)
  ultimately show "spinless (npb_wait_begin Y kind)" "spinless (npb_wait_end Y)"
    by (auto simp: spinless_def npb_wait_begin_def npb_wait_end_def bindP_def split: outcome.splits)
qed


end
