(* ===== verification/Binary64.thy ===== *)
theory Binary64
  imports Prelude "HOL-Library.Log_Nat"
begin

text \<open>
  C doubles: IEEE 754 binary64 values as their 64-bit patterns, with the comparisons and the
  correctly rounded operations (round to nearest, ties to even) that the programs use. The one
  thing the standard leaves open, the bits of a NaN result, is fixed to one quiet NaN.
\<close>

type_synonym dbl = u64

section \<open>Classification and comparison\<close>

definition d_sign :: "dbl \<Rightarrow> bool" where
  "d_sign x = bit x 63"

definition d_mag :: "dbl \<Rightarrow> nat" where
  "d_mag x = unat (x AND 0x7FFFFFFFFFFFFFFF)"

definition d_inf_mag :: nat where
  "d_inf_mag = 0x7FF0000000000000"

definition d_isnan :: "dbl \<Rightarrow> bool" where
  "d_isnan x \<longleftrightarrow> d_mag x > d_inf_mag"

definition d_isinf :: "dbl \<Rightarrow> bool" where
  "d_isinf x \<longleftrightarrow> d_mag x = d_inf_mag"

definition d_isfinite :: "dbl \<Rightarrow> bool" where
  "d_isfinite x \<longleftrightarrow> d_mag x < d_inf_mag"

text \<open>Sign and magnitude order the non-NaN values, with both zeros equal.\<close>

definition d_key :: "dbl \<Rightarrow> int" where
  "d_key x = (if d_sign x then - int (d_mag x) else int (d_mag x))"

definition d_lt :: "dbl \<Rightarrow> dbl \<Rightarrow> bool" where
  "d_lt a b \<longleftrightarrow> \<not> d_isnan a \<and> \<not> d_isnan b \<and> d_key a < d_key b"

definition d_eq :: "dbl \<Rightarrow> dbl \<Rightarrow> bool" where
  "d_eq a b \<longleftrightarrow> \<not> d_isnan a \<and> \<not> d_isnan b \<and> d_key a = d_key b"

section \<open>Values and rounding\<close>

definition d_val :: "dbl \<Rightarrow> rat" where
  \<comment> \<open>the value of a finite pattern\<close>
  "d_val x =
     (let e = d_mag x div 2 ^ 52; f = d_mag x mod 2 ^ 52;
          v = (if e = 0 then of_nat f * 2 powi (- 1074)
               else of_nat (2 ^ 52 + f) * 2 powi (int e - 1075))
      in if d_sign x then - v else v)"

definition rat_log2 :: "rat \<Rightarrow> int" where
  \<comment> \<open>the E with 2^E <= q < 2^(E+1), for q > 0\<close>
  "rat_log2 q =
     (let (n, d) = quotient_of q; e = bitlen n - bitlen d
      in if 2 powi e \<le> q then e else e - 1)"

definition round_even :: "rat \<Rightarrow> int" where
  "round_even q =
     (let f = \<lfloor>q\<rfloor>; r = q - of_int f
      in if r < 1 / 2 then f else if r > 1 / 2 then f + 1 else if even f then f else f + 1)"

definition d_qnan :: dbl where
  "d_qnan = 0x7FF8000000000000"

definition d_pack :: "bool \<Rightarrow> nat \<Rightarrow> dbl" where
  "d_pack s m = (if s then of_nat (2 ^ 63 + m) else of_nat m)"

definition d_round :: "rat \<Rightarrow> dbl" where
  \<comment> \<open>the double nearest to a non-zero rational\<close>
  "d_round q =
     (let a = \<bar>q\<bar>; e = max (rat_log2 a - 52) (- 1074);
          m = (e + 1074) * 2 ^ 52 + round_even (a / 2 powi e)
      in d_pack (q < 0) (min (nat m) d_inf_mag))"

section \<open>Operations\<close>

definition d_neg :: "dbl \<Rightarrow> dbl" where
  "d_neg x = x XOR 0x8000000000000000"

definition d_abs :: "dbl \<Rightarrow> dbl" where
  "d_abs x = x AND 0x7FFFFFFFFFFFFFFF"

definition d_add :: "dbl \<Rightarrow> dbl \<Rightarrow> dbl" where
  "d_add a b =
     (if d_isnan a \<or> d_isnan b then d_qnan
      else if d_isinf a then (if d_isinf b \<and> d_sign a \<noteq> d_sign b then d_qnan else a)
      else if d_isinf b then b
      else let r = d_val a + d_val b
           in if r = 0 then d_pack (d_sign a \<and> d_sign b) 0 else d_round r)"

definition d_sub :: "dbl \<Rightarrow> dbl \<Rightarrow> dbl" where
  "d_sub a b = d_add a (d_neg b)"

definition d_mul :: "dbl \<Rightarrow> dbl \<Rightarrow> dbl" where
  "d_mul a b =
     (let s = (d_sign a \<noteq> d_sign b)
      in if d_isnan a \<or> d_isnan b then d_qnan
         else if d_isinf a \<or> d_isinf b
              then (if d_mag a = 0 \<or> d_mag b = 0 then d_qnan else d_pack s d_inf_mag)
         else if d_mag a = 0 \<or> d_mag b = 0 then d_pack s 0
         else let q = d_val a * d_val b
              in if d_mag (d_round q) = 0 then d_pack s 0 else d_round q)"

definition d_div :: "dbl \<Rightarrow> dbl \<Rightarrow> dbl" where
  "d_div a b =
     (let s = (d_sign a \<noteq> d_sign b)
      in if d_isnan a \<or> d_isnan b \<or> (d_isinf a \<and> d_isinf b) \<or> (d_mag a = 0 \<and> d_mag b = 0) then d_qnan
         else if d_isinf a \<or> d_mag b = 0 then d_pack s d_inf_mag
         else if d_isinf b \<or> d_mag a = 0 then d_pack s 0
         else d_round (d_val a / d_val b))"

definition d_of_nat :: "nat \<Rightarrow> dbl" where
  "d_of_nat n = (if n = 0 then 0 else d_round (of_nat n))"

definition d_fmax :: "dbl \<Rightarrow> dbl \<Rightarrow> dbl" where
  "d_fmax a b = (if d_isnan a then b else if d_isnan b then a else if d_lt a b then b else a)"

section \<open>Packing and scaling\<close>

lemma bitlen_rat_bounds:
  assumes "(n :: int) > 0"
  shows "(2 :: rat) powi (bitlen n - 1) \<le> of_int n \<and> of_int n < (2 :: rat) powi bitlen n"
proof -
  have "1 \<le> bitlen n" using assms by (auto simp: bitlen_alt_def)
  then have p: "(2 :: rat) powi (bitlen n - 1) = of_int (2 ^ nat (bitlen n - 1))"
       "(2 :: rat) powi bitlen n = of_int (2 ^ nat (bitlen n))"
    by (simp_all add: power_int_def)
  from bitlen_bounds [OF assms] show ?thesis unfolding p of_int_le_iff of_int_less_iff by simp
qed

lemma rat_log2_bounds:
  assumes "q > 0"
  shows "2 powi rat_log2 q \<le> q \<and> q < 2 powi (rat_log2 q + 1)"
proof -
  obtain n d where nd: "quotient_of q = (n, d)" by (cases "quotient_of q")
  have d: "d > 0" using nd by (rule quotient_of_denom_pos)
  have q: "q = of_int n / of_int d" using nd by (rule quotient_of_div)
  have n: "n > 0" using assms q d by (simp add: zero_less_divide_iff)
  let ?A = "bitlen n" and ?B = "bitlen d"
  note bn = bitlen_rat_bounds [OF n] and bd = bitlen_rat_bounds [OF d]
  have "2 powi (?A - 1 - ?B) = (2 :: rat) powi (?A - 1) / 2 powi ?B" by (simp add: power_int_diff)
  also have "\<dots> \<le> q" unfolding q by (rule frac_le) (use bn bd n d in auto)
  finally have lo: "2 powi (?A - ?B - 1) \<le> q" by (simp add: algebra_simps)
  have "q < 2 powi ?A / 2 powi (?B - 1)" unfolding q
    by (rule frac_less) (use bn bd n d in auto)
  also have "\<dots> = 2 powi (?A - (?B - 1))" by (simp add: power_int_diff)
  finally have hi: "q < 2 powi (?A - ?B + 1)" by (simp add: algebra_simps)
  from lo hi show ?thesis by (simp add: rat_log2_def nd Let_def)
qed

lemma round_even_of_int [simp]: "round_even (of_int n) = n"
  by (simp add: round_even_def)

lemma d_mag_take: "d_mag x = unat (take_bit 63 x)"
proof -
  have "(0x7FFFFFFFFFFFFFFF :: u64) = mask 63" by (simp add: mask_eq_exp_minus_1)
  then show ?thesis unfolding d_mag_def by (simp only: take_bit_eq_mask)
qed

lemma d_pack:
  assumes "m < 2 ^ 63"
  shows "d_mag (d_pack s m) = m \<and> d_sign (d_pack s m) = s"
proof -
  have "take_bit 63 (2 ^ 63 + m) = m" "take_bit 63 m = m"
    using assms by (simp_all add: take_bit_eq_mod)
  then have "d_mag (d_pack s m) = m"
    by (simp add: d_mag_take d_pack_def unsigned_take_bit_eq unsigned_of_nat del: of_nat_add)
  moreover have "bit (2 ^ 63 + m) 63" "\<not> bit m 63"
    using assms by (simp_all add: bit_iff_odd)
  then have "d_sign (d_pack s m) = s"
    by (simp add: d_sign_def d_pack_def bit_of_nat_iff del: of_nat_add)
  ultimately show ?thesis by blast
qed

section \<open>The order of the patterns is the order of the values\<close>

definition mag_val :: "nat \<Rightarrow> rat" where
  \<comment> \<open>the value of the non-negative pattern with this magnitude\<close>
  "mag_val m = (if m div 2 ^ 52 = 0 then of_nat (m mod 2 ^ 52) * 2 powi (- 1074)
     else of_nat (2 ^ 52 + m mod 2 ^ 52) * 2 powi (int (m div 2 ^ 52) - 1075))"

lemma d_val_mag: "d_val x = (if d_sign x then - mag_val (d_mag x) else mag_val (d_mag x))"
  by (simp add: d_val_def mag_val_def Let_def)

lemma mag_val_Suc: "mag_val m < mag_val (Suc m)"
proof (cases "m mod 2 ^ 52 = 2 ^ 52 - 1")
  case False
  then have s: "Suc m div 2 ^ 52 = m div 2 ^ 52" "Suc m mod 2 ^ 52 = Suc (m mod 2 ^ 52)"
    by (simp_all add: div_Suc mod_Suc)
  have "of_nat (m mod 2 ^ 52) < (of_nat (Suc (m mod 2 ^ 52)) :: rat)"
    "of_nat (2 ^ 52 + m mod 2 ^ 52) < (of_nat (2 ^ 52 + Suc (m mod 2 ^ 52)) :: rat)" by simp_all
  then show ?thesis unfolding mag_val_def s by (simp only: split: if_split) (simp add: mult_strict_right_mono)
next
  case True
  then have s: "Suc m div 2 ^ 52 = Suc (m div 2 ^ 52)" "Suc m mod 2 ^ 52 = 0"
    by (simp_all add: div_Suc mod_Suc)
  have n: "of_nat (m mod 2 ^ 52) = (2 ^ 52 - 1 :: rat)" using True by simp
  show ?thesis
  proof (cases "m div 2 ^ 52 = 0")
    case t: True
    have "mag_val m = (2 ^ 52 - 1) * 2 powi (- 1074)" by (simp only: mag_val_def t n refl if_True)
    moreover have "mag_val (Suc m) = 2 ^ 52 * 2 powi (- 1074)" unfolding mag_val_def s t by simp
    ultimately show ?thesis by simp
  next
    case f: False
    have "mag_val m = (2 ^ 53 - 1) * 2 powi (int (m div 2 ^ 52) - 1075)"
      using f by (simp only: mag_val_def if_False of_nat_add n of_nat_power of_nat_numeral) simp
    moreover have "mag_val (Suc m) = 2 ^ 52 * 2 powi (int (m div 2 ^ 52) - 1075 + 1)"
      unfolding mag_val_def s by (simp add: algebra_simps)
    moreover have "(2 :: rat) powi (int (m div 2 ^ 52) - 1075 + 1) = 2 * 2 powi (int (m div 2 ^ 52) - 1075)"
      by (subst power_int_add) simp_all
    ultimately show ?thesis by simp
  qed
qed

lemma mag_val_less: "m < n \<Longrightarrow> mag_val m < mag_val n"
  using lift_Suc_mono_less [of mag_val m n, OF mag_val_Suc] .

lemma mag_val_nonneg: "0 \<le> mag_val m"
  by (simp add: mag_val_def)

lemma d_lt_val:
  assumes "\<not> d_sign a" and "\<not> d_sign b" and "d_lt a b"
  shows "d_val a < d_val b"
  using assms by (auto simp: d_lt_def d_key_def d_val_mag intro: mag_val_less)

section \<open>Rounding\<close>

lemma round_even_le: "q \<le> of_int n \<Longrightarrow> round_even q \<le> n"
proof -
  assume q: "q \<le> of_int n"
  then have f: "\<lfloor>q\<rfloor> \<le> n" by linarith
  show "round_even q \<le> n"
  proof (cases "\<lfloor>q\<rfloor> = n")
    case True
    with q have "q - of_int \<lfloor>q\<rfloor> \<le> 0" by simp
    with True show ?thesis by (simp add: round_even_def Let_def)
  next
    case False
    with f show ?thesis by (simp add: round_even_def Let_def)
  qed
qed

lemma round_even_ge: "of_int n \<le> q \<Longrightarrow> n \<le> round_even q"
proof -
  assume "of_int n \<le> q"
  then have "n \<le> \<lfloor>q\<rfloor>" by linarith
  then show "n \<le> round_even q" by (simp add: round_even_def Let_def)
qed

lemma round_even_near: "of_int n \<le> q \<Longrightarrow> q < of_int n + 1 / 2 \<Longrightarrow> round_even q = n"
proof -
  assume q: "of_int n \<le> q" "q < of_int n + 1 / 2"
  then have "\<lfloor>q\<rfloor> = n" by linarith
  with q show "round_even q = n" by (simp add: round_even_def Let_def)
qed

lemma round_even_error: "\<bar>of_int (round_even q) - q\<bar> \<le> 1 / 2"
proof -
  have "of_int \<lfloor>q\<rfloor> \<le> q" "q < of_int \<lfloor>q\<rfloor> + 1" by linarith+
  then show ?thesis unfolding round_even_def Let_def by (simp split: if_split)
qed

lemma powi_less_imp: "(2 :: rat) powi a < 2 powi b \<Longrightarrow> a < b"
  using power_int_increasing [of b a "2 :: rat"] by (cases "b \<le> a") auto

text \<open>
  The steps of \<open>d_round\<close>, for the lemmas below: the exponent e of the last place, the rounded significand r, and
  that r has 53 bits unless the number is subnormal.
\<close>

lemma d_round_parts:
  assumes "q \<noteq> 0"
  obtains e r where "r = round_even (\<bar>q\<bar> / 2 powi e)" and "- 1074 \<le> e"
    and "d_mag (d_round q) = min (nat ((e + 1074) * 2 ^ 52 + r)) d_inf_mag" and "d_sign (d_round q) = (q < 0)"
    and "\<bar>q\<bar> < of_int (2 ^ 53) * 2 powi e" and "0 \<le> r" and "r \<le> 2 ^ 53"
    and "e = - 1074 \<or> of_int (2 ^ 52) * 2 powi e \<le> \<bar>q\<bar> \<and> 2 ^ 52 \<le> r"
proof
  let ?a = "\<bar>q\<bar>"
  define L where "L = rat_log2 ?a"
  define e where "e = max (L - 52) (- 1074)"
  define r where "r = round_even (?a / 2 powi e)"
  have L: "2 powi L \<le> ?a" "?a < 2 powi (L + 1)" using rat_log2_bounds [of ?a] assms by (simp_all add: L_def)
  have pe: "(0 :: rat) < 2 powi e" by simp
  have "2 powi (L + 1) \<le> (2 :: rat) powi (53 + e)" by (rule power_int_increasing) (auto simp: e_def)
  with L(2) show a: "?a < of_int (2 ^ 53) * 2 powi e" by (simp add: power_int_add)
  then have "?a / 2 powi e \<le> of_int (2 ^ 53)" using pe by (simp only: pos_divide_le_eq less_imp_le)
  then show "r \<le> 2 ^ 53" unfolding r_def by (rule round_even_le)
  have "of_int 0 \<le> ?a / 2 powi e" by simp
  then show "0 \<le> r" unfolding r_def by (rule round_even_ge)
  show "e = - 1074 \<or> of_int (2 ^ 52) * 2 powi e \<le> ?a \<and> 2 ^ 52 \<le> r"
  proof (cases "e = - 1074")
    case False
    then have "e = L - 52" by (simp add: e_def)
    then have l: "of_int (2 ^ 52) * 2 powi e \<le> ?a" using L(1) by (simp add: power_int_diff)
    then have "of_int (2 ^ 52) \<le> ?a / 2 powi e" using pe by (simp only: pos_le_divide_eq)
    then have "2 ^ 52 \<le> r" unfolding r_def by (rule round_even_ge)
    with l show ?thesis by blast
  qed simp
  show "- 1074 \<le> e" by (simp add: e_def)
  show "r = round_even (?a / 2 powi e)" by (fact r_def)
  let ?m = "min (nat ((e + 1074) * 2 ^ 52 + r)) d_inf_mag"
  have "d_round q = d_pack (q < 0) ?m" by (simp add: d_round_def Let_def e_def r_def L_def)
  moreover have "?m < 2 ^ 63" by (simp add: d_inf_mag_def min_def)
  ultimately show "d_mag (d_round q) = ?m" "d_sign (d_round q) = (q < 0)" by (simp_all add: d_pack)
qed

lemma int_divmod:
  assumes "0 \<le> r" and "r < (c :: int)"
  shows "(q * c + r) div c = q" and "(q * c + r) mod c = r"
  using assms by simp_all

lemma nat_divmod:
  assumes "0 \<le> (x :: int)"
  shows "nat x div c = nat (x div int c)" and "nat x mod c = nat (x mod int c)"
  by (simp_all add: nat_div_distrib nat_mod_distrib assms)

lemma mag_val_normal:
  assumes "0 \<le> f" and "f < 2 ^ 52" and "1 \<le> b"
  shows "mag_val (nat (b * 2 ^ 52 + f)) = of_int (2 ^ 52 + f) * 2 powi (b - 1075)"
proof -
  have "(b * 2 ^ 52 + f) div int (2 ^ 52) = b" "(b * 2 ^ 52 + f) mod int (2 ^ 52) = f"
    unfolding of_nat_power of_nat_numeral by (rule int_divmod; use assms in simp)+
  then have "nat (b * 2 ^ 52 + f) div 2 ^ 52 = nat b" "nat (b * 2 ^ 52 + f) mod 2 ^ 52 = nat f"
    using nat_divmod [of "b * 2 ^ 52 + f" "2 ^ 52"] assms by (simp_all only: zero_le_power zero_le_numeral mult_nonneg_nonneg add_nonneg_nonneg)
  then show ?thesis using assms by (simp add: mag_val_def)
qed

lemma mag_val_parts:
  assumes "0 \<le> r" and "r \<le> 2 ^ 53" and "- 1074 \<le> e" and "e = - 1074 \<or> 2 ^ 52 \<le> r"
  shows "mag_val (nat ((e + 1074) * 2 ^ 52 + r)) = of_int r * 2 powi e"
proof -
  consider "e = - 1074" "r < 2 ^ 52" | "2 ^ 52 \<le> r" "r < 2 ^ 53" | "r = 2 ^ 53" using assms(2,4) by linarith
  then show ?thesis
  proof cases
    case 1
    then have "nat r div 2 ^ 52 = 0" "nat r mod 2 ^ 52 = nat r" using assms(1) by simp_all
    then show ?thesis using 1 assms(1) by (simp add: mag_val_def)
  next
    case 2
    have "(e + 1074) * 2 ^ 52 + r = (e + 1075) * 2 ^ 52 + (r - 2 ^ 52)" by (simp add: algebra_simps)
    moreover have "mag_val (nat ((e + 1075) * 2 ^ 52 + (r - 2 ^ 52))) = of_int r * 2 powi e"
      using mag_val_normal [of "r - 2 ^ 52" "e + 1075"] 2 assms(3) by simp
    ultimately show ?thesis by (simp only:)
  next
    case 3
    have "(e + 1074) * 2 ^ 52 + r = (e + 1076) * 2 ^ 52 + 0" unfolding 3 by (simp add: algebra_simps)
    moreover have "mag_val (nat ((e + 1076) * 2 ^ 52 + 0)) = of_int (2 ^ 52 + 0) * 2 powi (e + 1076 - 1075)"
      using assms(3) by (intro mag_val_normal) simp_all
    ultimately have "mag_val (nat ((e + 1074) * 2 ^ 52 + r)) = of_int (2 ^ 52) * 2 powi (e + 1)"
      by (simp only:) (simp add: add.commute)
    also have "\<dots> = of_int r * 2 powi e" unfolding 3 by (subst power_int_add) simp_all
    finally show ?thesis .
  qed
qed

lemma d_round_val:
  assumes "d_mag (d_round q) = min (nat ((e + 1074) * 2 ^ 52 + r)) d_inf_mag" and "d_sign (d_round q) = (q < 0)"
    and "0 \<le> r" and "r \<le> 2 ^ 53" and "- 1074 \<le> e" and "e = - 1074 \<or> 2 ^ 52 \<le> r" and "d_isfinite (d_round q)"
  shows "d_val (d_round q) = (if q < 0 then - (of_int r * 2 powi e) else of_int r * 2 powi e)"
proof -
  have "d_mag (d_round q) = nat ((e + 1074) * 2 ^ 52 + r)"
    using assms(1,7) by (simp add: d_isfinite_def min_def split: if_splits)
  then show ?thesis using mag_val_parts [OF assms(3-6)] by (simp only: d_val_mag assms(2))
qed

lemma mag_val_powi:
  assumes "- 1022 \<le> k"
  shows "mag_val (nat (k + 1023) * 2 ^ 52) = 2 powi k"
proof -
  have "nat (k + 1023) * 2 ^ 52 div 2 ^ 52 = nat (k + 1023)" "nat (k + 1023) * 2 ^ 52 mod 2 ^ 52 = (0 :: nat)"
    by (simp_all only: nonzero_mult_div_cancel_right mod_mult_self2_is_0) simp
  then have "mag_val (nat (k + 1023) * 2 ^ 52) = 2 ^ 52 * 2 powi (k - 52)"
    using assms by (simp add: mag_val_def)
  also have "\<dots> = (2 :: rat) powi k" by (simp add: power_int_diff)
  finally show ?thesis .
qed

lemma mag_val_mono: "m \<le> n \<Longrightarrow> mag_val m \<le> mag_val n"
  using mag_val_less [of m n] by (cases "m = n") auto

lemma mag_val_pow: "mag_val ((k + 1023) * 2 ^ 52) = 2 ^ k"
  using mag_val_powi [of "int k"] by (simp add: nat_add_distrib)

text \<open>Rounding does not leave the bounds that are powers of two, up to half a unit in the last place.\<close>

lemma d_round_at_most:
  assumes "\<bar>q\<bar> < 2 powi k * (1 + 1 / 2 ^ 53)" and "q \<noteq> 0" and "- 1021 \<le> k"
  shows "d_mag (d_round q) \<le> nat (k + 1023) * 2 ^ 52"
proof -
  from assms(2) obtain e r where r: "r = round_even (\<bar>q\<bar> / 2 powi e)" and e: "- 1074 \<le> e"
    and m: "d_mag (d_round q) = min (nat ((e + 1074) * 2 ^ 52 + r)) d_inf_mag"
    and b: "0 \<le> r" "r \<le> 2 ^ 53" and n: "e = - 1074 \<or> of_int (2 ^ 52) * 2 powi e \<le> \<bar>q\<bar> \<and> 2 ^ 52 \<le> r"
    by (rule d_round_parts)
  have "(e + 1074) * 2 ^ 52 + r \<le> (k + 1023) * 2 ^ 52"
  proof (cases "e \<le> k - 53")
    case True
    with b(2) show ?thesis by (simp add: algebra_simps)
  next
    case False
    with assms(3) n have q: "of_int (2 ^ 52) * 2 powi e \<le> \<bar>q\<bar>" by auto
    have "2 powi (e + 52) < 2 powi k * (1 + 1 / 2 ^ 53 :: rat)"
      using q assms(1) by (simp add: power_int_add)
    also have "\<dots> < 2 powi (k + 1)" by (simp add: power_int_add)
    finally have "e + 52 < k + 1" by (rule powi_less_imp)
    with False have k: "k = e + 52" by simp
    then have "\<bar>q\<bar> / 2 powi e < of_int (2 ^ 52) + 1 / 2" "of_int (2 ^ 52) \<le> \<bar>q\<bar> / 2 powi e"
      using assms(1) q by (simp_all add: power_int_add field_simps)
    then have "r = 2 ^ 52" unfolding r by (intro round_even_near) auto
    then show ?thesis by (simp add: k algebra_simps)
  qed
  then have "nat ((e + 1074) * 2 ^ 52 + r) \<le> nat ((k + 1023) * 2 ^ 52)" by (rule nat_mono)
  also have "\<dots> = nat (k + 1023) * 2 ^ 52" using assms(3) by (simp add: nat_mult_distrib)
  finally show ?thesis unfolding m by simp
qed

lemma d_round_at_least:
  assumes "2 powi k \<le> \<bar>q\<bar>" and "- 1022 \<le> k" and "k \<le> 1023"
  shows "nat (k + 1023) * 2 ^ 52 \<le> d_mag (d_round q)"
proof -
  have "(0 :: rat) < 2 powi k" by simp
  then have "q \<noteq> 0" using assms(1) by (metis abs_zero not_le)
  then obtain e r where r: "r = round_even (\<bar>q\<bar> / 2 powi e)"
    and m: "d_mag (d_round q) = min (nat ((e + 1074) * 2 ^ 52 + r)) d_inf_mag" and a: "\<bar>q\<bar> < of_int (2 ^ 53) * 2 powi e"
    and b: "0 \<le> r" and n: "e = - 1074 \<or> of_int (2 ^ 52) * 2 powi e \<le> \<bar>q\<bar> \<and> 2 ^ 52 \<le> r"
    by (rule d_round_parts)
  have "2 powi k < (2 :: rat) powi (e + 53)" using assms(1) a by (simp add: power_int_add)
  then have k: "k \<le> e + 52" using powi_less_imp [of k "e + 53"] by simp
  have "2 ^ 52 \<le> r"
  proof (cases "e = - 1074")
    case True
    with k assms(2) have "k = e + 52" by simp
    then have "of_int (2 ^ 52) \<le> \<bar>q\<bar> / 2 powi e" using assms(1) by (simp add: power_int_add field_simps)
    then show ?thesis unfolding r by (rule round_even_ge)
  qed (use n in simp)
  then have "(k + 1023) * 2 ^ 52 \<le> (e + 1074) * 2 ^ 52 + r" using k by (simp add: algebra_simps)
  then have "nat ((k + 1023) * 2 ^ 52) \<le> nat ((e + 1074) * 2 ^ 52 + r)" by (rule nat_mono)
  moreover have "nat ((k + 1023) * 2 ^ 52) = nat (k + 1023) * 2 ^ 52" using assms(2) by (simp add: nat_mult_distrib)
  moreover have "nat (k + 1023) * 2 ^ 52 \<le> d_inf_mag" using assms(3) by (simp add: d_inf_mag_def)
  ultimately show ?thesis unfolding m by simp
qed

section \<open>Exactness\<close>

definition d_exact :: "rat \<Rightarrow> bool" where
  "d_exact q \<longleftrightarrow> (\<exists>m k. q = of_int m * 2 powi k \<and> \<bar>m\<bar> < 2 ^ 53 \<and> - 1074 \<le> k \<and> k \<le> 971)"

lemma d_round_exact:
  assumes "d_exact q" and "q \<noteq> 0"
  shows "d_val (d_round q) = q \<and> d_isfinite (d_round q) \<and> d_sign (d_round q) = (q < 0) \<and> d_mag (d_round q) \<noteq> 0"
proof -
  obtain m k where q: "q = of_int m * 2 powi k" and m: "\<bar>m\<bar> < 2 ^ 53" and k: "- 1074 \<le> k" "k \<le> 971"
    using assms(1) by (auto simp: d_exact_def)
  from assms(2) obtain e r where r: "r = round_even (\<bar>q\<bar> / 2 powi e)" and e: "- 1074 \<le> e"
    and top: "\<bar>q\<bar> < of_int (2 ^ 53) * 2 powi e" and dm: "d_mag (d_round q) = min (nat ((e + 1074) * 2 ^ 52 + r)) d_inf_mag" "d_sign (d_round q) = (q < 0)"
    and b: "0 \<le> r" "r \<le> 2 ^ 53" and n: "e = - 1074 \<or> of_int (2 ^ 52) * 2 powi e \<le> \<bar>q\<bar> \<and> 2 ^ 52 \<le> r"
    by (rule d_round_parts)
  have a: "\<bar>q\<bar> = of_int \<bar>m\<bar> * 2 powi k" by (simp add: q abs_mult)
  have lt: "\<bar>q\<bar> < of_int (2 ^ 53) * 2 powi k"
    unfolding a using m by (intro mult_strict_right_mono) (simp_all only: of_int_less_iff, simp)
  have ek: "e \<le> k"
  proof (cases "e = - 1074")
    case False
    with n lt have "2 powi (e + 52) < (2 :: rat) powi (k + 53)" by (simp add: power_int_add)
    then show ?thesis using powi_less_imp by fastforce
  qed (use k in simp)
  have "(2 :: rat) powi k = 2 powi (k - e) * 2 powi e" by (simp add: power_int_diff)
  also have "(2 :: rat) powi (k - e) = of_int (2 ^ nat (k - e))" using ek by (simp add: power_int_def)
  finally have aM: "\<bar>q\<bar> = of_int (\<bar>m\<bar> * 2 ^ nat (k - e)) * 2 powi e" by (simp add: a)
  then have "\<bar>q\<bar> / 2 powi e = of_int (\<bar>m\<bar> * 2 ^ nat (k - e))" by simp
  then have "r = \<bar>m\<bar> * 2 ^ nat (k - e)" unfolding r by (simp only: round_even_of_int)
  with aM have ar: "\<bar>q\<bar> = of_int r * 2 powi e" by (simp only:)
  have "r \<noteq> 0" using ar assms(2) by auto
  with b e have nz: "nat ((e + 1074) * 2 ^ 52 + r) \<noteq> 0" by (simp add: add_nonneg_pos not_le)
  have "r < 2 ^ 53" using top [unfolded ar] by (simp only: mult_less_cancel_right_pos zero_less_power_int of_int_less_iff)
  moreover have "(e + 1074) * 2 ^ 52 \<le> (971 + 1074) * 2 ^ 52" by (rule mult_right_mono) (use ek k in auto)
  ultimately have lt: "nat ((e + 1074) * 2 ^ 52 + r) < d_inf_mag" by (simp add: d_inf_mag_def nat_less_iff)
  then have f: "d_isfinite (d_round q)" "d_mag (d_round q) \<noteq> 0" using nz by (simp_all add: d_isfinite_def dm min_def)
  have "d_val (d_round q) = q" using d_round_val [OF dm b e _ f(1)] n ar by auto
  with f dm show ?thesis by blast
qed

section \<open>Whole numbers are exact\<close>

lemma d_exact_nat: "n < 2 ^ 53 \<Longrightarrow> d_exact (of_nat n)"
  unfolding d_exact_def by (rule exI [of _ "int n"], rule exI [of _ 0]) simp

lemma d_zero: "d_mag 0 = 0" "d_sign 0 = False" "d_val 0 = 0" "d_isfinite 0" "d_pack False 0 = 0"
  "d_of_nat 0 = 0"
  by (simp_all add: d_mag_def d_sign_def d_val_def d_isfinite_def d_inf_mag_def d_pack_def d_of_nat_def)

lemma d_of_nat_props:
  assumes "n < 2 ^ 53"
  shows "d_val (d_of_nat n) = of_nat n" and "d_isfinite (d_of_nat n)" and "\<not> d_sign (d_of_nat n)"
    and "d_mag (d_of_nat n) = 0 \<longleftrightarrow> n = 0"
  using d_round_exact [OF d_exact_nat [OF assms]] d_zero
  by (cases "n = 0"; simp add: d_of_nat_def)+

lemma finite_not_special: "d_isfinite x \<Longrightarrow> \<not> d_isnan x \<and> \<not> d_isinf x"
  by (simp add: d_isfinite_def d_isnan_def d_isinf_def)

lemma d_add_of_nat:
  assumes "m + n < 2 ^ 53"
  shows "d_add (d_of_nat m) (d_of_nat n) = d_of_nat (m + n)"
proof -
  have mn: "m < 2 ^ 53" "n < 2 ^ 53" using assms by auto
  note pm = d_of_nat_props [OF mn(1)] and pn = d_of_nat_props [OF mn(2)]
  show ?thesis
    using finite_not_special [OF pm(2)] finite_not_special [OF pn(2)] pm pn
    by (simp add: d_add_def Let_def d_of_nat_def [of "m + n"] d_zero flip: of_nat_add)
qed

lemma d_mul_of_nat:
  assumes "m * n < 2 ^ 53" and "m < 2 ^ 53" and "n < 2 ^ 53"
  shows "d_mul (d_of_nat m) (d_of_nat n) = d_of_nat (m * n)"
proof -
  note pm = d_of_nat_props [OF assms(2)] and pn = d_of_nat_props [OF assms(3)]
    and pmn = d_of_nat_props [OF assms(1)]
  show ?thesis
    using finite_not_special [OF pm(2)] finite_not_special [OF pn(2)] pm pn pmn(4)
    by (auto simp: d_mul_def Let_def d_of_nat_def [of "m * n"] d_zero split: if_splits
        simp flip: of_nat_mult)
qed

lemma d_eq_refl: "d_isfinite x \<Longrightarrow> d_eq x x"
  by (simp add: d_eq_def finite_not_special)

section \<open>Operations on exact values\<close>

text \<open>
  An operation on finite doubles whose exact result is a double gives that result; the zero it
  may give carries a sign that its value does not show.
\<close>

lemma d_pack_0: "d_val (d_pack s 0) = 0" "d_isfinite (d_pack s 0)"
  using d_pack [of 0 s] by (simp_all add: d_val_def d_isfinite_def d_inf_mag_def)

lemma d_val_0_iff: "d_val x = 0 \<longleftrightarrow> d_mag x = 0"
proof
  assume v: "d_val x = 0"
  show "d_mag x = 0"
  proof (cases "d_mag x div 2 ^ 52 = 0")
    case True
    with v have "d_mag x mod 2 ^ 52 = 0" by (simp add: d_val_def Let_def split: if_splits)
    with True show ?thesis by (metis div_mult_mod_eq add_0 mult_0)
  next
    case False
    have "(2 :: rat) ^ 52 + of_nat (d_mag x mod 2 ^ 52) \<noteq> 0"
      by (metis add_pos_nonneg less_numeral_extra(3) of_nat_0_le_iff zero_less_numeral zero_less_power)
    with v False show ?thesis by (simp add: d_val_def Let_def split: if_splits)
  qed
qed (simp add: d_val_def)

lemma d_add_exact:
  assumes "d_isfinite a" and "d_isfinite b" and "d_exact (d_val a + d_val b)"
  shows "d_isfinite (d_add a b) \<and> d_val (d_add a b) = d_val a + d_val b"
  using finite_not_special [OF assms(1)] finite_not_special [OF assms(2)] d_round_exact [OF assms(3)]
  by (auto simp: d_add_def Let_def d_pack_0)

lemma d_mul_exact:
  assumes "d_isfinite a" and "d_isfinite b" and "d_exact (d_val a * d_val b)"
  shows "d_isfinite (d_mul a b) \<and> d_val (d_mul a b) = d_val a * d_val b"
proof (cases "d_val a * d_val b = 0")
  case False
  then have "d_mag a \<noteq> 0" "d_mag b \<noteq> 0" using d_val_0_iff by auto
  with False show ?thesis
    using finite_not_special [OF assms(1)] finite_not_special [OF assms(2)] d_round_exact [OF assms(3)]
    by (simp add: d_mul_def Let_def)
next
  case True
  then show ?thesis
    using finite_not_special [OF assms(1)] finite_not_special [OF assms(2)]
    by (auto simp: d_mul_def Let_def d_pack_0 d_val_0_iff)
qed

lemma d_div_exact:
  assumes "d_isfinite a" and "d_isfinite b" and "d_mag a \<noteq> 0" and "d_mag b \<noteq> 0" and "d_val a / d_val b \<noteq> 0"
    and "d_exact (d_val a / d_val b)"
  shows "d_isfinite (d_div a b) \<and> d_val (d_div a b) = d_val a / d_val b"
  using finite_not_special [OF assms(1)] finite_not_special [OF assms(2)] d_round_exact [OF assms(6,5)]
    assms(3,4) by (simp add: d_div_def Let_def)

lemma d_neg_props:
  "d_mag (d_neg x) = d_mag x" "d_sign (d_neg x) = (\<not> d_sign x)" "d_val (d_neg x) = - d_val x"
  "d_isfinite (d_neg x) = d_isfinite x"
proof -
  have "take_bit 63 (d_neg x) = take_bit 63 x"
    unfolding d_neg_def by (rule bit_word_eqI) (auto simp: bit_simps)
  then show m: "d_mag (d_neg x) = d_mag x" by (simp add: d_mag_take)
  show n: "d_sign (d_neg x) = (\<not> d_sign x)" by (simp add: d_sign_def d_neg_def bit_simps)
  show "d_val (d_neg x) = - d_val x" by (simp add: d_val_def m n Let_def)
  show "d_isfinite (d_neg x) = d_isfinite x" by (simp add: d_isfinite_def m)
qed

lemma d_abs_props: "d_mag (d_abs x) = d_mag x" "\<not> d_sign (d_abs x)"
proof -
  have m: "(0x7FFFFFFFFFFFFFFF :: u64) = mask 63" by (simp add: mask_eq_exp_minus_1)
  have "take_bit 63 (d_abs x) = take_bit 63 x"
    unfolding d_abs_def m by (rule bit_word_eqI) (auto simp: bit_simps)
  then show "d_mag (d_abs x) = d_mag x" by (simp add: d_mag_take)
  show "\<not> d_sign (d_abs x)" by (simp add: d_sign_def d_abs_def bit_simps)
qed

lemma d_sub_self:
  assumes "d_isfinite x"
  shows "d_mag (d_sub x x) = 0"
  using finite_not_special [OF assms] finite_not_special [of "d_neg x"] assms
  by (simp add: d_sub_def d_add_def d_neg_props Let_def d_pack)

lemma d_not_lt_zero:
  assumes "\<not> d_sign a" and "d_mag z = 0"
  shows "\<not> d_lt a z"
  using assms by (simp add: d_lt_def d_key_def)

lemma d_val_nonneg: "\<not> d_sign a \<Longrightarrow> 0 \<le> d_val a"
  by (simp add: d_val_def Let_def)

lemma d_sign_round: "d_sign (d_round q) = (q < 0)"
  by (simp add: d_round_def Let_def d_pack d_inf_mag_def min_def)

lemma d_mul_sign:
  assumes "\<not> d_sign a" and "\<not> d_sign b"
  shows "\<not> d_sign (d_mul a b)"
proof -
  have "\<not> d_val a * d_val b < 0" using assms d_val_nonneg by (simp add: not_less)
  moreover have "\<not> d_sign d_qnan" by (simp add: d_sign_def d_qnan_def bit_simps)
  ultimately show ?thesis using assms d_pack [of 0 False] d_pack [of d_inf_mag False]
    by (auto simp: d_mul_def Let_def d_sign_round d_inf_mag_def)
qed

section \<open>Bounds that rounding keeps\<close>

definition d_bounded :: "nat \<Rightarrow> dbl \<Rightarrow> bool" where
  \<comment> \<open>at most 2^k in absolute value\<close>
  "d_bounded k x \<longleftrightarrow> d_mag x \<le> (k + 1023) * 2 ^ 52"

lemma d_bounded_val: "d_bounded k x \<Longrightarrow> \<bar>d_val x\<bar> \<le> 2 ^ k"
  using mag_val_mono [of "d_mag x" "(k + 1023) * 2 ^ 52", unfolded mag_val_pow] mag_val_nonneg [of "d_mag x"]
  unfolding d_bounded_def by (simp only: d_val_mag split: if_split) simp

lemma d_bounded_finite: "d_bounded k x \<Longrightarrow> k < 1024 \<Longrightarrow> d_isfinite x"
  by (simp add: d_bounded_def d_isfinite_def d_inf_mag_def)

lemma d_bounded_0: "d_mag x = 0 \<Longrightarrow> d_bounded k x"
  by (simp add: d_bounded_def)

lemma d_bounded_mono: "d_bounded j x \<Longrightarrow> j \<le> k \<Longrightarrow> d_bounded k x"
  unfolding d_bounded_def by (erule order_trans) simp

lemma d_round_bounded:
  assumes "q \<noteq> 0" and "\<bar>q\<bar> < 2 ^ k * (1 + 1 / 2 ^ 53)"
  shows "d_bounded k (d_round q)"
  using d_round_at_most [of q "int k"] assms by (simp add: d_bounded_def nat_add_distrib)

lemma d_round_error:
  assumes "q \<noteq> 0" and "\<bar>q\<bar> < 2 ^ k * (1 + 1 / 2 ^ 53)" and "k \<le> 1000"
  shows "\<bar>d_val (d_round q) - q\<bar> \<le> 2 ^ k / 2 ^ 53"
proof -
  from assms(1) obtain e r where r: "r = round_even (\<bar>q\<bar> / 2 powi e)" and e: "- 1074 \<le> e"
    and dm: "d_mag (d_round q) = min (nat ((e + 1074) * 2 ^ 52 + r)) d_inf_mag" "d_sign (d_round q) = (q < 0)"
    and b: "0 \<le> r" "r \<le> 2 ^ 53" and n: "e = - 1074 \<or> of_int (2 ^ 52) * 2 powi e \<le> \<bar>q\<bar> \<and> 2 ^ 52 \<le> r"
    by (rule d_round_parts)
  have "d_isfinite (d_round q)" using d_bounded_finite [OF d_round_bounded [OF assms(1,2)]] assms(3) by simp
  then have v: "d_val (d_round q) = (if q < 0 then - (of_int r * 2 powi e) else of_int r * 2 powi e)"
    using d_round_val [OF dm b e] n by auto
  have pe: "(0 :: rat) < 2 powi e" by simp
  have "of_int r * 2 powi e - \<bar>q\<bar> = (of_int r - \<bar>q\<bar> / 2 powi e) * 2 powi e"
    using pe by (simp add: left_diff_distrib)
  then have "\<bar>of_int r * 2 powi e - \<bar>q\<bar>\<bar> = \<bar>of_int r - \<bar>q\<bar> / 2 powi e\<bar> * 2 powi e"
    by (simp only: abs_mult abs_of_pos [OF pe])
  also have "\<dots> \<le> 1 / 2 * 2 powi e" unfolding r by (intro mult_right_mono round_even_error) simp
  also have "\<dots> \<le> 2 ^ k / 2 ^ 53"
  proof -
    have "e + 52 \<le> int k"
    proof (cases "e = - 1074")
      case False
      with n assms(2) have "2 powi (e + 52) < 2 ^ k * (1 + 1 / 2 ^ 53 :: rat)" by (simp add: power_int_add)
      also have "\<dots> < 2 powi (int k + 1)" by (simp add: power_int_add)
      finally have "e + 52 < int k + 1" by (rule powi_less_imp)
      then show ?thesis by simp
    qed simp
    then have "2 powi (e + 52) \<le> (2 :: rat) powi int k" by (intro power_int_increasing) simp_all
    then show ?thesis by (simp add: power_int_add)
  qed
  finally have "\<bar>of_int r * 2 powi e - \<bar>q\<bar>\<bar> \<le> 2 ^ k / 2 ^ 53" .
  moreover have "\<bar>d_val (d_round q) - q\<bar> = \<bar>of_int r * 2 powi e - \<bar>q\<bar>\<bar>"
    unfolding v by (simp only: abs_if) auto
  ultimately show ?thesis by (simp only:)
qed

lemma d_mul_bounded:
  assumes "d_bounded j a" and "d_bounded k b" and "j + k \<le> 1000"
  shows "d_bounded (j + k) (d_mul a b)"
proof -
  have f: "d_isfinite a" "d_isfinite b"
    using d_bounded_finite [OF assms(1)] d_bounded_finite [OF assms(2)] assms(3) by auto
  note ns = finite_not_special [OF f(1)] finite_not_special [OF f(2)]
  show ?thesis
  proof (cases "d_val a * d_val b = 0")
    case True
    then have "d_mag a = 0 \<or> d_mag b = 0" by (simp add: d_val_0_iff)
    then have "d_mul a b = d_pack (d_sign a \<noteq> d_sign b) 0" using ns by (simp add: d_mul_def Let_def)
    then show ?thesis by (simp add: d_bounded_0 d_pack)
  next
    case False
    have "\<bar>d_val a * d_val b\<bar> \<le> 2 ^ j * 2 ^ k"
      unfolding abs_mult using d_bounded_val [OF assms(1)] d_bounded_val [OF assms(2)] by (intro mult_mono) auto
    also have "\<dots> < 2 ^ (j + k) * (1 + 1 / 2 ^ 53)" by (simp add: power_add)
    finally have r: "d_bounded (j + k) (d_round (d_val a * d_val b))"
      using False assms(3) by (intro d_round_bounded) auto
    have z: "d_bounded (j + k) (d_pack s 0)" for s by (simp add: d_bounded_0 d_pack)
    have "d_mag a \<noteq> 0" "d_mag b \<noteq> 0" using False d_val_0_iff by auto
    with r z ns show ?thesis by (simp add: d_mul_def Let_def)
  qed
qed

text \<open>Adding what is small enough to be rounded away cannot leave a power-of-two bound.\<close>

lemma d_add_bounded:
  assumes "d_bounded k a" and "d_bounded j b" and "j + 54 \<le> k" and "k \<le> 1000"
  shows "d_bounded k (d_add a b)"
proof -
  have f: "d_isfinite a" "d_isfinite b"
    using d_bounded_finite [OF assms(1)] d_bounded_finite [OF assms(2)] assms(3,4) by auto
  note ns = finite_not_special [OF f(1)] finite_not_special [OF f(2)]
  show ?thesis
  proof (cases "d_val a + d_val b = 0")
    case True
    with ns show ?thesis by (simp add: d_add_def Let_def d_bounded_0 d_pack)
  next
    case False
    have "(2 :: rat) ^ j < 2 ^ k * (1 / 2 ^ 53)"
    proof -
      have "(2 :: rat) ^ (j + 53) < 2 ^ k" using assms(3) by (intro power_strict_increasing) auto
      then show ?thesis by (simp add: power_add field_simps)
    qed
    then have "\<bar>d_val a + d_val b\<bar> < 2 ^ k * (1 + 1 / 2 ^ 53)"
      using d_bounded_val [OF assms(1)] d_bounded_val [OF assms(2)]
    by (simp only: distrib_left mult_1_right)
    with False assms(4) have "d_bounded k (d_round (d_val a + d_val b))" by (intro d_round_bounded)
    with False ns show ?thesis by (simp add: d_add_def Let_def)
  qed
qed

lemma d_val_neg: "d_val (d_neg x) = - d_val x"
  by (rule d_neg_props)

lemma d_mul_neg:
  "d_mul (d_neg a) b = d_mul a (d_neg b)"
  by (simp add: d_mul_def Let_def d_neg_props d_isnan_def d_isinf_def)

end
