(* ===== verification/Mpi_Io.thy ===== *)
theory Mpi_Io
  imports Wait_Deadline Binary64
begin

text \<open>
  The checked MPI calls of the NPB programs (src/npb_receive.h, src/npb_mpi_wait.h and the
  \<open>mpi_send_f\<close>, \<open>mpi_recv_f\<close>, \<open>mpi_iprobe_f\<close>, \<open>die_mpi\<close> of src/master_npb.c and
  src/worker_npb.c): every blocking call runs in a wait scope, every failure ends the process.

  MPI itself is not in the repository: its calls are the fields of the record \<open>mpi\<close>, over a
  state \<open>'e\<close> that stands for everything outside the process. A communicator is a handle
  (a number); the remote side always has the single rank 0. \<open>m_recv\<close> returns the bytes the
  call stored at the start of the buffer, and \<open>m_get_count\<close> reads their number from the
  status. \<open>m_malloc\<close> says whether an allocation succeeds.
\<close>

datatype mpi_rc = MPI_SUCCESS | MPI_ERR_ARG | MPI_ERR_COUNT | MPI_ERR_TRUNCATE | MPI_ERR_PORT
  | MPI_ERR_NAME | MPI_ERR_SERVICE | MPI_ERR_OTHER nat

type_synonym comm = nat

record 'e mpi =
  m_wait :: wait_sys
  m_send :: "comm \<Rightarrow> int \<Rightarrow> bytes \<Rightarrow> 'e \<Rightarrow> mpi_rc \<times> 'e"
  m_recv :: "comm \<Rightarrow> int \<Rightarrow> nat \<Rightarrow> 'e \<Rightarrow> (mpi_rc \<times> bytes) \<times> 'e"
  m_get_count :: "bytes \<Rightarrow> mpi_rc \<times> nat"
  m_iprobe :: "comm \<Rightarrow> int \<Rightarrow> 'e \<Rightarrow> (mpi_rc \<times> bool) \<times> 'e"
  m_disconnect :: "comm \<Rightarrow> 'e \<Rightarrow> mpi_rc \<times> 'e"
  m_init :: "'e \<Rightarrow> mpi_rc \<times> 'e"
  m_finalize :: "'e \<Rightarrow> mpi_rc \<times> 'e"
  m_wtime :: "'e \<Rightarrow> dbl \<times> 'e"
  m_malloc :: "nat \<Rightarrow> 'e \<Rightarrow> bool \<times> 'e"

text \<open>The process: the wait state and what is outside.\<close>

type_synonym 'e world = "wait_state \<times> 'e"

definition on_wait :: "(wait_state, 'a) prog \<Rightarrow> ('e world, 'a) prog" where
  "on_wait m w = (case m (fst w) of Done x s \<Rightarrow> Done x (s, snd w) | Halt c s \<Rightarrow> Halt c (s, snd w)
     | Spin s \<Rightarrow> Spin (s, snd w))"

definition on_env :: "('e \<Rightarrow> 'a \<times> 'e) \<Rightarrow> ('e world, 'a) prog" where
  "on_env f w = (case f (snd w) of (x, e) \<Rightarrow> Done x (fst w, e))"

lemma on_env_Done [simp]:
  "on_env f (s, e) = Done x w' \<longleftrightarrow> f e = (x, snd w') \<and> s = fst w'"
  by (cases w') (auto simp: on_env_def split: prod.splits)

lemma on_env_run: "f e = (x, e') \<Longrightarrow> on_env f (s, e) = Done x (s, e')"
  by (simp add: on_env_def)

lemma on_wait_Done [simp]:
  "on_wait m (s, e) = Done x w' \<longleftrightarrow> m s = Done x (fst w') \<and> e = snd w'"
  by (cases w') (auto simp: on_wait_def split: outcome.splits)

lemma on_wait_run: "m s = Done x s' \<Longrightarrow> on_wait m (s, e) = Done x (s', e)"
  by (simp add: on_wait_def)

section \<open>The interface of a deadline scope\<close>

text \<open>
  What the wrappers rely on: from a ready state the scope opens and closes, and closing leads
  back to a ready state. The client lemma: a call bracketed by the scope gets through to the
  environment exactly once and the state stays ready.
\<close>

locale deadline_scope =
  fixes enter :: "'k \<Rightarrow> (wait_state, unit) prog"
    and leave :: "(wait_state, unit) prog"
    and ready :: "wait_state \<Rightarrow> bool"
  assumes bracket: "ready s \<Longrightarrow> \<exists>s1 s2. enter k s = Done () s1 \<and> leave s1 = Done () s2 \<and> ready s2"
begin

lemma scoped_call:
  assumes "ready s"
  shows "\<exists>s1 s2. ready s2 \<and>
    bindP (on_wait (enter k)) (\<lambda>_. bindP (on_env f)
      (\<lambda>x. if ok x then bindP (on_wait leave) (\<lambda>_. ret (g x)) else dead x)) (s, e) =
    (case f e of (x, e') \<Rightarrow> if ok x then Done (g x) (s2, e') else dead x (s1, e'))"
proof -
  obtain s1 s2 where b: "enter k s = Done () s1" "leave s1 = Done () s2" "ready s2"
    using bracket [OF assms] by blast
  obtain x e' where f: "f e = (x, e')" by fastforce
  show ?thesis
    by (rule exI [of _ s1], rule exI [of _ s2])
      (simp add: b f bindP_def on_wait_def on_env_def)
qed

end

interpretation npb_scope: deadline_scope "npb_wait_begin Y" "npb_wait_end Y" "wait_ready Y" for Y
  by unfold_locales (use wait_bracket in blast)

section \<open>The wrappers\<close>

definition die_mpi :: "'e mpi \<Rightarrow> mpi_rc \<Rightarrow> ('e world, 'a) prog" where
  "die_mpi M rc = bindP (on_wait (npb_wait_begin (m_wait M) NPB_WAIT_SHUTDOWN)) (\<lambda>_. halt 1)"

definition npb_recv_exact :: "'e mpi \<Rightarrow> int \<Rightarrow> int \<Rightarrow> comm \<Rightarrow> 'e \<Rightarrow> (mpi_rc \<times> bytes) \<times> 'e" where
  "npb_recv_exact M count tag comm e =
     (if count < 0 then ((MPI_ERR_COUNT, []), e)
      else case m_recv M comm tag (nat count) e of ((result, data), e') \<Rightarrow>
        if result \<noteq> MPI_SUCCESS then ((result, data), e')
        else case m_get_count M data of (result', received_count) \<Rightarrow>
          if result' \<noteq> MPI_SUCCESS then ((result', data), e')
          else if int received_count = count then ((MPI_SUCCESS, data), e')
          else ((MPI_ERR_TRUNCATE, data), e'))"

definition mpi_send_f :: "'e mpi \<Rightarrow> bytes \<Rightarrow> int \<Rightarrow> comm \<Rightarrow> ('e world, unit) prog" where
  "mpi_send_f M buf tag comm =
     bindP (on_wait (npb_wait_begin (m_wait M) NPB_WAIT_IO)) (\<lambda>_.
     bindP (on_env (m_send M comm tag buf)) (\<lambda>rc.
     if rc = MPI_SUCCESS then bindP (on_wait (npb_wait_end (m_wait M))) (\<lambda>_. ret ())
     else die_mpi M rc))"

definition mpi_recv_f :: "'e mpi \<Rightarrow> int \<Rightarrow> int \<Rightarrow> comm \<Rightarrow> ('e world, bytes) prog" where
  "mpi_recv_f M count tag comm =
     bindP (on_wait (npb_wait_begin (m_wait M) NPB_WAIT_IO)) (\<lambda>_.
     bindP (on_env (npb_recv_exact M count tag comm)) (\<lambda>r.
     if fst r = MPI_SUCCESS then bindP (on_wait (npb_wait_end (m_wait M))) (\<lambda>_. ret (snd r))
     else die_mpi M (fst r)))"

definition mpi_iprobe_f :: "'e mpi \<Rightarrow> int \<Rightarrow> comm \<Rightarrow> ('e world, bool) prog" where
  "mpi_iprobe_f M tag comm =
     bindP (on_env (m_iprobe M comm tag)) (\<lambda>r.
     if fst r = MPI_SUCCESS then ret (snd r) else die_mpi M (fst r))"

definition npb_mpi_init :: "'e mpi \<Rightarrow> ('e world, mpi_rc) prog" where
  "npb_mpi_init M =
     bindP (on_wait (npb_wait_begin (m_wait M) NPB_WAIT_ENROLLMENT)) (\<lambda>_.
     bindP (on_env (m_init M)) (\<lambda>result.
     bindP (on_wait (npb_wait_end (m_wait M))) (\<lambda>_. ret result)))"

definition npb_mpi_disconnect :: "'e mpi \<Rightarrow> comm \<Rightarrow> ('e world, mpi_rc) prog" where
  "npb_mpi_disconnect M comm =
     bindP (on_wait (npb_wait_begin (m_wait M) NPB_WAIT_SHUTDOWN)) (\<lambda>_.
     bindP (on_env (m_disconnect M comm)) (\<lambda>result.
     bindP (on_wait (npb_wait_end (m_wait M))) (\<lambda>_. ret result)))"

definition npb_mpi_finalize :: "'e mpi \<Rightarrow> ('e world, mpi_rc) prog" where
  "npb_mpi_finalize M =
     bindP (on_wait (npb_wait_begin (m_wait M) NPB_WAIT_SHUTDOWN)) (\<lambda>_.
     bindP (on_env (m_finalize M)) (\<lambda>result.
     bindP (on_wait (npb_wait_end (m_wait M))) (\<lambda>_. ret result)))"

definition mpi_wtime :: "'e mpi \<Rightarrow> ('e world, dbl) prog" where
  "mpi_wtime M = on_env (m_wtime M)"

lemma spinless_on [spinless_intros]: "spinless m \<Longrightarrow> spinless (on_wait m)" "spinless (on_env f)"
  by (auto simp: spinless_def on_wait_def on_env_def split: outcome.splits prod.splits)

lemma spinless_wrappers [spinless_intros]:
  "spinless (die_mpi M rc)" "spinless (mpi_send_f M buf tag comm)" "spinless (mpi_recv_f M count tag comm)"
  "spinless (mpi_iprobe_f M tag comm)" "spinless (mpi_wtime M)"
  unfolding mpi_send_f_def mpi_recv_f_def mpi_iprobe_f_def mpi_wtime_def die_mpi_def
  by (intro spinless_intros)+

section \<open>What the wrappers do\<close>

lemma die_mpi_not_Done [simp]: "die_mpi M rc w \<noteq> Done x w'"
  by (auto simp: die_mpi_def)

lemma mpi_send_f_DoneD:
  "mpi_send_f M buf tag comm w = Done u w' \<Longrightarrow> m_send M comm tag buf (snd w) = (MPI_SUCCESS, snd w')"
  by (cases w, cases w') (auto simp: mpi_send_f_def split: if_splits)

lemma mpi_recv_f_DoneD:
  "mpi_recv_f M count tag comm w = Done d w' \<Longrightarrow>
   npb_recv_exact M count tag comm (snd w) = ((MPI_SUCCESS, d), snd w')"
  by (cases w, cases w') (auto simp: mpi_recv_f_def split: if_splits)

text \<open>
  The documented behaviour of \<open>MPI_Get_count\<close> for \<open>MPI_UNSIGNED_CHAR\<close>: it succeeds
  and reports how many bytes were received.
\<close>

definition count_documented :: "'e mpi \<Rightarrow> bool" where
  "count_documented M \<longleftrightarrow> (\<forall>d. m_get_count M d = (MPI_SUCCESS, length d))"

lemma npb_recv_exact_length:
  assumes "npb_recv_exact M count tag comm e = ((MPI_SUCCESS, d), e')" and "count_documented M"
  shows "int (length d) = count"
  using assms
  by (auto simp: npb_recv_exact_def count_documented_def split: if_splits prod.splits)

lemma mpi_recv_f_length:
  assumes "mpi_recv_f M count tag comm w = Done d w'" and "count_documented M"
  shows "int (length d) = count"
  using mpi_recv_f_DoneD [OF assms(1)] assms(2) by (rule npb_recv_exact_length)

lemma mpi_send_f_ready:
  assumes "wait_ready (m_wait M) s"
  shows "\<exists>s1 s2. wait_ready (m_wait M) s2 \<and>
    mpi_send_f M buf tag comm (s, e) =
      (case m_send M comm tag buf e of (rc, e') \<Rightarrow>
         if rc = MPI_SUCCESS then Done () (s2, e') else die_mpi M rc (s1, e'))"
  using npb_scope.scoped_call
    [OF assms, of NPB_WAIT_IO "m_send M comm tag buf" "\<lambda>rc. rc = MPI_SUCCESS" "\<lambda>_. ()" "die_mpi M" e]
  by (simp add: mpi_send_f_def)

lemma mpi_recv_f_ready:
  assumes "wait_ready (m_wait M) s"
  shows "\<exists>s1 s2. wait_ready (m_wait M) s2 \<and>
    mpi_recv_f M count tag comm (s, e) =
      (case npb_recv_exact M count tag comm e of (r, e') \<Rightarrow>
         if fst r = MPI_SUCCESS then Done (snd r) (s2, e') else die_mpi M (fst r) (s1, e'))"
  using npb_scope.scoped_call
    [OF assms, of NPB_WAIT_IO "npb_recv_exact M count tag comm" "\<lambda>r. fst r = MPI_SUCCESS" snd
      "\<lambda>r. die_mpi M (fst r)" e]
  by (simp add: mpi_recv_f_def)

lemma mpi_send_f_run:
  assumes "wait_ready (m_wait M) s" and "m_send M comm tag buf e = (MPI_SUCCESS, e')"
  shows "\<exists>s'. wait_ready (m_wait M) s' \<and> mpi_send_f M buf tag comm (s, e) = Done () (s', e')"
  using mpi_send_f_ready [OF assms(1), of buf tag comm e] assms(2) by auto

lemma mpi_recv_f_run:
  assumes "wait_ready (m_wait M) s" and "count_documented M"
    and "m_recv M comm tag (nat count) e = ((MPI_SUCCESS, d), e')" and "int (length d) = count"
  shows "\<exists>s'. wait_ready (m_wait M) s' \<and> mpi_recv_f M count tag comm (s, e) = Done d (s', e')"
proof -
  have "npb_recv_exact M count tag comm e = ((MPI_SUCCESS, d), e')"
    using assms(2-4) by (auto simp: npb_recv_exact_def count_documented_def)
  then show ?thesis using mpi_recv_f_ready [OF assms(1), of count tag comm e] by auto
qed

text \<open>
  A receive wrapper that returns has received exactly the requested number of bytes: a
  shorter message is turned into an error, and every error ends the process.
\<close>

theorem mpi_recv_f_exact:
  assumes "count_documented M" and "mpi_recv_f M count tag comm w = Done d w'"
  shows "int (length d) = count \<and>
    m_recv M comm tag (nat count) (snd w) = ((MPI_SUCCESS, d), snd w')"
proof -
  have r: "npb_recv_exact M count tag comm (snd w) = ((MPI_SUCCESS, d), snd w')"
    using assms(2) by (rule mpi_recv_f_DoneD)
  moreover have "int (length d) = count" using r assms(1) by (rule npb_recv_exact_length)
  ultimately show ?thesis
    by (auto simp: npb_recv_exact_def split: if_splits prod.splits)
qed

text \<open>A concrete environment for evaluations: one FIFO of tagged messages in, one out.\<close>

type_synonym fifo_net = "(int \<times> bytes) list \<times> (int \<times> bytes) list"

definition fifo_send :: "comm \<Rightarrow> int \<Rightarrow> bytes \<Rightarrow> fifo_net \<Rightarrow> mpi_rc \<times> fifo_net" where
  "fifo_send c tag b e = (MPI_SUCCESS, (fst e, snd e @ [(tag, b)]))"

definition fifo_recv :: "comm \<Rightarrow> int \<Rightarrow> nat \<Rightarrow> fifo_net \<Rightarrow> (mpi_rc \<times> bytes) \<times> fifo_net" where
  "fifo_recv c tag n e =
     (case fst e of
        [] \<Rightarrow> ((MPI_ERR_OTHER 0, []), e)
      | (t, b) # rest \<Rightarrow>
          if t \<noteq> tag then ((MPI_ERR_OTHER 1, []), e)
          else if length b > n then ((MPI_ERR_TRUNCATE, take n b), (rest, snd e))
          else ((MPI_SUCCESS, b), (rest, snd e)))"

definition fifo_mpi :: "fifo_net mpi" where
  "fifo_mpi = \<lparr>m_wait = demo_wait_sys, m_send = fifo_send, m_recv = fifo_recv,
     m_get_count = (\<lambda>d. (MPI_SUCCESS, length d)),
     m_iprobe = (\<lambda>c tag e. ((MPI_SUCCESS, fst e \<noteq> [] \<and> fst (hd (fst e)) = tag), e)),
     m_disconnect = (\<lambda>c e. (MPI_SUCCESS, e)), m_init = (\<lambda>e. (MPI_SUCCESS, e)),
     m_finalize = (\<lambda>e. (MPI_SUCCESS, e)), m_wtime = (\<lambda>e. (0, e)),
     m_malloc = (\<lambda>n e. (True, e))\<rparr>"

lemma fifo_documented: "count_documented fifo_mpi"
  by (simp add: count_documented_def fifo_mpi_def)

lemma fifo_ready: "wait_ready (m_wait fifo_mpi) wait_init"
  by (simp add: wait_ready_def fifo_mpi_def demo_wait_sys_good wait_reach_inv [OF reach_init])
    (simp add: wait_init_def)

theorem mpi_recv_f_exact_witness:
  "\<exists>w'. mpi_recv_f fifo_mpi 2 5 0 (wait_init, ([(5, [7, 8])], [])) = Done [7, 8] w'
        \<and> int (length [7 :: u8, 8]) = 2"
proof -
  obtain s2 where r: "mpi_recv_f fifo_mpi 2 5 0 (wait_init, ([(5, [7, 8])], []))
      = Done [7, 8] (s2, ([], []))"
    using mpi_recv_f_ready [OF fifo_ready, of 2 5 0 "([(5, [7, 8])], [])"]
    by (auto simp: npb_recv_exact_def fifo_mpi_def fifo_recv_def)
  from mpi_recv_f_exact [OF fifo_documented r] r show ?thesis by blast
qed

end
