(* ===== verification/Byte_Codec.thy ===== *)
theory Byte_Codec
  imports Prelude
begin

text \<open>
  The byte-level helpers of src/master_npb.c and src/worker_npb.c: big-endian and little-endian
  loads and stores, and hexadecimal text. Arrays are byte lists of the array's length; a C
  string is its characters without the terminator. The native integers that are sent as raw
  memory are little-endian (\<open>le_enc\<close>, \<open>le_dec\<close>): the programs run on x86-64.
\<close>

section \<open>Little-endian words of any width\<close>

fun le_enc :: "nat \<Rightarrow> 'a::len word \<Rightarrow> bytes" where
  "le_enc 0 w = []"
| "le_enc (Suc n) w = ucast w # le_enc n (drop_bit 8 w)"

fun le_dec :: "bytes \<Rightarrow> 'a::len word" where
  "le_dec [] = 0"
| "le_dec (b # bs) = ucast b OR push_bit 8 (le_dec bs)"

lemma length_le_enc [simp]: "length (le_enc n w) = n"
  by (induction n arbitrary: w) auto

lemma byte_split:
  "ucast (ucast w :: u8) OR push_bit 8 (take_bit n (drop_bit 8 w)) = take_bit (8 + n) (w :: 'a::len word)"
  by (rule bit_word_eqI) (auto simp: bit_simps)

lemma le_dec_enc: "le_dec (le_enc n w) = take_bit (8 * n) (w :: 'a::len word)"
proof (induction n arbitrary: w)
  case (Suc n)
  have "le_dec (le_enc (Suc n) w) = ucast (ucast w :: u8) OR push_bit 8 (take_bit (8 * n) (drop_bit 8 w))"
    by (simp add: Suc)
  also have "\<dots> = take_bit (8 * Suc n) w" by (simp add: byte_split)
  finally show ?case .
qed simp

lemma le_dec_enc32 [simp]: "le_dec (le_enc 4 w) = (w :: u32)"
  by (simp only: le_dec_enc) (simp add: take_bit_word_eq_self)

lemma le_dec_enc64 [simp]: "le_dec (le_enc 8 w) = (w :: u64)"
  by (simp only: le_dec_enc) (simp add: take_bit_word_eq_self)

lemma le_head:
  "8 \<le> LENGTH('a) \<Longrightarrow> ucast (ucast b OR push_bit 8 (x :: 'a::len word)) = (b :: u8)"
  by (rule bit_word_eqI) (auto simp: bit_simps)

lemma le_tail:
  "drop_bit 8 (ucast (b :: u8) OR push_bit 8 (x :: 'a::len word)) = take_bit (LENGTH('a) - 8) x"
  by (rule bit_word_eqI) (auto simp: bit_simps dest: bit_imp_le_length)

lemma le_dec_bound: "bit (le_dec bs :: 'a::len word) n \<Longrightarrow> n < 8 * length bs"
proof (induction bs arbitrary: n)
  case (Cons b bs)
  from Cons.prems have "bit b n \<or> 8 \<le> n \<and> bit (le_dec bs :: 'a word) (n - 8)"
    by (auto simp: bit_simps)
  moreover have "bit b n \<Longrightarrow> n < 8" by (drule bit_imp_le_length) simp
  ultimately show ?case using Cons.IH [of "n - 8"] by fastforce
qed simp

lemma le_enc_dec:
  "8 * length bs \<le> LENGTH('a) \<Longrightarrow> le_enc (length bs) (le_dec bs :: 'a::len word) = bs"
proof (induction bs)
  case (Cons b bs)
  have t: "take_bit (LENGTH('a) - 8) (le_dec bs :: 'a word) = le_dec bs"
    by (rule bit_word_eqI) (use Cons.prems le_dec_bound [where 'a = 'a] in \<open>fastforce simp: bit_simps\<close>)
  have d: "drop_bit 8 (le_dec (b # bs) :: 'a word) = le_dec bs"
    unfolding le_dec.simps le_tail t ..
  have h: "ucast (le_dec (b # bs) :: 'a word) = b"
    unfolding le_dec.simps by (rule le_head) (use Cons.prems in simp)
  from Cons show ?case by (simp add: d h del: le_dec.simps)
qed simp

section \<open>Loads and stores\<close>

definition load_u64_le :: "bytes \<Rightarrow> u64" where
  "load_u64_le bs = fold (\<lambda>i value. value OR push_bit (8 * i) (ucast (bs ! i))) [0..<8] 0"

definition load_u64_be :: "bytes \<Rightarrow> u64" where
  "load_u64_be bs = fold (\<lambda>i value. push_bit 8 value OR ucast (bs ! i)) [0..<8] 0"

definition store_u32_be :: "u32 \<Rightarrow> bytes" where
  "store_u32_be value =
     [ucast (drop_bit 24 value), ucast (drop_bit 16 value), ucast (drop_bit 8 value), ucast value]"

definition store_u64_be_bytes :: "u64 \<Rightarrow> bytes" where
  "store_u64_be_bytes value =
     snd (fold (\<lambda>i (value, out). (drop_bit 8 value, out[i := ucast value])) (rev [0..<8])
       (value, replicate 8 0))"

definition load_u64_be_bytes :: "bytes \<Rightarrow> u64" where
  "load_u64_be_bytes bs = fold (\<lambda>i value. push_bit 8 value OR ucast (bs ! i)) [0..<8] 0"

lemma list8E:
  assumes "length xs = 8"
  obtains a b c d e f g h where "xs = [a, b, c, d, e, f, g, h]"
  using assms by (auto simp: length_Suc_conv eval_nat_numeral)

lemma store_u64_be_bytes_eq: "store_u64_be_bytes v = rev (le_enc 8 v)"
  by (simp add: store_u64_be_bytes_def eval_nat_numeral upt_rec)

lemma load_u64_be_bytes_eq: "length bs = 8 \<Longrightarrow> load_u64_be_bytes bs = le_dec (rev bs)"
  by (elim list8E) (simp add: load_u64_be_bytes_def upt_rec or.commute push_bit_or
      ac_simps flip: numeral_eq_Suc)

lemma load_u64_le_eq: "length bs = 8 \<Longrightarrow> load_u64_le bs = le_dec bs"
  by (elim list8E) (simp add: load_u64_le_def upt_rec push_bit_or ac_simps)

lemma load_u64_be_same: "load_u64_be bs = load_u64_be_bytes bs"
  by (simp add: load_u64_be_def load_u64_be_bytes_def)

lemma length_store_u64 [simp]: "length (store_u64_be_bytes v) = 8"
  by (simp add: store_u64_be_bytes_eq)

lemma length_store_u32 [simp]: "length (store_u32_be v) = 4"
  by (simp add: store_u32_be_def)

lemma store_u32_be_eq: "store_u32_be v = rev (le_enc 4 v)"
  by (simp add: store_u32_be_def eval_nat_numeral)

lemma store_u32_be_inj: "store_u32_be v = store_u32_be v' \<longleftrightarrow> v = v'"
  using le_dec_enc32 by (metis store_u32_be_eq rev_rev_ident)

lemma load_store_u64: "load_u64_be_bytes (store_u64_be_bytes v) = v"
  by (simp add: load_u64_be_bytes_eq store_u64_be_bytes_eq)

lemma store_load_u64: "length bs = 8 \<Longrightarrow> store_u64_be_bytes (load_u64_be_bytes bs) = bs"
  using le_enc_dec [of "rev bs", where 'a = 64]
  by (simp add: load_u64_be_bytes_eq store_u64_be_bytes_eq)

lemma store_u64_be_inj: "store_u64_be_bytes v = store_u64_be_bytes v' \<longleftrightarrow> v = v'"
  using load_store_u64 by metis

text \<open>
  The 64-bit big-endian store and load of the nonce and AAD code invert each other on all
  words and on all 8-byte strings, and the little-endian load of the SNP policy field reads the
  same bytes in the opposite order.
\<close>

theorem u64_be_roundtrip:
  "load_u64_be_bytes (store_u64_be_bytes v) = v \<and>
   length (store_u64_be_bytes v) = 8 \<and>
   (length bs = 8 \<longrightarrow> store_u64_be_bytes (load_u64_be_bytes bs) = bs \<and>
                       load_u64_le bs = load_u64_be (rev bs))"
proof (intro conjI impI)
  assume l: "length bs = 8"
  show "store_u64_be_bytes (load_u64_be_bytes bs) = bs" using l by (rule store_load_u64)
  show "load_u64_le bs = load_u64_be (rev bs)"
    using l by (simp add: load_u64_le_eq load_u64_be_same load_u64_be_bytes_eq)
qed (simp_all add: load_store_u64)

theorem u64_be_roundtrip_witness:
  "store_u64_be_bytes 258 = [0, 0, 0, 0, 0, 0, 1, 2] \<and>
   store_u64_be_bytes (load_u64_be_bytes [9, 8, 7, 6, 5, 4, 3, 2]) = [9, 8, 7, 6, 5, 4, 3, 2]"
proof
  show "store_u64_be_bytes 258 = [0, 0, 0, 0, 0, 0, 1, 2]" by code_simp
  show "store_u64_be_bytes (load_u64_be_bytes [9, 8, 7, 6, 5, 4, 3, 2]) = [9, 8, 7, 6, 5, 4, 3, 2]"
    using u64_be_roundtrip [of 258 "[9, 8, 7, 6, 5, 4, 3, 2]"] by simp
qed

section \<open>Hexadecimal text\<close>

definition hex_chars :: string where
  "hex_chars = ''0123456789abcdef''"

definition hex_pair :: "u8 \<Rightarrow> string" where
  "hex_pair b = [hex_chars ! unat (drop_bit 4 b AND 15), hex_chars ! unat (b AND 15)]"

definition bytes_to_hex :: "bytes \<Rightarrow> nat \<Rightarrow> string" where
  \<comment> \<open>the string left in an output buffer of the given size\<close>
  "bytes_to_hex bs out_len =
     (if out_len < 2 * length bs + 1 then []
      else concat (map hex_pair bs))"

definition hex_nibble :: "char \<Rightarrow> int" where
  "hex_nibble c =
     (if 48 \<le> (of_char c :: int) \<and> of_char c \<le> (57 :: int) then of_char c - 48
      else if 97 \<le> (of_char c :: int) \<and> of_char c \<le> (102 :: int) then of_char c - 97 + 10
      else if 65 \<le> (of_char c :: int) \<and> of_char c \<le> (70 :: int) then of_char c - 65 + 10
      else - 1)"

fun parse_hex_pairs :: "string \<Rightarrow> bytes option" where
  "parse_hex_pairs [] = Some []"
| "parse_hex_pairs [c] = None"
| "parse_hex_pairs (h # l # rest) =
     (if hex_nibble h < 0 \<or> hex_nibble l < 0 then None
      else case parse_hex_pairs rest of
             None \<Rightarrow> None
           | Some bs \<Rightarrow> Some ((push_bit 4 (word_of_int (hex_nibble h)) OR word_of_int (hex_nibble l)) # bs))"

definition skip_0x :: "string \<Rightarrow> string" where
  "skip_0x text =
     (case text of
        c0 # c1 # rest \<Rightarrow> if c0 = CHR ''0'' \<and> (c1 = CHR ''x'' \<or> c1 = CHR ''X'') then rest else text
      | _ \<Rightarrow> text)"

definition parse_hex_exact :: "string option \<Rightarrow> nat \<Rightarrow> bytes option" where
  "parse_hex_exact text out_len =
     (case text of
        None \<Rightarrow> None
      | Some t \<Rightarrow>
          if length (skip_0x t) \<noteq> out_len * 2 then None else parse_hex_pairs (skip_0x t))"

lemma hex_nibble_digit:
  assumes "n < 16"
  shows "hex_nibble (hex_chars ! n) = int n \<and> hex_chars ! n \<noteq> CHR ''x'' \<and> hex_chars ! n \<noteq> CHR ''X''"
proof -
  have "n \<in> set [0..<16]" using assms by simp
  then show ?thesis
    by (auto simp: upt_rec hex_nibble_def hex_chars_def simp del: set_upt)
qed

lemma nibble_bound: "unat (x AND 15 :: u8) < 16"
proof -
  have "unat (x AND 15) \<le> unat (15 :: u8)"
    by (rule word_and_le1 [THEN word_le_nat_alt [THEN iffD1]])
  then show ?thesis by simp
qed

lemma nibbles_join: "push_bit 4 (drop_bit 4 b AND 15) OR (b AND 15) = (b :: u8)"
proof -
  have m: "(15 :: u8) = mask 4" by (simp add: mask_eq_exp_minus_1)
  show ?thesis unfolding m by (rule bit_word_eqI) (auto simp: bit_simps)
qed

lemma parse_hex_pairs_hex:
  "parse_hex_pairs (concat (map hex_pair bs)) = Some bs"
proof (induction bs)
  case (Cons b bs)
  then show ?case
    using hex_nibble_digit [OF nibble_bound [of "drop_bit 4 b"]] hex_nibble_digit [OF nibble_bound [of b]]
    using nibbles_join [of b] by (simp add: hex_pair_def)
qed simp

lemma skip_0x_hex:
  "skip_0x (concat (map hex_pair bs)) =
   concat (map hex_pair bs)"
proof (cases bs)
  case (Cons b bs')
  then show ?thesis
    using hex_nibble_digit [OF nibble_bound [of b]] by (auto simp: skip_0x_def hex_pair_def)
qed (simp add: skip_0x_def)

lemma length_hex:
  "length (concat (map hex_pair bs)) = length bs * 2"
  by (induction bs) (auto simp: hex_pair_def)

lemma length_parse_hex_pairs: "parse_hex_pairs t = Some bs \<Longrightarrow> length t = 2 * length bs"
  by (induction t arbitrary: bs rule: parse_hex_pairs.induct) (auto split: if_splits option.splits)

lemma parse_hex_exact_length: "parse_hex_exact t n = Some bs \<Longrightarrow> length bs = n"
  by (auto simp: parse_hex_exact_def dest: length_parse_hex_pairs split: option.splits if_splits)

text \<open>
  Printing bytes in hexadecimal into a large enough buffer and parsing the text with the
  expected length gives the bytes back, with or without the prefix 0x; whatever text is
  accepted fills exactly the requested number of bytes.
\<close>

theorem hex_roundtrip:
  "out_len \<ge> 2 * length bs + 1 \<Longrightarrow>
   parse_hex_exact (Some (bytes_to_hex bs out_len)) (length bs) = Some bs \<and>
   parse_hex_exact (Some (''0x'' @ bytes_to_hex bs out_len)) (length bs) = Some bs \<and>
   (\<forall>t n out. parse_hex_exact t n = Some out \<longrightarrow> length out = n)"
  by (auto simp: parse_hex_exact_def bytes_to_hex_def skip_0x_hex length_hex parse_hex_pairs_hex
      parse_hex_exact_length [unfolded parse_hex_exact_def] skip_0x_def [of "CHR ''0'' # _"])

theorem hex_roundtrip_witness:
  "bytes_to_hex [222, 173, 1] 7 = ''dead01'' \<and>
   parse_hex_exact (Some (bytes_to_hex [222, 173, 1] 7)) 3 = Some [222, 173, 1]"
proof -
  have "bytes_to_hex [222, 173, 1] 7 = ''dead01''" by code_simp
  with hex_roundtrip [of "[222, 173, 1]" 7] show ?thesis by (simp add: numeral_3_eq_3)
qed

end
