(* ===== verification/Secure_Channel.thy ===== *)
theory Secure_Channel
  imports Mpi_Io Byte_Codec
begin

text \<open>
  The authenticated message layer of src/master_npb.c and src/worker_npb.c: nonces from a
  64-bit counter, additional data that binds the channel, the direction, the tag, the length and
  the counter (\<open>make_nonce\<close>, \<open>parse_nonce\<close>, \<open>build_aad\<close>), and the send and
  receive functions for small and bulk messages.

  libsodium is not in the repository: the calls the programs make are the fields of the record
  \<open>crypto\<close>. A multi-part hash is the one-shot hash of the concatenated parts, as libsodium
  documents.
\<close>

record crypto =
  aead_enc :: "bytes \<Rightarrow> bytes \<Rightarrow> bytes \<Rightarrow> bytes \<Rightarrow> bytes option"
    \<comment> \<open>key, nonce, additional data, plaintext\<close>
  aead_dec :: "bytes \<Rightarrow> bytes \<Rightarrow> bytes \<Rightarrow> bytes \<Rightarrow> bytes option"
    \<comment> \<open>key, nonce, additional data, ciphertext\<close>
  generichash :: "nat \<Rightarrow> bytes \<Rightarrow> bytes \<Rightarrow> bytes"
    \<comment> \<open>output length, key (empty for none), input\<close>
  kx_server :: "bytes \<Rightarrow> bytes \<Rightarrow> bytes \<Rightarrow> (bytes \<times> bytes) option"
    \<comment> \<open>own public and secret key, client public key: rx, tx\<close>
  kx_client :: "bytes \<Rightarrow> bytes \<Rightarrow> bytes \<Rightarrow> (bytes \<times> bytes) option"
  sign_detached :: "bytes \<Rightarrow> bytes \<Rightarrow> bytes option"
    \<comment> \<open>message, secret key\<close>
  sign_verify :: "bytes \<Rightarrow> bytes \<Rightarrow> bytes \<Rightarrow> bool"
    \<comment> \<open>signature, message, public key\<close>

section \<open>Nonces and additional data\<close>

definition KEYB :: nat where "KEYB = 32"
definition NPUB :: nat where "NPUB = 12"
definition ABYTES :: nat where "ABYTES = 16"
definition HASH_LEN :: nat where "HASH_LEN = 32"
definition SECURE_MAX_PLAIN :: int where "SECURE_MAX_PLAIN = 256"
definition INT_MAX :: nat where "INT_MAX = 2147483647"
definition SECURE_PROTOCOL_VERSION :: u8 where "SECURE_PROTOCOL_VERSION = 2"
definition DIRECTION_CENTRAL_TO_WORKER :: u8 where "DIRECTION_CENTRAL_TO_WORKER = 1"
definition DIRECTION_WORKER_TO_CENTRAL :: u8 where "DIRECTION_WORKER_TO_CENTRAL = 2"

lemmas channel_consts = KEYB_def NPUB_def ABYTES_def HASH_LEN_def SECURE_MAX_PLAIN_def
  INT_MAX_def SECURE_PROTOCOL_VERSION_def DIRECTION_CENTRAL_TO_WORKER_def
  DIRECTION_WORKER_TO_CENTRAL_def

definition make_nonce :: "u64 \<Rightarrow> bytes" where
  "make_nonce counter = take (NPUB - 8) (replicate NPUB 0) @ store_u64_be_bytes counter"

definition parse_nonce :: "bytes \<Rightarrow> u64 option" where
  "parse_nonce nonce =
     (if \<forall>i\<in>set [0..<NPUB - 8]. nonce ! i = 0
      then Some (load_u64_be_bytes (drop (NPUB - 8) nonce)) else None)"

definition build_aad :: "bytes \<Rightarrow> u8 \<Rightarrow> int \<Rightarrow> u64 \<Rightarrow> u64 \<Rightarrow> bytes" where
  "build_aad channel_binding direction tag plaintext_len counter =
     channel_binding @ [SECURE_PROTOCOL_VERSION, direction] @ store_u32_be (word_of_int tag)
     @ store_u64_be_bytes plaintext_len @ store_u64_be_bytes counter"

lemma make_nonce_eq: "make_nonce c = replicate 4 0 @ store_u64_be_bytes c"
  by (simp add: make_nonce_def channel_consts)

lemma length_make_nonce [simp]: "length (make_nonce c) = NPUB"
  by (simp add: make_nonce_eq channel_consts)

lemma make_nonce_inj: "make_nonce c = make_nonce c' \<longleftrightarrow> c = c'"
  by (simp add: make_nonce_eq store_u64_be_inj)

lemma parse_make_nonce [simp]: "parse_nonce (make_nonce c) = Some c"
proof -
  have "i = 0 \<or> i = 1 \<or> i = 2 \<or> i = 3" if "i < 4" for i :: nat using that by arith
  then have "\<forall>i\<in>set [0..<NPUB - 8]. make_nonce c ! i = 0"
    by (auto simp: make_nonce_eq channel_consts nth_append)
  then show ?thesis
    by (simp add: parse_nonce_def make_nonce_eq channel_consts load_store_u64)
qed

lemma parse_nonce_Some:
  assumes "parse_nonce n = Some c" and "length n = NPUB"
  shows "n = make_nonce c"
proof -
  have z: "\<forall>i<4. n ! i = 0" and c: "c = load_u64_be_bytes (drop 4 n)"
    using assms(1) by (auto simp: parse_nonce_def channel_consts split: if_splits)
  have l: "length n = 12" using assms(2) by (simp add: channel_consts)
  have t: "take 4 n = replicate 4 0"
    by (rule nth_equalityI) (use z l in auto)
  have "store_u64_be_bytes c = drop 4 n"
    unfolding c by (rule store_load_u64) (simp add: l)
  then show ?thesis by (metis t append_take_drop_id make_nonce_eq)
qed

lemma parse_nonce_iff: "length n = NPUB \<Longrightarrow> parse_nonce n = Some c \<longleftrightarrow> n = make_nonce c"
  using parse_nonce_Some by auto

lemma build_aad_eq_iff:
  "length cb = length cb' \<Longrightarrow>
   build_aad cb d t l c = build_aad cb' d' t' l' c' \<longleftrightarrow>
     cb = cb' \<and> d = d' \<and> (word_of_int t :: u32) = word_of_int t' \<and> l = l' \<and> c = c'"
  by (simp add: build_aad_def store_u32_be_inj store_u64_be_inj)

lemma u32_tag_eq:
  "0 \<le> t \<Longrightarrow> t < 2 ^ 31 \<Longrightarrow> 0 \<le> t' \<Longrightarrow> t' < 2 ^ 31 \<Longrightarrow>
   (word_of_int t :: u32) = word_of_int t' \<longleftrightarrow> t = t'"
  by (simp add: word_of_int_eq_iff take_bit_int_eq_self)

text \<open>
  The nonce encodes exactly the counter, and the additional data determines the channel
  binding, the direction, the (non-negative) message tag, the plaintext length and the counter:
  two different contexts never authenticate under the same bytes.
\<close>

theorem nonce_aad_injective:
  "(length n = NPUB \<longrightarrow> (parse_nonce n = Some c \<longleftrightarrow> n = make_nonce c)) \<and>
   (length cb = HASH_LEN \<and> length cb' = HASH_LEN \<and> 0 \<le> t \<and> t < 2 ^ 31 \<and> 0 \<le> t' \<and> t' < 2 ^ 31 \<longrightarrow>
     (build_aad cb d t l c = build_aad cb' d' t' l' c' \<longleftrightarrow>
        cb = cb' \<and> d = d' \<and> t = t' \<and> l = l' \<and> c = c'))"
  using parse_nonce_iff build_aad_eq_iff u32_tag_eq by auto

theorem nonce_aad_injective_witness:
  "parse_nonce (make_nonce 7) = Some 7 \<and>
   build_aad (replicate 32 0) 1 130 104 7 \<noteq> build_aad (replicate 32 0) 2 130 104 7"
  using nonce_aad_injective [of "make_nonce 7" 7 "replicate 32 0" "replicate 32 0" 130 130 1 104 2 104 7]
  by (simp add: channel_consts)

section \<open>Frames\<close>

text \<open>
  What a send function puts on the wire (nonce and ciphertext) and what a receive function does
  with a buffer of the expected size: the sequence check, the decryption under the expected
  additional data, and the length check.
\<close>

definition seal_frame :: "crypto \<Rightarrow> bytes \<Rightarrow> bytes \<Rightarrow> u8 \<Rightarrow> int \<Rightarrow> u64 \<Rightarrow> bytes \<Rightarrow> bytes option" where
  "seal_frame C key channel_binding direction tag counter plaintext =
     (case aead_enc C key (make_nonce counter)
             (build_aad channel_binding direction tag (of_nat (length plaintext)) counter) plaintext of
        None \<Rightarrow> None
      | Some c \<Rightarrow> if length c \<noteq> length plaintext + ABYTES then None else Some (make_nonce counter @ c))"

definition open_frame :: "crypto \<Rightarrow> bytes \<Rightarrow> bytes \<Rightarrow> u8 \<Rightarrow> int \<Rightarrow> u64 \<Rightarrow> nat \<Rightarrow> bytes \<Rightarrow> bytes option" where
  "open_frame C key channel_binding direction tag counter plain_len buf =
     (case parse_nonce (take NPUB buf) of
        None \<Rightarrow> None
      | Some received_ctr \<Rightarrow>
          if received_ctr \<noteq> counter then None
          else case aead_dec C key (take NPUB buf)
                      (build_aad channel_binding direction tag (of_nat plain_len) received_ctr)
                      (drop NPUB buf) of
                 None \<Rightarrow> None
               | Some p \<Rightarrow> if length p \<noteq> plain_len then None else Some p)"

text \<open>
  The documented behaviour of the AEAD: decryption inverts encryption and the ciphertext is
  ABYTES longer than the plaintext; and since the cipher and its tag are deterministic, a
  ciphertext that decrypts is the encryption of the result.
\<close>

definition aead_documented :: "crypto \<Rightarrow> bool" where
  "aead_documented C \<longleftrightarrow>
     (\<forall>k n a p c. aead_enc C k n a p = Some c \<longrightarrow> length c = length p + ABYTES) \<and>
     (\<forall>k n a p c. aead_enc C k n a p = Some c \<longrightarrow> aead_dec C k n a c = Some p) \<and>
     (\<forall>k n a p c. aead_dec C k n a c = Some p \<longrightarrow> aead_enc C k n a p = Some c)"

lemma seal_frame_length:
  "seal_frame C k cb d t c p = Some f \<Longrightarrow> length f = NPUB + length p + ABYTES"
  by (auto simp: seal_frame_def split: option.splits if_splits)

lemma aead_length:
  "aead_documented C \<Longrightarrow> aead_enc C k n a p = Some c \<Longrightarrow> length c = length p + ABYTES"
  unfolding aead_documented_def by blast

lemma aead_dec_enc:
  "aead_documented C \<Longrightarrow> aead_enc C k n a p = Some c \<Longrightarrow> aead_dec C k n a c = Some p"
  unfolding aead_documented_def by blast

lemma aead_enc_dec:
  "aead_documented C \<Longrightarrow> aead_dec C k n a c = Some p \<Longrightarrow> aead_enc C k n a p = Some c"
  unfolding aead_documented_def by blast

lemma open_seal:
  assumes "aead_documented C" and "seal_frame C k cb d t c p = Some f"
  shows "open_frame C k cb d t c (length p) f = Some p"
proof -
  from assms(2) obtain x where
    e: "aead_enc C k (make_nonce c) (build_aad cb d t (of_nat (length p)) c) p = Some x"
    and f: "f = make_nonce c @ x"
    by (auto simp: seal_frame_def split: option.splits if_splits)
  show ?thesis by (simp add: f open_frame_def aead_dec_enc [OF assms(1) e])
qed

lemma seal_open:
  assumes "aead_documented C" and "open_frame C k cb d t c n f = Some p" and "NPUB \<le> length f"
  shows "seal_frame C k cb d t c p = Some f \<and> length p = n"
proof -
  from assms(2) have p: "parse_nonce (take NPUB f) = Some c" and n: "length p = n"
    and d: "aead_dec C k (take NPUB f) (build_aad cb d t (of_nat n) c) (drop NPUB f) = Some p"
    by (auto simp: open_frame_def split: option.splits if_splits)
  have t: "take NPUB f = make_nonce c"
    by (rule parse_nonce_Some [OF p]) (simp add: assms(3))
  have e: "aead_enc C k (make_nonce c) (build_aad cb d t (of_nat n) c) p = Some (drop NPUB f)"
    using aead_enc_dec [OF assms(1) d] by (simp add: t)
  have "make_nonce c @ drop NPUB f = f" using append_take_drop_id [of NPUB f] by (simp only: t)
  with e aead_length [OF assms(1) e] n show ?thesis by (simp add: seal_frame_def)
qed

section \<open>Sessions\<close>

text \<open>
  A sequence of sends from a start counter, and a sequence of receive calls on whatever the
  network delivers. Each receive call expects a tag and a length; a rejected buffer leaves the
  counter as it is.
\<close>

fun send_run :: "(int \<Rightarrow> u64 \<Rightarrow> bytes \<Rightarrow> bytes option) \<Rightarrow> u64 \<Rightarrow> (int \<times> bytes) list
    \<Rightarrow> (bytes list \<times> u64) option" where
  "send_run sl n [] = Some ([], n)"
| "send_run sl n ((t, p) # ms) =
     (if n = - 1 then None
      else case sl t n p of
             None \<Rightarrow> None
           | Some f \<Rightarrow> (case send_run sl (n + 1) ms of
                          None \<Rightarrow> None
                        | Some (fs, n') \<Rightarrow> Some (f # fs, n')))"

fun recv_run :: "(int \<Rightarrow> u64 \<Rightarrow> nat \<Rightarrow> bytes \<Rightarrow> bytes option) \<Rightarrow> u64 \<Rightarrow> (int \<times> nat \<times> bytes) list
    \<Rightarrow> (int \<times> bytes) list \<times> u64" where
  "recv_run un n [] = ([], n)"
| "recv_run un n ((t, l, f) # fs) =
     (case un t n l f of
        None \<Rightarrow> recv_run un n fs
      | Some p \<Rightarrow> (case recv_run un (n + 1) fs of (ms, n') \<Rightarrow> ((t, p) # ms, n')))"

lemma unat_succ: "(n :: u64) \<noteq> - 1 \<Longrightarrow> unat (n + 1) = Suc (unat n)"
  using unatSuc [of n] by (simp add: add.commute add_eq_0_iff)

lemma send_run_counter:
  "send_run sl n ms = Some (fs, n') \<Longrightarrow>
   length fs = length ms \<and> unat n' = unat n + length ms \<and>
   (\<forall>i<length ms. sl (fst (ms ! i)) (n + of_nat i) (snd (ms ! i)) = Some (fs ! i))"
proof (induction sl n ms arbitrary: fs n' rule: send_run.induct)
  case (2 sl n t p ms)
  then obtain f fs' where n: "n \<noteq> - 1" and f: "sl t n p = Some f"
    and r: "send_run sl (n + 1) ms = Some (fs', n')" and fs: "fs = f # fs'"
    by (auto split: if_splits option.splits)
  note IH = "2.IH" [OF n f r]
  show ?case
  proof (intro conjI allI impI)
    fix i assume "i < length ((t, p) # ms)"
    then show "sl (fst (((t, p) # ms) ! i)) (n + of_nat i) (snd (((t, p) # ms) ! i)) = Some (fs ! i)"
      using IH f fs by (cases i) (auto simp: add.assoc)
  qed (use IH n fs unat_succ in auto)
qed auto

text \<open>Every accepted message is the one the sender's log has at the receiver's position.\<close>

lemma recv_run_prefix:
  assumes "\<And>t k l f p. un t k l f = Some p \<Longrightarrow> \<exists>i<length ms. k = n + of_nat i \<and> ms ! i = (t, p)"
    and "unat n + length ms < 2 ^ 64" and "j \<le> length ms"
  shows "recv_run un (n + of_nat j) xs = (acc, n') \<Longrightarrow>
    acc = take (length acc) (drop j ms) \<and> n' = n + of_nat (j + length acc)"
  using assms(3)
proof (induction xs arbitrary: j acc)
  case (Cons x xs)
  obtain t l f where x: "x = (t, l, f)" by (cases x)
  show ?case
  proof (cases "un t (n + of_nat j) l f")
    case None
    with Cons show ?thesis by (simp add: x)
  next
    case (Some p)
    then obtain i where i: "i < length ms" "n + of_nat j = n + of_nat i" and m: "ms ! i = (t, p)"
      using assms(1) by blast
    have "(of_nat j :: u64) = of_nat i" using i(2) by simp
    moreover have "j < 2 ^ 64" "i < 2 ^ 64" using assms(2) i(1) Cons.prems(2) by auto
    ultimately have "i = j" by (metis unat_u64_of_nat)
    with i m have j: "j < length ms" "ms ! j = (t, p)" by auto
    from Cons.prems(1) Some obtain acc' where
      r: "recv_run un (n + of_nat (Suc j)) xs = (acc', n')" and acc: "acc = (t, p) # acc'"
      by (auto simp: x ac_simps split: prod.splits)
    from Cons.IH [OF r] j have "acc' = take (length acc') (drop (Suc j) ms) \<and>
       n' = n + of_nat (Suc j + length acc')" by simp
    with j show ?thesis by (simp add: acc Cons_nth_drop_Suc [symmetric])
  qed
qed simp

locale framed_channel =
  fixes ok :: "'c \<Rightarrow> bool"
    and seal :: "'c \<Rightarrow> int \<Rightarrow> u64 \<Rightarrow> bytes \<Rightarrow> bytes option"
    and unseal :: "'c \<Rightarrow> int \<Rightarrow> u64 \<Rightarrow> nat \<Rightarrow> bytes \<Rightarrow> bytes option"
  assumes unseal_seal: "ok c \<Longrightarrow> seal c t n p = Some f \<Longrightarrow> unseal c t n (length p) f = Some p"
    and seal_counter: "ok c \<Longrightarrow> seal c t n p = Some f \<Longrightarrow> seal c t' n' p' = Some f \<Longrightarrow> n = n'"
begin

lemma delivered:
  "ok c \<Longrightarrow> send_run (seal c) n ms = Some (fs, n') \<Longrightarrow>
   recv_run (unseal c) n (map2 (\<lambda>(t, p) f. (t, length p, f)) ms fs) = (ms, n')"
proof (induction "seal c" n ms arbitrary: fs n' rule: send_run.induct)
  case (2 n t p ms)
  then obtain f fs' where n: "n \<noteq> - 1" and f: "seal c t n p = Some f"
    and r: "send_run (seal c) (n + 1) ms = Some (fs', n')" and fs: "fs = f # fs'"
    by (auto split: if_splits option.splits)
  from "2.hyps" [OF n f "2.prems"(1) r] unseal_seal [OF "2.prems"(1) f] show ?case
    by (simp add: fs)
qed simp

lemma frames_distinct:
  assumes "ok c" and "send_run (seal c) n ms = Some (fs, n')"
  shows "distinct fs"
proof -
  note r = send_run_counter [OF assms(2)]
  have "i = j" if ij: "i < length fs" "j < length fs" "fs ! i = fs ! j" for i j
  proof -
    have "seal c (fst (ms ! i)) (n + of_nat i) (snd (ms ! i)) = Some (fs ! i)"
         "seal c (fst (ms ! j)) (n + of_nat j) (snd (ms ! j)) = Some (fs ! i)"
      using r ij by auto
    then have "n + of_nat i = n + of_nat j" by (rule seal_counter [OF assms(1)])
    then have "(of_nat i :: u64) = of_nat j" by simp
    moreover have "i < 2 ^ 64" "j < 2 ^ 64"
      using r ij unat_word_lt [of n'] by auto
    ultimately show "i = j" by (metis unat_u64_of_nat)
  qed
  then show ?thesis by (auto simp: distinct_conv_nth)
qed

end

text \<open>One direction of one worker's channel.\<close>

record channel =
  ch_crypto :: crypto
  ch_key :: bytes
  ch_binding :: bytes
  ch_dir :: u8

definition channel_ok :: "channel \<Rightarrow> bool" where
  "channel_ok c \<longleftrightarrow> aead_documented (ch_crypto c)"

definition channel_seal :: "channel \<Rightarrow> int \<Rightarrow> u64 \<Rightarrow> bytes \<Rightarrow> bytes option" where
  "channel_seal c t n p = seal_frame (ch_crypto c) (ch_key c) (ch_binding c) (ch_dir c) t n p"

definition channel_open :: "channel \<Rightarrow> int \<Rightarrow> u64 \<Rightarrow> nat \<Rightarrow> bytes \<Rightarrow> bytes option" where
  "channel_open c t n l f = open_frame (ch_crypto c) (ch_key c) (ch_binding c) (ch_dir c) t n l f"

lemma seal_frame_counter:
  assumes "seal_frame C k cb d t n p = Some f" and "seal_frame C k cb d t' n' p' = Some f"
  shows "n = n'"
proof -
  have "take NPUB f = make_nonce n" "take NPUB f = make_nonce n'"
    using assms by (auto simp: seal_frame_def split: option.splits if_splits)
  then show ?thesis by (simp add: make_nonce_inj)
qed

interpretation wire: framed_channel channel_ok channel_seal channel_open
  by unfold_locales
    (auto simp: channel_ok_def channel_seal_def channel_open_def open_seal dest: seal_frame_counter)

text \<open>
  C32: On one direction of a channel no nonce is ever used twice: a session of sends that
  completes has used strictly increasing counters without wrap-around, so its frames are pairwise
  different, and delivering them in order makes the receiver accept exactly the messages sent.
\<close>

theorem session_delivers:
  assumes "channel_ok c" and "send_run (channel_seal c) n ms = Some (fs, n')"
  shows "distinct fs \<and> unat n' = unat n + length ms \<and>
    recv_run (channel_open c) n (map2 (\<lambda>(t, p) f. (t, length p, f)) ms fs) = (ms, n')"
  using wire.frames_distinct [OF assms] wire.delivered [OF assms] send_run_counter [OF assms(2)]
  by simp

text \<open>
  The ideal authenticity of the AEAD for one key (integrity of ciphertexts with their nonce and
  additional data): only what was encrypted under the key decrypts, to what was encrypted.
  \<open>queries\<close> are the encryptions a session of sends performs.
\<close>

definition int_ctxt :: "crypto \<Rightarrow> bytes \<Rightarrow> (bytes \<times> bytes \<times> bytes) set \<Rightarrow> bool" where
  "int_ctxt C key Q \<longleftrightarrow> (\<forall>n a c p. aead_dec C key n a c = Some p \<longrightarrow> (n, a, p) \<in> Q)"

definition queries :: "bytes \<Rightarrow> u8 \<Rightarrow> u64 \<Rightarrow> (int \<times> bytes) list \<Rightarrow> (bytes \<times> bytes \<times> bytes) set" where
  "queries cb d n ms =
     {(make_nonce (n + of_nat i),
       build_aad cb d (fst (ms ! i)) (of_nat (length (snd (ms ! i)))) (n + of_nat i), snd (ms ! i))
      | i. i < length ms}"

lemma open_genuine:
  assumes "int_ctxt C key (queries cb d n ms)"
    and "open_frame C key cb d' t k l f = Some p" and "0 \<le> t" and "t < 2 ^ 31"
    and "\<And>t p. (t, p) \<in> set ms \<Longrightarrow> 0 \<le> t \<and> t < 2 ^ 31"
  shows "d' = d \<and> (\<exists>i<length ms. k = n + of_nat i \<and> ms ! i = (t, p))"
proof -
  from assms(2) have "aead_dec C key (take NPUB f) (build_aad cb d' t (of_nat l) k) (drop NPUB f) = Some p"
    by (auto simp: open_frame_def split: option.splits if_splits)
  with assms(1) have "(take NPUB f, build_aad cb d' t (of_nat l) k, p) \<in> queries cb d n ms"
    unfolding int_ctxt_def by blast
  then obtain i where i: "i < length ms" and p: "p = snd (ms ! i)"
    and a: "build_aad cb d' t (of_nat l) k
              = build_aad cb d (fst (ms ! i)) (of_nat (length (snd (ms ! i)))) (n + of_nat i)"
    unfolding queries_def by blast
  from a have e: "d' = d" "(word_of_int t :: u32) = word_of_int (fst (ms ! i))" "k = n + of_nat i"
    by (simp_all add: build_aad_eq_iff)
  have "(fst (ms ! i), snd (ms ! i)) \<in> set ms" using i by simp
  from assms(5) [OF this] e(2) assms(3,4) have "t = fst (ms ! i)" by (simp add: u32_tag_eq)
  with e i p show ?thesis by auto
qed

text \<open>
  C3: Under the AEAD's integrity, whatever an adversary delivers on a receiving end, in any order,
  with repetitions, deletions, modifications or under other tags, the messages accepted are a
  prefix of the messages the peer sent in this direction, in the order sent, each once and under
  its own tag; buffers sealed for the other direction are never accepted.
\<close>

theorem session_authentic:
  assumes "int_ctxt C key (queries cb d n ms)"
    and "unat n + length ms < 2 ^ 64"
    and "\<forall>(t, p)\<in>set ms. 0 \<le> t \<and> t < 2 ^ 31"
    and "recv_run (\<lambda>t k l f. if 0 \<le> t \<and> t < 2 ^ 31 then open_frame C key cb d' t k l f else None) n xs
         = (acc, n')"
  shows "acc = take (length acc) ms \<and> unat n' = unat n + length acc \<and> (d' \<noteq> d \<longrightarrow> acc = [])"
proof -
  let ?un = "\<lambda>t k l f. if 0 \<le> t \<and> t < 2 ^ 31 then open_frame C key cb d' t k l f else None"
  have g: "d' = d \<and> (\<exists>i<length ms. k = n + of_nat i \<and> ms ! i = (t, p))"
    if "?un t k l f = Some p" for t k l f p
  proof -
    from that have o: "open_frame C key cb d' t k l f = Some p" and t: "0 \<le> t" "t < 2 ^ 31"
      by (simp_all split: if_splits)
    have "\<And>t p. (t, p) \<in> set ms \<Longrightarrow> 0 \<le> t \<and> t < 2 ^ 31" using assms(3) by blast
    then show ?thesis by (rule open_genuine [OF assms(1) o t])
  qed
  have r: "acc = take (length acc) (drop 0 ms) \<and> n' = n + of_nat (0 + length acc)"
  proof (rule recv_run_prefix [OF _ assms(2)])
    show "\<exists>i<length ms. k = n + of_nat i \<and> ms ! i = (t, p)" if "?un t k l f = Some p" for t k l f p
      using g [OF that] by blast
    show "0 \<le> length ms" by simp
    show "recv_run ?un (n + of_nat 0) xs = (acc, n')" using assms(4) by simp
  qed
  then have len: "length acc \<le> length ms" by (metis drop0 length_take min.cobounded1)
  have "unat n' = unat n + length acc"
    using r len assms(2) by (simp add: unat_word_ariths)
  moreover have "acc = []" if "d' \<noteq> d"
  proof -
    have none: "?un t k l f = None" for t k l f
      using g [of t k l f] that by (cases "?un t k l f") auto
    have "recv_run (\<lambda>_ _ _ _. None) n xs = ([], n)" for n and xs :: "(int \<times> nat \<times> bytes) list"
      by (induction "\<lambda>(_::int) (_::u64) (_::nat) (_::bytes). None :: bytes option" n xs
          rule: recv_run.induct) auto
    moreover have "?un = (\<lambda>_ _ _ _. None)" using none by (intro ext) auto
    ultimately show ?thesis using assms(4) by simp
  qed
  ultimately show ?thesis using r by simp
qed

section \<open>A concrete provider for evaluations\<close>

text \<open>
  A transparent stand-in that satisfies the documented laws; it is used in witnesses only.
\<close>

definition demo_tag :: "bytes \<Rightarrow> bytes" where
  "demo_tag k = take 16 (k @ replicate 16 0)"

definition demo_crypto :: crypto where
  "demo_crypto =
     \<lparr>aead_enc = (\<lambda>k n a p. Some (p @ demo_tag k)),
      aead_dec = (\<lambda>k n a c. if 16 \<le> length c \<and> drop (length c - 16) c = demo_tag k
                            then Some (take (length c - 16) c) else None),
      generichash = (\<lambda>l k m. take l (k @ m @ replicate l 0)),
      kx_server = (\<lambda>pk sk cpk. Some (cpk, pk)),
      kx_client = (\<lambda>pk sk spk. Some (spk, pk)),
      sign_detached = (\<lambda>m sk. Some (sk @ m)),
      sign_verify = (\<lambda>sg m pk. sg = pk @ m)\<rparr>"

lemma length_demo_tag [simp]: "length (demo_tag k) = 16"
  by (simp add: demo_tag_def)

lemma demo_crypto_documented: "aead_documented demo_crypto"
proof -
  have "p @ demo_tag k = c" if "16 \<le> length c" "drop (length c - 16) c = demo_tag k"
    "take (length c - 16) c = p" for k c p
    using that append_take_drop_id [of "length c - 16" c] by simp
  then show ?thesis
    by (auto simp: aead_documented_def demo_crypto_def ABYTES_def split: if_splits)
qed

definition demo_table_crypto :: "(bytes \<times> bytes \<times> bytes) list \<Rightarrow> crypto" where
  \<comment> \<open>decrypts only the listed encryptions\<close>
  "demo_table_crypto Q = demo_crypto
     \<lparr>aead_dec := (\<lambda>k n a c. case aead_dec demo_crypto k n a c of
                     None \<Rightarrow> None
                   | Some p \<Rightarrow> if (n, a, p) \<in> set Q then Some p else None)\<rparr>"

theorem session_delivers_witness:
  "\<exists>fs. send_run (channel_seal \<lparr>ch_crypto = demo_crypto, ch_key = [1, 2], ch_binding = replicate 32 5,
           ch_dir = 1\<rparr>) 3 [(130, [1, 2]), (131, [])] = Some (fs, 5) \<and> distinct fs \<and> length fs = 2"
proof -
  let ?c = "\<lparr>ch_crypto = demo_crypto, ch_key = [1, 2], ch_binding = replicate 32 5, ch_dir = 1\<rparr>"
  have "channel_ok ?c" by (simp add: channel_ok_def demo_crypto_documented)
  moreover obtain fs where r: "send_run (channel_seal ?c) 3 [(130, [1, 2]), (131, [])] = Some (fs, 5)"
    and l: "length fs = 2"
    by (simp add: channel_seal_def seal_frame_def demo_crypto_def ABYTES_def)
  ultimately show ?thesis using session_delivers [of ?c 3 _ fs 5] by blast
qed

text \<open>A frame of a session delivered twice: the replay is rejected.\<close>

theorem session_authentic_witness:
  "\<exists>f C. seal_frame C [9] (replicate 32 0) 1 130 0 [1, 2] = Some f \<and>
     recv_run (\<lambda>t k l f. if 0 \<le> t \<and> t < 2 ^ 31 then open_frame C [9] (replicate 32 0) 1 t k l f else None)
       0 [(130, 2, f), (130, 2, f)] = ([(130, [1, 2])], 1) \<and>
     [(130 :: int, [1, 2 :: u8])] = take (length [(130 :: int, [1, 2 :: u8])]) [(130, [1, 2])]"
proof -
  let ?a = "build_aad (replicate 32 0) 1 130 2 0"
  let ?C = "demo_table_crypto [(make_nonce 0, ?a, [1, 2])]"
  let ?f = "make_nonce 0 @ [1, 2] @ demo_tag [9]"
  have s: "seal_frame ?C [9] (replicate 32 0) 1 130 0 [1, 2] = Some ?f"
    by (simp add: seal_frame_def demo_table_crypto_def demo_crypto_def ABYTES_def)
  have r: "recv_run (\<lambda>t k l f. if 0 \<le> t \<and> t < 2 ^ 31 then open_frame ?C [9] (replicate 32 0) 1 t k l f else None)
       0 [(130, 2, ?f), (130, 2, ?f)] = ([(130, [1, 2])], 1)"
    by (simp add: open_frame_def demo_table_crypto_def demo_crypto_def NPUB_def)
  have q: "int_ctxt ?C [9] (queries (replicate 32 0) 1 0 [(130, [1, 2])])"
    by (auto simp: int_ctxt_def queries_def demo_table_crypto_def split: option.splits if_splits)
  from session_authentic [OF q _ _ r] s r show ?thesis by auto
qed

end
