(* ===== verification/Secure_Io.thy ===== *)
theory Secure_Io
  imports Secure_Channel
begin

text \<open>
  The send and receive functions of the central node (src/master_npb.c) and of the worker
  (src/worker_npb.c) as programs over MPI. The central node passes a worker's key, binding and
  counter as arguments and gets the new counter back; the worker keeps them in its static
  variables, the record \<open>worker_chan\<close>. A plaintext argument is its bytes, so its length is
  the C length argument. A receive function that fails returns \<open>None\<close> and leaves the counter
  alone. Ending the process with \<open>MPI_Abort\<close> is \<open>halt 1\<close>.
\<close>

section \<open>Central node\<close>

definition master_secure_send ::
  "crypto \<Rightarrow> 'e mpi \<Rightarrow> comm \<Rightarrow> bytes \<Rightarrow> bytes \<Rightarrow> u64 \<Rightarrow> bytes \<Rightarrow> int \<Rightarrow> ('e world, u64) prog" where
  "master_secure_send C M comm key channel_binding nonce_ctr plaintext tag =
     (if int (length plaintext) > SECURE_MAX_PLAIN then halt 1
      else if nonce_ctr = - 1 then halt 1
      else case seal_frame C key channel_binding DIRECTION_CENTRAL_TO_WORKER tag nonce_ctr plaintext of
             None \<Rightarrow> halt 1
           | Some buf \<Rightarrow> bindP (mpi_send_f M buf tag comm) (\<lambda>_. ret (nonce_ctr + 1)))"

definition master_secure_recv ::
  "crypto \<Rightarrow> 'e mpi \<Rightarrow> comm \<Rightarrow> bytes \<Rightarrow> bytes \<Rightarrow> u64 \<Rightarrow> int \<Rightarrow> int
    \<Rightarrow> ('e world, (bytes \<times> u64) option) prog" where
  "master_secure_recv C M comm key channel_binding nonce_ctr plain_len tag =
     (if plain_len < 0 \<or> plain_len > SECURE_MAX_PLAIN then ret None
      else let total = int NPUB + plain_len + int ABYTES in
        bindP (mpi_recv_f M total tag comm) (\<lambda>buf.
        if int (snd (m_get_count M buf)) \<noteq> total then ret None
        else case open_frame C key channel_binding DIRECTION_WORKER_TO_CENTRAL tag nonce_ctr
                    (nat plain_len) buf of
               None \<Rightarrow> ret None
             | Some plaintext \<Rightarrow> ret (Some (plaintext, nonce_ctr + 1))))"

definition master_workload_send_small ::
  "crypto \<Rightarrow> 'e mpi \<Rightarrow> comm \<Rightarrow> bytes \<Rightarrow> bytes \<Rightarrow> u64 \<Rightarrow> bytes \<Rightarrow> int \<Rightarrow> bool \<Rightarrow> ('e world, u64) prog" where
  "master_workload_send_small C M comm key channel_binding nonce_ctr data tag encrypt =
     (if encrypt then master_secure_send C M comm key channel_binding nonce_ctr data tag
      else if int (length data) > SECURE_MAX_PLAIN then halt 1
      else bindP (mpi_send_f M data tag comm) (\<lambda>_. ret nonce_ctr))"

definition master_workload_recv_small ::
  "crypto \<Rightarrow> 'e mpi \<Rightarrow> comm \<Rightarrow> bytes \<Rightarrow> bytes \<Rightarrow> u64 \<Rightarrow> int \<Rightarrow> int \<Rightarrow> bool
    \<Rightarrow> ('e world, (bytes \<times> u64) option) prog" where
  "master_workload_recv_small C M comm key channel_binding nonce_ctr data_bytes tag encrypt =
     (if encrypt then master_secure_recv C M comm key channel_binding nonce_ctr data_bytes tag
      else if data_bytes < 0 \<or> data_bytes > SECURE_MAX_PLAIN then ret None
      else bindP (mpi_recv_f M data_bytes tag comm) (\<lambda>data.
        if int (snd (m_get_count M data)) \<noteq> data_bytes then ret None
        else ret (Some (data, nonce_ctr))))"

definition master_send_bulk ::
  "crypto \<Rightarrow> 'e mpi \<Rightarrow> comm \<Rightarrow> bytes \<Rightarrow> bytes \<Rightarrow> u64 \<Rightarrow> bytes \<Rightarrow> int \<Rightarrow> bool \<Rightarrow> ('e world, u64) prog" where
  "master_send_bulk C M comm key channel_binding nonce_ctr data tag encrypt =
     (if length data > INT_MAX then halt 1
      else if \<not> encrypt then bindP (mpi_send_f M data tag comm) (\<lambda>_. ret nonce_ctr)
      else if length data > INT_MAX - NPUB - ABYTES then halt 1
      else if nonce_ctr = - 1 then halt 1
      else bindP (on_env (m_malloc M (NPUB + length data + ABYTES))) (\<lambda>ok.
        if \<not> ok then halt 1
        else case seal_frame C key channel_binding DIRECTION_CENTRAL_TO_WORKER tag nonce_ctr data of
               None \<Rightarrow> halt 1
             | Some buf \<Rightarrow> bindP (mpi_send_f M buf tag comm) (\<lambda>_. ret (nonce_ctr + 1))))"

definition master_recv_bulk ::
  "crypto \<Rightarrow> 'e mpi \<Rightarrow> comm \<Rightarrow> bytes \<Rightarrow> bytes \<Rightarrow> u64 \<Rightarrow> nat \<Rightarrow> int \<Rightarrow> bool
    \<Rightarrow> ('e world, (bytes \<times> u64) option) prog" where
  "master_recv_bulk C M comm key channel_binding nonce_ctr data_bytes tag encrypt =
     (if data_bytes > INT_MAX then ret None
      else if \<not> encrypt then
        bindP (mpi_recv_f M (int data_bytes) tag comm) (\<lambda>data.
          if snd (m_get_count M data) = data_bytes then ret (Some (data, nonce_ctr)) else ret None)
      else if data_bytes > INT_MAX - NPUB - ABYTES then ret None
      else let total = NPUB + data_bytes + ABYTES in
        bindP (on_env (m_malloc M total)) (\<lambda>ok.
        if \<not> ok then ret None
        else bindP (mpi_recv_f M (int total) tag comm) (\<lambda>buf.
          if snd (m_get_count M buf) \<noteq> total then ret None
          else case open_frame C key channel_binding DIRECTION_WORKER_TO_CENTRAL tag nonce_ctr
                      data_bytes buf of
                 None \<Rightarrow> ret None
               | Some data \<Rightarrow> ret (Some (data, nonce_ctr + 1)))))"

section \<open>Worker\<close>

record worker_chan =
  g_session_key :: bytes
  g_recv_key :: bytes
  g_channel_binding :: bytes
  send_nonce_ctr :: u64
  recv_nonce_ctr :: u64

definition worker_secure_send ::
  "crypto \<Rightarrow> 'e mpi \<Rightarrow> comm \<Rightarrow> worker_chan \<Rightarrow> bytes \<Rightarrow> int \<Rightarrow> ('e world, worker_chan) prog" where
  "worker_secure_send C M comm g plaintext tag =
     (if int (length plaintext) > SECURE_MAX_PLAIN then halt 1
      else if send_nonce_ctr g = - 1 then halt 1
      else case seal_frame C (g_session_key g) (g_channel_binding g) DIRECTION_WORKER_TO_CENTRAL tag
                  (send_nonce_ctr g) plaintext of
             None \<Rightarrow> halt 1
           | Some buf \<Rightarrow> bindP (mpi_send_f M buf tag comm)
                           (\<lambda>_. ret (g\<lparr>send_nonce_ctr := send_nonce_ctr g + 1\<rparr>)))"

definition worker_secure_recv ::
  "crypto \<Rightarrow> 'e mpi \<Rightarrow> comm \<Rightarrow> worker_chan \<Rightarrow> int \<Rightarrow> int
    \<Rightarrow> ('e world, (bytes \<times> worker_chan) option) prog" where
  "worker_secure_recv C M comm g plain_len tag =
     (if plain_len < 0 \<or> plain_len > SECURE_MAX_PLAIN then ret None
      else let total = int NPUB + plain_len + int ABYTES in
        bindP (mpi_recv_f M total tag comm) (\<lambda>buf.
        if int (snd (m_get_count M buf)) \<noteq> total then ret None
        else case open_frame C (g_recv_key g) (g_channel_binding g) DIRECTION_CENTRAL_TO_WORKER tag
                    (recv_nonce_ctr g) (nat plain_len) buf of
               None \<Rightarrow> ret None
             | Some plaintext \<Rightarrow>
                 ret (Some (plaintext, g\<lparr>recv_nonce_ctr := recv_nonce_ctr g + 1\<rparr>))))"

definition worker_workload_send_small ::
  "crypto \<Rightarrow> 'e mpi \<Rightarrow> comm \<Rightarrow> worker_chan \<Rightarrow> bytes \<Rightarrow> int \<Rightarrow> bool \<Rightarrow> ('e world, worker_chan) prog" where
  "worker_workload_send_small C M comm g data tag encrypt =
     (if encrypt then worker_secure_send C M comm g data tag
      else if int (length data) > SECURE_MAX_PLAIN then halt 1
      else bindP (mpi_send_f M data tag comm) (\<lambda>_. ret g))"

definition worker_workload_recv_small ::
  "crypto \<Rightarrow> 'e mpi \<Rightarrow> comm \<Rightarrow> worker_chan \<Rightarrow> int \<Rightarrow> int \<Rightarrow> bool
    \<Rightarrow> ('e world, (bytes \<times> worker_chan) option) prog" where
  "worker_workload_recv_small C M comm g data_bytes tag encrypt =
     (if encrypt then worker_secure_recv C M comm g data_bytes tag
      else if data_bytes < 0 \<or> data_bytes > SECURE_MAX_PLAIN then ret None
      else bindP (mpi_recv_f M data_bytes tag comm) (\<lambda>data.
        if int (snd (m_get_count M data)) \<noteq> data_bytes then ret None
        else ret (Some (data, g))))"

definition worker_send_bulk ::
  "crypto \<Rightarrow> 'e mpi \<Rightarrow> comm \<Rightarrow> worker_chan \<Rightarrow> bytes \<Rightarrow> int \<Rightarrow> bool \<Rightarrow> ('e world, worker_chan) prog" where
  "worker_send_bulk C M comm g data tag encrypt =
     (if length data > INT_MAX then halt 1
      else if \<not> encrypt then bindP (mpi_send_f M data tag comm) (\<lambda>_. ret g)
      else if length data > INT_MAX - NPUB - ABYTES then halt 1
      else if send_nonce_ctr g = - 1 then halt 1
      else bindP (on_env (m_malloc M (NPUB + length data + ABYTES))) (\<lambda>ok.
        if \<not> ok then halt 1
        else case seal_frame C (g_session_key g) (g_channel_binding g) DIRECTION_WORKER_TO_CENTRAL tag
                    (send_nonce_ctr g) data of
               None \<Rightarrow> halt 1
             | Some buf \<Rightarrow> bindP (mpi_send_f M buf tag comm)
                             (\<lambda>_. ret (g\<lparr>send_nonce_ctr := send_nonce_ctr g + 1\<rparr>))))"

definition worker_recv_bulk ::
  "crypto \<Rightarrow> 'e mpi \<Rightarrow> comm \<Rightarrow> worker_chan \<Rightarrow> nat \<Rightarrow> int \<Rightarrow> bool
    \<Rightarrow> ('e world, (bytes \<times> worker_chan) option) prog" where
  "worker_recv_bulk C M comm g data_bytes tag encrypt =
     (if data_bytes > INT_MAX then ret None
      else if \<not> encrypt then
        bindP (mpi_recv_f M (int data_bytes) tag comm) (\<lambda>data.
          if snd (m_get_count M data) = data_bytes then ret (Some (data, g)) else ret None)
      else if data_bytes > INT_MAX - NPUB - ABYTES then ret None
      else let total = NPUB + data_bytes + ABYTES in
        bindP (on_env (m_malloc M total)) (\<lambda>ok.
        if \<not> ok then ret None
        else bindP (mpi_recv_f M (int total) tag comm) (\<lambda>buf.
          if snd (m_get_count M buf) \<noteq> total then ret None
          else case open_frame C (g_recv_key g) (g_channel_binding g) DIRECTION_CENTRAL_TO_WORKER tag
                      (recv_nonce_ctr g) data_bytes buf of
                 None \<Rightarrow> ret None
               | Some data \<Rightarrow> ret (Some (data, g\<lparr>recv_nonce_ctr := recv_nonce_ctr g + 1\<rparr>)))))"

text \<open>A channel after so many messages out and in; only encrypted messages are counted.\<close>

definition advanced :: "bool \<Rightarrow> nat \<Rightarrow> nat \<Rightarrow> worker_chan \<Rightarrow> worker_chan" where
  "advanced enc outgoing incoming g =
     (if enc then g\<lparr>send_nonce_ctr := send_nonce_ctr g + of_nat outgoing, recv_nonce_ctr := recv_nonce_ctr g + of_nat incoming\<rparr>
      else g)"

lemma advanced_0 [simp]: "advanced enc 0 0 g = g"
  by (simp add: advanced_def)

lemma advanced_advanced [simp]: "advanced enc a b (advanced enc c d g) = advanced enc (a + c) (b + d) g"
  by (simp add: advanced_def add_ac)

section \<open>Sends\<close>

lemma master_secure_send_Done:
  assumes "master_secure_send C M comm key cb n p tag w = Done n' w'"
  shows "\<exists>f. seal_frame C key cb DIRECTION_CENTRAL_TO_WORKER tag n p = Some f \<and>
    m_send M comm tag f (snd w) = (MPI_SUCCESS, snd w') \<and> n \<noteq> - 1 \<and> n' = n + 1 \<and>
    int (length p) \<le> SECURE_MAX_PLAIN"
  using assms
  by (auto simp: master_secure_send_def split: if_splits option.splits dest: mpi_send_f_DoneD)

lemma worker_secure_send_Done:
  assumes "worker_secure_send C M comm g p tag w = Done g' w'"
  shows "\<exists>f. seal_frame C (g_session_key g) (g_channel_binding g) DIRECTION_WORKER_TO_CENTRAL tag
      (send_nonce_ctr g) p = Some f \<and> m_send M comm tag f (snd w) = (MPI_SUCCESS, snd w') \<and>
    send_nonce_ctr g \<noteq> - 1 \<and> g' = g\<lparr>send_nonce_ctr := send_nonce_ctr g + 1\<rparr> \<and>
    int (length p) \<le> SECURE_MAX_PLAIN"
  using assms
  by (auto simp: worker_secure_send_def split: if_splits option.splits dest: mpi_send_f_DoneD)

lemma master_send_bulk_Done:
  assumes "master_send_bulk C M comm key cb n p tag True w = Done n' w'"
  shows "\<exists>f e. seal_frame C key cb DIRECTION_CENTRAL_TO_WORKER tag n p = Some f \<and>
    m_send M comm tag f e = (MPI_SUCCESS, snd w') \<and> n \<noteq> - 1 \<and> n' = n + 1 \<and>
    NPUB + length p + ABYTES \<le> INT_MAX"
  using assms
  by (cases w)
    (fastforce simp: master_send_bulk_def channel_consts split: if_splits option.splits
      dest!: mpi_send_f_DoneD)

lemma worker_send_bulk_Done:
  assumes "worker_send_bulk C M comm g p tag True w = Done g' w'"
  shows "\<exists>f e. seal_frame C (g_session_key g) (g_channel_binding g) DIRECTION_WORKER_TO_CENTRAL tag
      (send_nonce_ctr g) p = Some f \<and> m_send M comm tag f e = (MPI_SUCCESS, snd w') \<and>
    send_nonce_ctr g \<noteq> - 1 \<and> g' = g\<lparr>send_nonce_ctr := send_nonce_ctr g + 1\<rparr> \<and>
    NPUB + length p + ABYTES \<le> INT_MAX"
  using assms
  by (cases w)
    (fastforce simp: worker_send_bulk_def channel_consts split: if_splits option.splits
      dest!: mpi_send_f_DoneD)

lemma master_secure_send_run:
  assumes "wait_ready (m_wait M) s"
    and "seal_frame C key cb DIRECTION_CENTRAL_TO_WORKER tag n p = Some f"
    and "m_send M comm tag f e = (MPI_SUCCESS, e')" and "n \<noteq> - 1"
    and "int (length p) \<le> SECURE_MAX_PLAIN"
  shows "\<exists>s'. wait_ready (m_wait M) s' \<and>
    master_secure_send C M comm key cb n p tag (s, e) = Done (n + 1) (s', e')"
  using mpi_send_f_run [OF assms(1,3)] assms(2,4,5)
  by (auto simp: master_secure_send_def bindP_def)

lemma worker_send_bulk_run:
  assumes "wait_ready (m_wait M) s"
    and "seal_frame C (g_session_key g) (g_channel_binding g) DIRECTION_WORKER_TO_CENTRAL tag
           (send_nonce_ctr g) p = Some f"
    and "m_malloc M (NPUB + length p + ABYTES) e = (True, e1)"
    and "m_send M comm tag f e1 = (MPI_SUCCESS, e')" and "send_nonce_ctr g \<noteq> - 1"
    and "NPUB + length p + ABYTES \<le> INT_MAX"
  shows "\<exists>s'. wait_ready (m_wait M) s' \<and> worker_send_bulk C M comm g p tag True (s, e) =
    Done (g\<lparr>send_nonce_ctr := send_nonce_ctr g + 1\<rparr>) (s', e')"
proof -
  have "\<not> length p > INT_MAX" "\<not> length p > INT_MAX - NPUB - ABYTES" using assms(6) by auto
  then show ?thesis
    using mpi_send_f_run [OF assms(1,4)] assms(2,3,5)
    by (auto simp: worker_send_bulk_def bindP_def on_env_def)
qed

section \<open>Receives\<close>

lemma count_documented_snd: "count_documented M \<Longrightarrow> snd (m_get_count M d) = length d"
  by (simp add: count_documented_def)

lemma worker_secure_recv_run:
  assumes "wait_ready (m_wait M) s" and "count_documented M"
    and "m_recv M comm tag (length f) e = ((MPI_SUCCESS, f), e')"
    and "open_frame C (g_recv_key g) (g_channel_binding g) DIRECTION_CENTRAL_TO_WORKER tag
           (recv_nonce_ctr g) l f = Some p"
    and "length f = NPUB + l + ABYTES" and "int l \<le> SECURE_MAX_PLAIN"
  shows "\<exists>s'. wait_ready (m_wait M) s' \<and> worker_secure_recv C M comm g (int l) tag (s, e) =
    Done (Some (p, g\<lparr>recv_nonce_ctr := recv_nonce_ctr g + 1\<rparr>)) (s', e')"
proof -
  have "nat (int NPUB + int l + int ABYTES) = length f" using assms(5) by simp
  with mpi_recv_f_run [OF assms(1,2), of comm tag "int NPUB + int l + int ABYTES" e f e'] assms
  obtain s' where "wait_ready (m_wait M) s'"
    and "mpi_recv_f M (int NPUB + int l + int ABYTES) tag comm (s, e) = Done f (s', e')" by auto
  then show ?thesis using assms
    by (auto simp: worker_secure_recv_def Let_def bindP_def count_documented_snd)
qed

lemma master_recv_bulk_run:
  assumes "wait_ready (m_wait M) s" and "count_documented M"
    and "m_malloc M (length f) e = (True, e1)"
    and "m_recv M comm tag (length f) e1 = ((MPI_SUCCESS, f), e')"
    and "open_frame C key cb DIRECTION_WORKER_TO_CENTRAL tag n l f = Some p"
    and "length f = NPUB + l + ABYTES" and "NPUB + l + ABYTES \<le> INT_MAX"
  shows "\<exists>s'. wait_ready (m_wait M) s' \<and> master_recv_bulk C M comm key cb n l tag True (s, e) =
    Done (Some (p, n + 1)) (s', e')"
proof -
  have "nat (int (NPUB + l + ABYTES)) = length f" using assms(6) by simp
  with mpi_recv_f_run [OF assms(1,2), of comm tag "int (NPUB + l + ABYTES)" e1 f e'] assms
  obtain s' where s': "wait_ready (m_wait M) s'"
    and r: "mpi_recv_f M (int (NPUB + l + ABYTES)) tag comm (s, e1) = Done f (s', e')" by auto
  have "\<not> l > INT_MAX" "\<not> l > INT_MAX - NPUB - ABYTES" using assms(7) by auto
  moreover have "m_malloc M (NPUB + l + ABYTES) e = (True, e1)"
    using assms(3) by (simp only: assms(6))
  ultimately have "master_recv_bulk C M comm key cb n l tag True (s, e) = Done (Some (p, n + 1)) (s', e')"
    using r by (simp add: master_recv_bulk_def Let_def bindP_def on_env_def
        count_documented_snd [OF assms(2)] assms(5,6) del: of_nat_add)
  with s' show ?thesis by blast
qed

lemma master_recv_bulk_Some:
  assumes "master_recv_bulk C M comm key cb n l tag True w = Done (Some (p, n')) w'"
    and "count_documented M" and "aead_documented C"
  shows "\<exists>f e. m_recv M comm tag (NPUB + l + ABYTES) e = ((MPI_SUCCESS, f), snd w') \<and>
    seal_frame C key cb DIRECTION_WORKER_TO_CENTRAL tag n p = Some f \<and> length p = l \<and> n' = n + 1"
proof -
  from assms(1) obtain f s1 e1 where
    r: "mpi_recv_f M (int (NPUB + l + ABYTES)) tag comm (s1, e1) = Done f w'"
    and o: "open_frame C key cb DIRECTION_WORKER_TO_CENTRAL tag n l f = Some p" and n: "n' = n + 1"
    by (cases w) (auto simp: master_recv_bulk_def Let_def split: if_splits option.splits)
  note x = mpi_recv_f_exact [OF assms(2) r]
  from x have l: "NPUB \<le> length f"
    and m: "m_recv M comm tag (NPUB + l + ABYTES) e1 = ((MPI_SUCCESS, f), snd w')"
    by (simp_all del: of_nat_add)
  from seal_open [OF assms(3) o l] m n show ?thesis by blast
qed

lemma worker_secure_recv_Some:
  assumes "worker_secure_recv C M comm g l tag w = Done (Some (p, g')) w'"
    and "count_documented M" and "aead_documented C"
  shows "\<exists>f. m_recv M comm tag (nat (int NPUB + l + int ABYTES)) (snd w) = ((MPI_SUCCESS, f), snd w') \<and>
    seal_frame C (g_recv_key g) (g_channel_binding g) DIRECTION_CENTRAL_TO_WORKER tag
      (recv_nonce_ctr g) p = Some f \<and> int (length p) = l \<and>
    g' = g\<lparr>recv_nonce_ctr := recv_nonce_ctr g + 1\<rparr>"
proof -
  from assms(1) obtain f where
    r: "mpi_recv_f M (int NPUB + l + int ABYTES) tag comm w = Done f w'" and l: "0 \<le> l"
    and o: "open_frame C (g_recv_key g) (g_channel_binding g) DIRECTION_CENTRAL_TO_WORKER tag
      (recv_nonce_ctr g) (nat l) f = Some p"
    and g': "g' = g\<lparr>recv_nonce_ctr := recv_nonce_ctr g + 1\<rparr>"
    by (cases w) (auto simp: worker_secure_recv_def Let_def split: if_splits option.splits)
  note x = mpi_recv_f_exact [OF assms(2) r]
  from x l have "NPUB \<le> length f" by simp
  from seal_open [OF assms(3) o this] x l g' show ?thesis by auto
qed

text \<open>
  A small message the central node has sent is a sealed frame, and the worker that holds the
  same key, binding and counter, when MPI delivers that frame, accepts it: it gets exactly the
  plaintext, and both counters advance to the same value.
\<close>

theorem central_to_worker:
  assumes "aead_documented C" and "master_secure_send C M comm key cb n p tag w = Done n' w'"
  shows "\<exists>f. m_send M comm tag f (snd w) = (MPI_SUCCESS, snd w') \<and> length f = NPUB + length p + ABYTES \<and>
    (\<forall>M' comm' (g :: worker_chan) s e e'. count_documented M' \<and> wait_ready (m_wait M') s \<and>
       g_recv_key g = key \<and> g_channel_binding g = cb \<and> recv_nonce_ctr g = n \<and>
       m_recv M' comm' tag (length f) e = ((MPI_SUCCESS, f), e') \<longrightarrow>
       (\<exists>s'. worker_secure_recv C M' comm' g (int (length p)) tag (s, e) =
               Done (Some (p, g\<lparr>recv_nonce_ctr := n'\<rparr>)) (s', e')))"
proof -
  from master_secure_send_Done [OF assms(2)] obtain f where
    f: "seal_frame C key cb DIRECTION_CENTRAL_TO_WORKER tag n p = Some f"
    and m: "m_send M comm tag f (snd w) = (MPI_SUCCESS, snd w')" and n': "n' = n + 1"
    and l: "int (length p) \<le> SECURE_MAX_PLAIN" by blast
  note o = open_seal [OF assms(1) f] and len = seal_frame_length [OF f]
  show ?thesis
  proof (intro exI [of _ f] conjI allI impI, rule m, rule len, elim conjE)
    fix M' :: "'d mpi" and comm' and g :: worker_chan and s e e'
    assume "count_documented M'" "wait_ready (m_wait M') s" "g_recv_key g = key"
      "g_channel_binding g = cb" "recv_nonce_ctr g = n"
      "m_recv M' comm' tag (length f) e = ((MPI_SUCCESS, f), e')"
    with worker_secure_recv_run [of M' s comm' tag f e e' C g "length p" p] o len l n'
    show "\<exists>s'. worker_secure_recv C M' comm' g (int (length p)) tag (s, e) =
               Done (Some (p, g\<lparr>recv_nonce_ctr := n'\<rparr>)) (s', e')" by auto
  qed
qed

text \<open>
  The same for bulk data in the other direction: what the worker has sent encrypted, the
  central node accepts and decrypts to the same bytes when MPI delivers it.
\<close>

theorem worker_to_central_bulk:
  assumes "aead_documented C" and "worker_send_bulk C M comm g p tag True w = Done g' w'"
  shows "\<exists>f e0. m_send M comm tag f e0 = (MPI_SUCCESS, snd w') \<and> length f = NPUB + length p + ABYTES \<and>
    (\<forall>M' comm' s e e1 e'. count_documented M' \<and> wait_ready (m_wait M') s \<and>
       m_malloc M' (length f) e = (True, e1) \<and>
       m_recv M' comm' tag (length f) e1 = ((MPI_SUCCESS, f), e') \<longrightarrow>
       (\<exists>s'. master_recv_bulk C M' comm' (g_session_key g) (g_channel_binding g) (send_nonce_ctr g)
               (length p) tag True (s, e) = Done (Some (p, send_nonce_ctr g')) (s', e')))"
proof -
  from worker_send_bulk_Done [OF assms(2)] obtain f e0 where
    f: "seal_frame C (g_session_key g) (g_channel_binding g) DIRECTION_WORKER_TO_CENTRAL tag
      (send_nonce_ctr g) p = Some f"
    and m: "m_send M comm tag f e0 = (MPI_SUCCESS, snd w')"
    and g': "send_nonce_ctr g' = send_nonce_ctr g + 1"
    and l: "NPUB + length p + ABYTES \<le> INT_MAX" by auto
  note o = open_seal [OF assms(1) f] and len = seal_frame_length [OF f]
  show ?thesis
  proof (intro exI [of _ f] exI [of _ e0] conjI allI impI, rule m, rule len, elim conjE)
    fix M' :: "'d mpi" and comm' s e e1 e'
    assume "count_documented M'" "wait_ready (m_wait M') s" "m_malloc M' (length f) e = (True, e1)"
      "m_recv M' comm' tag (length f) e1 = ((MPI_SUCCESS, f), e')"
    with master_recv_bulk_run [of M' s f e e1 comm' tag e' C _ _ "send_nonce_ctr g" "length p" p] o len l g'
    show "\<exists>s'. master_recv_bulk C M' comm' (g_session_key g) (g_channel_binding g) (send_nonce_ctr g)
               (length p) tag True (s, e) = Done (Some (p, send_nonce_ctr g')) (s', e')" by auto
  qed
qed


section \<open>Evaluations\<close>

abbreviation demo_world :: "(int \<times> bytes) list \<Rightarrow> fifo_net world" where
  "demo_world inbox \<equiv> (wait_init, (inbox, []))"

definition demo_chan :: worker_chan where
  "demo_chan = \<lparr>g_session_key = replicate 32 1, g_recv_key = replicate 32 3,
     g_channel_binding = replicate 32 2, send_nonce_ctr = 4, recv_nonce_ctr = 0\<rparr>"

lemma demo_seal:
  "seal_frame demo_crypto k cb d t n p = Some (make_nonce n @ p @ demo_tag k)"
  by (simp add: seal_frame_def demo_crypto_def ABYTES_def)

lemma fifo_send_run: "m_send fifo_mpi comm tag f e = (MPI_SUCCESS, (fst e, snd e @ [(tag, f)]))"
  by (simp add: fifo_mpi_def fifo_send_def)

theorem central_to_worker_witness:
  "\<exists>f s'. length f = 30 \<and>
     worker_secure_recv demo_crypto fifo_mpi 0 demo_chan 2 130 (demo_world [(130, f)]) =
       Done (Some ([5, 6], demo_chan\<lparr>recv_nonce_ctr := 1\<rparr>)) (s', ([], []))"
proof -
  obtain s1 where "master_secure_send demo_crypto fifo_mpi 0 (replicate 32 3) (replicate 32 2) 0
      [5, 6] 130 (demo_world []) = Done (0 + 1)
        (s1, ([], [(130, make_nonce 0 @ [5, 6] @ demo_tag (replicate 32 3))]))"
    using master_secure_send_run [where n = 0 and p = "[5, 6]" and e = "([], [])" and comm = 0
        and tag = 130 and key = "replicate 32 3" and cb = "replicate 32 2",
        OF fifo_ready demo_seal fifo_send_run]
    by (auto simp: SECURE_MAX_PLAIN_def)
  from central_to_worker [OF demo_crypto_documented this] obtain f where
    l: "length f = NPUB + length [5 :: u8, 6] + ABYTES"
    and g: "\<forall>M' comm' (g :: worker_chan) s e e'. count_documented (M' :: fifo_net mpi) \<and>
       wait_ready (m_wait M') s \<and> g_recv_key g = replicate 32 3 \<and>
       g_channel_binding g = replicate 32 2 \<and> recv_nonce_ctr g = 0 \<and>
       m_recv M' comm' 130 (length f) e = ((MPI_SUCCESS, f), e') \<longrightarrow>
       (\<exists>s'. worker_secure_recv demo_crypto M' comm' g (int (length [5 :: u8, 6])) 130 (s, e) =
               Done (Some ([5, 6], g\<lparr>recv_nonce_ctr := 0 + 1\<rparr>)) (s', e'))"
    by (elim exE conjE) (rule that)
  have "m_recv fifo_mpi 0 130 (length f) ([(130, f)], []) = ((MPI_SUCCESS, f), ([], []))"
    by (simp add: fifo_mpi_def fifo_recv_def)
  with g [rule_format, of fifo_mpi wait_init demo_chan 0 "([(130, f)], [])" "([], [])"]
  obtain s' where "worker_secure_recv demo_crypto fifo_mpi 0 demo_chan 2 130 (demo_world [(130, f)]) =
       Done (Some ([5, 6], demo_chan\<lparr>recv_nonce_ctr := 1\<rparr>)) (s', ([], []))"
    using fifo_documented fifo_ready by (auto simp: demo_chan_def)
  with l show ?thesis by (auto simp: channel_consts)
qed

lemma demo_bulk_send:
  "\<exists>s1. worker_send_bulk demo_crypto fifo_mpi 0 demo_chan [5, 6] 144 True (demo_world []) =
     Done (demo_chan\<lparr>send_nonce_ctr := send_nonce_ctr demo_chan + 1\<rparr>)
       (s1, ([], [(144, make_nonce (send_nonce_ctr demo_chan) @ [5, 6] @ demo_tag (g_session_key demo_chan))]))"
  using worker_send_bulk_run [OF fifo_ready demo_seal _ fifo_send_run, of "[5, 6]" "([], [])" "([], [])" demo_chan]
  by (auto simp: fifo_mpi_def demo_chan_def channel_consts)

theorem worker_to_central_bulk_witness:
  "\<exists>f s'. length f = 30 \<and>
     master_recv_bulk demo_crypto fifo_mpi 0 (replicate 32 1) (replicate 32 2) 4 2 144 True
       (demo_world [(144, f)]) = Done (Some ([5, 6], 5)) (s', ([], []))"
proof -
  obtain s1 where "worker_send_bulk demo_crypto fifo_mpi 0 demo_chan [5, 6] 144 True (demo_world []) =
     Done (demo_chan\<lparr>send_nonce_ctr := send_nonce_ctr demo_chan + 1\<rparr>)
       (s1, ([], [(144, make_nonce (send_nonce_ctr demo_chan) @ [5, 6] @ demo_tag (g_session_key demo_chan))]))"
    using demo_bulk_send by blast
  from worker_to_central_bulk [OF demo_crypto_documented this] obtain f where
    l: "length f = NPUB + length [5 :: u8, 6] + ABYTES"
    and g: "\<forall>M' comm' s e e1 e'. count_documented (M' :: fifo_net mpi) \<and> wait_ready (m_wait M') s \<and>
       m_malloc M' (length f) e = (True, e1) \<and>
       m_recv M' comm' 144 (length f) e1 = ((MPI_SUCCESS, f), e') \<longrightarrow>
       (\<exists>s'. master_recv_bulk demo_crypto M' comm' (g_session_key demo_chan)
               (g_channel_binding demo_chan) (send_nonce_ctr demo_chan)
               (length [5 :: u8, 6]) 144 True (s, e) =
             Done (Some ([5, 6], send_nonce_ctr (demo_chan\<lparr>send_nonce_ctr := send_nonce_ctr demo_chan + 1\<rparr>))) (s', e'))"
    by (elim exE conjE) (rule that)
  have "m_recv fifo_mpi 0 144 (length f) ([(144, f)], []) = ((MPI_SUCCESS, f), ([], []))"
    and "m_malloc fifo_mpi (length f) ([(144, f)], []) = (True, ([(144, f)], []))"
    by (simp_all add: fifo_mpi_def fifo_recv_def)
  with g [rule_format, of fifo_mpi wait_init "([(144, f)], [])" "([(144, f)], [])" 0 "([], [])"]
  obtain s' where "master_recv_bulk demo_crypto fifo_mpi 0 (replicate 32 1) (replicate 32 2) 4 2 144 True
       (demo_world [(144, f)]) = Done (Some ([5, 6], 5)) (s', ([], []))"
    using fifo_documented fifo_ready by (auto simp: demo_chan_def numeral_2_eq_2)
  with l show ?thesis by (auto simp: channel_consts)
qed


section \<open>No call spins\<close>

lemma spinless_master_io [spinless_intros]:
  "spinless (master_secure_send C M comm key cb n p tag)"
  "spinless (master_secure_recv C M comm key cb n l tag)"
  "spinless (master_workload_send_small C M comm key cb n p tag enc)"
  "spinless (master_workload_recv_small C M comm key cb n l tag enc)"
  "spinless (master_send_bulk C M comm key cb n p tag enc)"
  "spinless (master_recv_bulk C M comm key cb n k tag enc)"
  unfolding master_workload_send_small_def master_workload_recv_small_def master_secure_send_def
    master_secure_recv_def master_send_bulk_def master_recv_bulk_def Let_def
  by (intro spinless_intros)+


end
