(* ===== verification/Wire_Structs.thy ===== *)
theory Wire_Structs
  imports Byte_Codec Binary64
begin

text \<open>
  The structs that the NPB programs exchange as raw memory (declared alike in
  src/master_npb.c and src/worker_npb.c). Every struct has naturally aligned fields and no
  padding, so its bytes are its fields in order, each little-endian. A field of a C double
  keeps its bit pattern. \<open>encode_*\<close> is the object representation, \<open>decode_*\<close> reads the
  fields at their offsets.
\<close>

definition field32 :: "nat \<Rightarrow> bytes \<Rightarrow> u32" where
  "field32 off bs = le_dec (take 4 (drop off bs))"

definition field64 :: "nat \<Rightarrow> bytes \<Rightarrow> u64" where
  "field64 off bs = le_dec (take 8 (drop off bs))"

record npb_cmd =
  c_cmd :: u32
  c_workload :: u32
  c_encrypt_data :: u32
  c_num_runs :: u32
  c_ep_pairs :: u64
  c_cg_rows :: u32
  c_cg_row_start :: u32
  c_cg_row_count :: u32
  c_cg_n :: u32
  c_cg_nzpc :: u32
  c_cg_iters :: u32
  c_stream_array_mib :: u32
  c_stream_warmup :: u32
  c_random_mib :: u32
  c_reserved0 :: u32
  c_random_accesses :: u64
  c_random_warmup_accesses :: u64
  c_vmap_mib :: u32
  c_task_bytes :: u32
  c_task_count :: u64
  c_task_iters :: u64

definition npb_cmd_zero :: npb_cmd where
  "npb_cmd_zero = \<lparr>c_cmd = 0, c_workload = 0, c_encrypt_data = 0, c_num_runs = 0, c_ep_pairs = 0,
     c_cg_rows = 0, c_cg_row_start = 0, c_cg_row_count = 0, c_cg_n = 0, c_cg_nzpc = 0,
     c_cg_iters = 0, c_stream_array_mib = 0, c_stream_warmup = 0, c_random_mib = 0, c_reserved0 = 0,
     c_random_accesses = 0, c_random_warmup_accesses = 0, c_vmap_mib = 0, c_task_bytes = 0,
     c_task_count = 0, c_task_iters = 0\<rparr>"

definition encode_npb_cmd :: "npb_cmd \<Rightarrow> bytes" where
  "encode_npb_cmd c =
     le_enc 4 (c_cmd c) @ le_enc 4 (c_workload c) @ le_enc 4 (c_encrypt_data c) @ le_enc 4 (c_num_runs c)
     @ le_enc 8 (c_ep_pairs c)
     @ le_enc 4 (c_cg_rows c) @ le_enc 4 (c_cg_row_start c) @ le_enc 4 (c_cg_row_count c)
     @ le_enc 4 (c_cg_n c) @ le_enc 4 (c_cg_nzpc c) @ le_enc 4 (c_cg_iters c)
     @ le_enc 4 (c_stream_array_mib c) @ le_enc 4 (c_stream_warmup c)
     @ le_enc 4 (c_random_mib c) @ le_enc 4 (c_reserved0 c)
     @ le_enc 8 (c_random_accesses c) @ le_enc 8 (c_random_warmup_accesses c)
     @ le_enc 4 (c_vmap_mib c) @ le_enc 4 (c_task_bytes c)
     @ le_enc 8 (c_task_count c) @ le_enc 8 (c_task_iters c)"

definition decode_npb_cmd :: "bytes \<Rightarrow> npb_cmd" where
  "decode_npb_cmd bs =
     \<lparr>c_cmd = field32 0 bs, c_workload = field32 4 bs, c_encrypt_data = field32 8 bs,
      c_num_runs = field32 12 bs, c_ep_pairs = field64 16 bs, c_cg_rows = field32 24 bs,
      c_cg_row_start = field32 28 bs, c_cg_row_count = field32 32 bs, c_cg_n = field32 36 bs,
      c_cg_nzpc = field32 40 bs, c_cg_iters = field32 44 bs, c_stream_array_mib = field32 48 bs,
      c_stream_warmup = field32 52 bs, c_random_mib = field32 56 bs, c_reserved0 = field32 60 bs,
      c_random_accesses = field64 64 bs, c_random_warmup_accesses = field64 72 bs,
      c_vmap_mib = field32 80 bs, c_task_bytes = field32 84 bs, c_task_count = field64 88 bs,
      c_task_iters = field64 96 bs\<rparr>"

record workload_ready =
  wr_workload :: u32
  wr_ok :: u32
  wr_element_count :: u64

definition encode_workload_ready :: "workload_ready \<Rightarrow> bytes" where
  "encode_workload_ready r =
     le_enc 4 (wr_workload r) @ le_enc 4 (wr_ok r) @ le_enc 8 (wr_element_count r)"

definition decode_workload_ready :: "bytes \<Rightarrow> workload_ready" where
  "decode_workload_ready bs =
     \<lparr>wr_workload = field32 0 bs, wr_ok = field32 4 bs, wr_element_count = field64 8 bs\<rparr>"

record run_trigger =
  rt_run :: u32
  rt_reserved :: u32

definition encode_run_trigger :: "run_trigger \<Rightarrow> bytes" where
  "encode_run_trigger t = le_enc 4 (rt_run t) @ le_enc 4 (rt_reserved t)"

definition decode_run_trigger :: "bytes \<Rightarrow> run_trigger" where
  "decode_run_trigger bs = \<lparr>rt_run = field32 0 bs, rt_reserved = field32 4 bs\<rparr>"

record stream_result =
  sr_run :: u32
  sr_verified :: u32
  sr_compute_ms :: dbl
  sr_checksum :: dbl

definition encode_stream_result :: "stream_result \<Rightarrow> bytes" where
  "encode_stream_result r = le_enc 4 (sr_run r) @ le_enc 4 (sr_verified r)
     @ le_enc 8 (sr_compute_ms r) @ le_enc 8 (sr_checksum r)"

definition decode_stream_result :: "bytes \<Rightarrow> stream_result" where
  "decode_stream_result bs = \<lparr>sr_run = field32 0 bs, sr_verified = field32 4 bs,
     sr_compute_ms = field64 8 bs, sr_checksum = field64 16 bs\<rparr>"

record random_result =
  rr_run :: u32
  rr_verified :: u32
  rr_final_token :: u32
  rr_reserved :: u32
  rr_compute_ms :: dbl

definition encode_random_result :: "random_result \<Rightarrow> bytes" where
  "encode_random_result r = le_enc 4 (rr_run r) @ le_enc 4 (rr_verified r)
     @ le_enc 4 (rr_final_token r) @ le_enc 4 (rr_reserved r) @ le_enc 8 (rr_compute_ms r)"

definition decode_random_result :: "bytes \<Rightarrow> random_result" where
  "decode_random_result bs = \<lparr>rr_run = field32 0 bs, rr_verified = field32 4 bs,
     rr_final_token = field32 8 bs, rr_reserved = field32 12 bs, rr_compute_ms = field64 16 bs\<rparr>"

record vmap_result =
  vr_run :: u32
  vr_verified :: u32
  vr_compute_ms :: dbl
  vr_checksum :: dbl

definition encode_vmap_result :: "vmap_result \<Rightarrow> bytes" where
  "encode_vmap_result r = le_enc 4 (vr_run r) @ le_enc 4 (vr_verified r)
     @ le_enc 8 (vr_compute_ms r) @ le_enc 8 (vr_checksum r)"

definition decode_vmap_result :: "bytes \<Rightarrow> vmap_result" where
  "decode_vmap_result bs = \<lparr>vr_run = field32 0 bs, vr_verified = field32 4 bs,
     vr_compute_ms = field64 8 bs, vr_checksum = field64 16 bs\<rparr>"

record taskq_control =
  tc_command :: u32
  tc_run :: u32

definition encode_taskq_control :: "taskq_control \<Rightarrow> bytes" where
  "encode_taskq_control c = le_enc 4 (tc_command c) @ le_enc 4 (tc_run c)"

definition decode_taskq_control :: "bytes \<Rightarrow> taskq_control" where
  "decode_taskq_control bs = \<lparr>tc_command = field32 0 bs, tc_run = field32 4 bs\<rparr>"

record taskq_task =
  tt_command :: u32
  tt_run :: u32
  tt_task_id :: u64
  tt_iterations :: u64
  tt_payload_bytes :: u32
  tt_reserved :: u32

definition encode_taskq_task :: "taskq_task \<Rightarrow> bytes" where
  "encode_taskq_task t = le_enc 4 (tt_command t) @ le_enc 4 (tt_run t) @ le_enc 8 (tt_task_id t)
     @ le_enc 8 (tt_iterations t) @ le_enc 4 (tt_payload_bytes t) @ le_enc 4 (tt_reserved t)"

definition decode_taskq_task :: "bytes \<Rightarrow> taskq_task" where
  "decode_taskq_task bs = \<lparr>tt_command = field32 0 bs, tt_run = field32 4 bs,
     tt_task_id = field64 8 bs, tt_iterations = field64 16 bs, tt_payload_bytes = field32 24 bs,
     tt_reserved = field32 28 bs\<rparr>"

record taskq_result =
  tr_run :: u32
  tr_verified :: u32
  tr_task_id :: u64
  tr_token :: u64
  tr_payload_bytes :: u32
  tr_reserved :: u32
  tr_compute_ms :: dbl

definition encode_taskq_result :: "taskq_result \<Rightarrow> bytes" where
  "encode_taskq_result r = le_enc 4 (tr_run r) @ le_enc 4 (tr_verified r) @ le_enc 8 (tr_task_id r)
     @ le_enc 8 (tr_token r) @ le_enc 4 (tr_payload_bytes r) @ le_enc 4 (tr_reserved r)
     @ le_enc 8 (tr_compute_ms r)"

definition decode_taskq_result :: "bytes \<Rightarrow> taskq_result" where
  "decode_taskq_result bs = \<lparr>tr_run = field32 0 bs, tr_verified = field32 4 bs,
     tr_task_id = field64 8 bs, tr_token = field64 16 bs, tr_payload_bytes = field32 24 bs,
     tr_reserved = field32 28 bs, tr_compute_ms = field64 32 bs\<rparr>"

definition EP_BINS :: nat where "EP_BINS = 10"

record ep_result =
  er_counts :: "u64 list"
  er_sx :: dbl
  er_sy :: dbl

definition encode_ep_result :: "ep_result \<Rightarrow> bytes" where
  "encode_ep_result r = concat (map (le_enc 8) (er_counts r)) @ le_enc 8 (er_sx r) @ le_enc 8 (er_sy r)"

definition decode_ep_result :: "bytes \<Rightarrow> ep_result" where
  "decode_ep_result bs = \<lparr>er_counts = map (\<lambda>b. field64 (8 * b) bs) [0..<EP_BINS],
     er_sx = field64 (8 * EP_BINS) bs, er_sy = field64 (8 * EP_BINS + 8) bs\<rparr>"

section \<open>Round trips\<close>

lemmas field_defs = field32_def field64_def

lemma decode_encode_npb_cmd: "decode_npb_cmd (encode_npb_cmd c) = c"
  by (simp add: decode_npb_cmd_def encode_npb_cmd_def field_defs)

lemma length_encode_npb_cmd [simp]: "length (encode_npb_cmd c) = 104"
  by (simp add: encode_npb_cmd_def)

lemma decode_encode_workload_ready [simp]: "decode_workload_ready (encode_workload_ready r) = r"
  and length_encode_workload_ready [simp]: "length (encode_workload_ready r) = 16"
  by (simp_all add: decode_workload_ready_def encode_workload_ready_def field_defs)

lemma decode_encode_run_trigger [simp]: "decode_run_trigger (encode_run_trigger t) = t"
  and length_encode_run_trigger [simp]: "length (encode_run_trigger t) = 8"
  by (simp_all add: decode_run_trigger_def encode_run_trigger_def field_defs)

lemma decode_encode_stream_result [simp]: "decode_stream_result (encode_stream_result r) = r"
  and length_encode_stream_result [simp]: "length (encode_stream_result r) = 24"
  by (simp_all add: decode_stream_result_def encode_stream_result_def field_defs)

lemma decode_encode_random_result [simp]: "decode_random_result (encode_random_result r) = r"
  and length_encode_random_result [simp]: "length (encode_random_result r) = 24"
  by (simp_all add: decode_random_result_def encode_random_result_def field_defs)

lemma decode_encode_vmap_result [simp]: "decode_vmap_result (encode_vmap_result r) = r"
  and length_encode_vmap_result [simp]: "length (encode_vmap_result r) = 24"
  by (simp_all add: decode_vmap_result_def encode_vmap_result_def field_defs)

lemma decode_encode_taskq_control [simp]: "decode_taskq_control (encode_taskq_control c) = c"
  and length_encode_taskq_control [simp]: "length (encode_taskq_control c) = 8"
  by (simp_all add: decode_taskq_control_def encode_taskq_control_def field_defs)

lemma decode_encode_taskq_task [simp]: "decode_taskq_task (encode_taskq_task t) = t"
  and length_encode_taskq_task [simp]: "length (encode_taskq_task t) = 32"
  by (simp_all add: decode_taskq_task_def encode_taskq_task_def field_defs)

lemma decode_encode_taskq_result [simp]: "decode_taskq_result (encode_taskq_result r) = r"
  and length_encode_taskq_result [simp]: "length (encode_taskq_result r) = 40"
  by (simp_all add: decode_taskq_result_def encode_taskq_result_def field_defs)

lemma length_concat_le_enc [simp]: "length (concat (map (le_enc n) ws)) = n * length ws"
  by (induction ws) auto

lemma field64_concat:
  "i < length ws \<Longrightarrow> field64 (8 * i) (concat (map (le_enc 8) ws) @ bs) = (ws ! i :: u64)"
proof (induction ws arbitrary: i)
  case (Cons w ws)
  then show ?case by (cases i) (auto simp: field_defs)
qed simp

lemma field64_concat_tail:
  "length ws * 8 = off \<Longrightarrow> field64 (off + k) (concat (map (le_enc 8) (ws :: u64 list)) @ bs) = field64 k bs"
  by (simp add: field_defs mult.commute)

lemma decode_encode_ep_result:
  assumes "length (er_counts r) = EP_BINS"
  shows "decode_ep_result (encode_ep_result r) = r" and "length (encode_ep_result r) = 96"
proof -
  have "map (\<lambda>b. field64 (8 * b) (encode_ep_result r)) [0..<EP_BINS] = er_counts r"
    by (rule nth_equalityI) (simp_all add: assms encode_ep_result_def field64_concat)
  moreover have "field64 (8 * EP_BINS) (encode_ep_result r) = er_sx r"
    using field64_concat_tail [of "er_counts r" "8 * EP_BINS" 0] assms
    by (simp add: encode_ep_result_def) (simp add: field_defs)
  moreover have "field64 (8 * EP_BINS + 8) (encode_ep_result r) = er_sy r"
    using field64_concat_tail [of "er_counts r" "8 * EP_BINS" 8] assms
    by (simp add: encode_ep_result_def) (simp add: field_defs)
  ultimately show "decode_ep_result (encode_ep_result r) = r" by (simp add: decode_ep_result_def)
  show "length (encode_ep_result r) = 96" using assms by (simp add: encode_ep_result_def EP_BINS_def)
qed

text \<open>
  The command struct and the task messages survive the wire: reading the fields at their
  offsets from the raw memory image gives back every field, and each image has the size the C
  compiler gives the struct and fits in an authenticated small message (256 bytes).
\<close>

theorem struct_wire_roundtrip:
  "decode_npb_cmd (encode_npb_cmd c) = c \<and> length (encode_npb_cmd c) = 104 \<and>
   decode_taskq_task (encode_taskq_task t) = t \<and> length (encode_taskq_task t) = 32 \<and>
   decode_taskq_result (encode_taskq_result r) = r \<and> length (encode_taskq_result r) = 40 \<and>
   (length (er_counts e) = EP_BINS \<longrightarrow>
      decode_ep_result (encode_ep_result e) = e \<and> length (encode_ep_result e) = 96)"
  using decode_encode_ep_result by (simp add: decode_encode_npb_cmd)

theorem struct_wire_roundtrip_witness:
  "decode_ep_result (encode_ep_result \<lparr>er_counts = [0, 1, 2, 3, 4, 5, 6, 7, 8, 9], er_sx = 7, er_sy = 9\<rparr>) =
     \<lparr>er_counts = [0, 1, 2, 3, 4, 5, 6, 7, 8, 9], er_sx = 7, er_sy = 9\<rparr>"
  using struct_wire_roundtrip
    [of npb_cmd_zero _ _ "\<lparr>er_counts = [0, 1, 2, 3, 4, 5, 6, 7, 8, 9], er_sx = 7, er_sy = 9\<rparr>"]
  by (simp add: EP_BINS_def)

end
