(* ===== verification/Task_Tokens.thy ===== *)
theory Task_Tokens
  imports Prelude
begin

text \<open>
  The task arithmetic that the central node and the worker share (src/master_npb.c,
  src/worker_npb.c): the xorshift generator, a task's token and bytes, and the central node's
  shortcut that applies any number of generator steps at once as a 64 by 64 bit matrix
  (\<open>linear_map_apply\<close>, \<open>linear_map_compose\<close>, \<open>build_xorshift_jump\<close>). A matrix
  \<open>uint64_t map[64]\<close> is the list of its 64 columns.
\<close>

section \<open>Definitions\<close>

definition xorshift64_step :: "u64 \<Rightarrow> u64" where
  "xorshift64_step value =
     (let value = value XOR push_bit 13 value;
          value = value XOR drop_bit 7 value;
          value = value XOR push_bit 17 value
      in value)"

definition task_initial_token :: "u64 \<Rightarrow> int \<Rightarrow> u64" where
  "task_initial_token task_id run =
     (let token = 0x9e3779b97f4a7c15 XOR (task_id * 0xbf58476d1ce4e5b9)
                    XOR push_bit 32 (ucast (word_of_int run :: u32))
      in if token \<noteq> 0 then token else 0xd1b54a32d192ed03)"

definition task_input_byte :: "u64 \<Rightarrow> int \<Rightarrow> nat \<Rightarrow> u8" where
  "task_input_byte task_id run index =
     ucast (task_id * 131 + ucast (word_of_int run :: u32) * 17 + of_nat index)"

definition task_output_byte :: "u8 \<Rightarrow> u64 \<Rightarrow> u64 \<Rightarrow> nat \<Rightarrow> u8" where
  "task_output_byte input token task_id index =
     (let shift = (index AND 7) * 8;
          mask = ucast (drop_bit shift token);
          lane = ucast (of_nat index * 29 + task_id)
      in input XOR mask XOR lane)"

definition linear_map_apply :: "u64 list \<Rightarrow> u64 \<Rightarrow> u64" where
  "linear_map_apply lmap value =
     fold (\<lambda>bit result. if drop_bit bit value AND 1 \<noteq> 0 then result XOR lmap ! bit else result)
       [0..<64] 0"

definition linear_map_compose :: "u64 list \<Rightarrow> u64 list \<Rightarrow> u64 list" where
  "linear_map_compose outer inner = map (\<lambda>bit. linear_map_apply outer (inner ! bit)) [0..<64]"

lemma unat_drop_bit_1: "unat (drop_bit 1 (n :: u64)) = unat n div 2"
  using unat_drop_bit_eq [of 1 n] by (simp only: drop_bit_eq_div power_one_right)

lemma drop_bit_1_less: "(n :: u64) \<noteq> 0 \<Longrightarrow> unat (drop_bit 1 n) < unat n"
  unfolding unat_drop_bit_1 by (simp add: unat_gt_0)

function jump_loop :: "u64 \<Rightarrow> u64 list \<Rightarrow> u64 list \<Rightarrow> u64 list" where
  "jump_loop iterations base jump =
     (if iterations = 0 then jump
      else
        let jump' = (if iterations AND 1 \<noteq> 0 then linear_map_compose base jump else jump);
            iterations' = drop_bit 1 iterations;
            base' = (if iterations' \<noteq> 0 then linear_map_compose base base else base)
        in jump_loop iterations' base' jump')"
  by pat_completeness auto
termination
  by (relation "measure (\<lambda>(n, b, j). unat n)") (use drop_bit_1_less in \<open>simp_all del: One_nat_def drop_bit_Suc\<close>)

declare jump_loop.simps [simp del]

definition build_xorshift_jump :: "u64 \<Rightarrow> u64 list" where
  "build_xorshift_jump iterations =
     jump_loop iterations (map (\<lambda>bit. xorshift64_step (push_bit bit 1)) [0..<64])
       (map (\<lambda>bit. push_bit bit 1) [0..<64])"

section \<open>Linear maps over bits\<close>

definition xor_linear :: "(u64 \<Rightarrow> u64) \<Rightarrow> bool" where
  "xor_linear f \<longleftrightarrow> (\<forall>x y. f (x XOR y) = f x XOR f y)"

definition represents :: "u64 list \<Rightarrow> (u64 \<Rightarrow> u64) \<Rightarrow> bool" where
  "represents m f \<longleftrightarrow> xor_linear f \<and> length m = 64 \<and> (\<forall>b<64. m ! b = f (push_bit b 1))"

lemma xor_linearD: "xor_linear f \<Longrightarrow> f (x XOR y) = f x XOR f y"
  by (simp add: xor_linear_def)

lemma xor_linear_0: "xor_linear f \<Longrightarrow> f 0 = 0"
  using xor_linearD [of f 0 0] by simp

lemma xor_linear_comp: "xor_linear f \<Longrightarrow> xor_linear g \<Longrightarrow> xor_linear (f \<circ> g)"
  by (simp add: xor_linear_def)

lemma xor_linear_id: "xor_linear id"
  by (simp add: xor_linear_def)

lemma xor_linear_funpow: "xor_linear f \<Longrightarrow> xor_linear (f ^^ n)"
  by (induction n) (auto intro: xor_linear_comp xor_linear_id)

lemma take_bit_Suc_xor:
  "take_bit (Suc n) (x :: u64) = take_bit n x XOR (if bit x n then push_bit n 1 else 0)"
  by (rule bit_word_eqI) (auto simp: bit_simps less_Suc_eq)

lemma bit_test: "drop_bit n (x :: u64) AND 1 \<noteq> 0 \<longleftrightarrow> bit x n"
  by (simp add: bit_iff_odd_drop_bit and_one_eq odd_iff_mod_2_eq_one)

lemma represents_apply:
  assumes "represents m f"
  shows "linear_map_apply m x = f x"
proof -
  have lin: "xor_linear f" using assms by (simp add: represents_def)
  have "fold (\<lambda>b r. if drop_bit b x AND 1 \<noteq> 0 then r XOR m ! b else r) [0..<n] 0 = f (take_bit n x)"
    if "n \<le> 64" for n
    using that
  proof (induction n)
    case (Suc n)
    have "m ! n = f (push_bit n 1)" using assms Suc.prems by (simp add: represents_def)
    with Suc show ?case
      by (auto simp: bit_test take_bit_Suc_xor xor_linearD [OF lin] xor_linear_0 [OF lin])
  qed (simp add: xor_linear_0 [OF lin])
  from this [of 64] show ?thesis by (simp add: linear_map_apply_def take_bit_word_eq_self)
qed

lemma represents_compose:
  "represents m f \<Longrightarrow> represents m' g \<Longrightarrow> represents (linear_map_compose m m') (f \<circ> g)"
  using represents_apply [of m f]
  by (auto simp: represents_def linear_map_compose_def xor_linear_comp)

lemma xorshift_linear: "xor_linear xorshift64_step"
proof -
  have p: "push_bit n (x XOR y) = push_bit n x XOR push_bit n y" for n and x y :: u64
    by (rule push_bit_xor)
  have d: "drop_bit n (x XOR y) = drop_bit n x XOR drop_bit n y" for n and x y :: u64
    by (rule drop_bit_xor)
  show ?thesis
    by (simp add: xor_linear_def xorshift64_step_def Let_def p d xor.assoc xor.left_commute)
qed

section \<open>The jump matrix\<close>

lemma odd_unat_iff: "odd (unat (n :: u64)) \<longleftrightarrow> odd n"
proof -
  have "bit (unat n) 0 \<longleftrightarrow> bit n 0" by transfer (simp add: bit_simps)
  then show ?thesis by (simp only: bit_0)
qed

lemma unat_half:
  "unat (n :: u64) = 2 * unat (drop_bit 1 n) + (if n AND 1 \<noteq> 0 then 1 else 0)"
proof -
  have "n AND 1 \<noteq> 0 \<longleftrightarrow> odd (unat n)"
    using bit_test [of 0 n] by (simp add: bit_0 odd_unat_iff)
  then show ?thesis unfolding unat_drop_bit_1 by (auto elim: oddE)
qed

lemma jump_loop_represents:
  assumes "represents jump (f ^^ a)" and "represents base (f ^^ b)"
  shows "represents (jump_loop n base jump) (f ^^ (a + b * unat n))"
  using assms
proof (induction n base jump arbitrary: a b rule: jump_loop.induct)
  case (1 n base jump)
  show ?case
  proof (cases "n = 0")
    case True
    then have "jump_loop n base jump = jump" by (subst jump_loop.simps) simp
    with "1.prems" True show ?thesis by simp
  next
    case False
    let ?j = "if n AND 1 \<noteq> 0 then linear_map_compose base jump else jump"
    let ?n = "drop_bit 1 n"
    let ?b = "if ?n \<noteq> 0 then linear_map_compose base base else base"
    let ?a = "a + (if n AND 1 \<noteq> 0 then b else 0)"
    have j: "represents ?j (f ^^ ?a)"
      using represents_compose [OF "1.prems"(2,1)] "1.prems"(1)
      by (simp add: add.commute flip: funpow_add)
    have bb: "represents (linear_map_compose base base) (f ^^ (b + b))"
      using represents_compose [OF "1.prems"(2,2)] by (simp flip: funpow_add)
    have step: "jump_loop n base jump = jump_loop ?n ?b ?j"
      using False by (subst jump_loop.simps) (simp add: Let_def)
    have "represents (jump_loop ?n ?b ?j) (f ^^ (?a + (if ?n \<noteq> 0 then b + b else b) * unat ?n))"
      by (rule "1.IH" [OF False refl refl refl j]) (use bb "1.prems"(2) in auto)
    moreover have "?a + (if ?n \<noteq> 0 then b + b else b) * unat ?n = a + b * unat n"
      using unat_half [of n] by (auto simp: algebra_simps)
    ultimately show ?thesis by (simp only: step)
  qed
qed

lemma build_xorshift_jump_represents:
  "represents (build_xorshift_jump n) (xorshift64_step ^^ unat n)"
proof -
  have "represents (map (\<lambda>b. push_bit b 1) [0..<64]) (xorshift64_step ^^ 0)"
    using xor_linear_id by (simp add: represents_def)
  moreover have "represents (map (\<lambda>b. xorshift64_step (push_bit b 1)) [0..<64]) (xorshift64_step ^^ 1)"
    by (simp add: represents_def xorshift_linear)
  ultimately show ?thesis
    using jump_loop_represents [where f = xorshift64_step and a = 0 and b = 1 and n = n]
    by (simp add: build_xorshift_jump_def)
qed

lemmas jump_apply = represents_apply [OF build_xorshift_jump_represents]

text \<open>
  C19: For every 64-bit iteration count the central node's precomputed jump matrix, applied to a
  token, gives exactly what the worker computes by running the generator step that many times:
  the logarithmic shortcut and the loop are the same function.
\<close>

theorem xorshift_jump_correct:
  "linear_map_apply (build_xorshift_jump iterations) token = (xorshift64_step ^^ unat iterations) token"
  by (rule jump_apply)

section \<open>Tokens never vanish\<close>

lemma shift_fixpoint:
  assumes "k > 0" and "(x :: u64) = push_bit k x"
  shows "x = 0"
proof (rule bit_word_eqI)
  fix n
  have "\<not> bit x n" for n
  proof (induction n rule: less_induct)
    case (less n)
    have "bit x n \<longleftrightarrow> k \<le> n \<and> n < 64 \<and> bit x (n - k)"
      by (subst assms(2)) (auto simp: bit_simps dest: bit_imp_le_length)
    with less assms(1) show ?case by auto
  qed
  then show "bit x n \<longleftrightarrow> bit 0 n" by simp
qed

lemma drop_fixpoint:
  assumes "k > 0" and "(x :: u64) = drop_bit k x"
  shows "x = 0"
proof (rule bit_word_eqI)
  fix n
  have "\<not> bit x (n + m * k)" if "64 \<le> n + m * k" for n m
    using that by (auto dest: bit_imp_le_length)
  moreover have "bit x n \<longleftrightarrow> bit x (n + m * k)" for n m
  proof (induction m)
    case (Suc m)
    have "bit x (n + m * k) \<longleftrightarrow> bit (drop_bit k x) (n + m * k)" using assms(2) by simp
    with Suc show ?case by (simp add: bit_simps ac_simps)
  qed simp
  moreover have "64 \<le> n + 64 * k" using assms(1) by simp
  ultimately show "bit x n \<longleftrightarrow> bit 0 n" by simp
qed

lemma xorshift_nonzero: "x \<noteq> 0 \<Longrightarrow> xorshift64_step x \<noteq> 0"
proof
  assume x: "x \<noteq> 0" and z: "xorshift64_step x = 0"
  let ?y = "x XOR push_bit 13 x" and ?eq = "\<lambda>a b. a XOR b = (0 :: u64) \<longleftrightarrow> a = b"
  let ?z = "?y XOR drop_bit 7 ?y"
  have eq: "?eq a b" for a b by (auto simp: bit_eq_iff bit_simps)
  have "xorshift64_step x = ?z XOR push_bit 17 ?z" by (simp only: xorshift64_step_def Let_def)
  with z have "?z XOR push_bit 17 ?z = 0" by (simp only:)
  then have "?z = push_bit 17 ?z" by (simp only: eq)
  then have "?z = 0" by (rule shift_fixpoint [rotated]) simp
  then have "?y = drop_bit 7 ?y" by (simp only: eq)
  then have "?y = 0" by (rule drop_fixpoint [rotated]) simp
  then have "x = push_bit 13 x" by (simp only: eq)
  then have "x = 0" by (rule shift_fixpoint [rotated]) simp
  with x show False by simp
qed

lemma xorshift_funpow_nonzero: "x \<noteq> 0 \<Longrightarrow> (xorshift64_step ^^ n) x \<noteq> 0"
  by (induction n) (auto simp: xorshift_nonzero)

text \<open>
  The token the central node expects of any task in any run is never zero, the generator's
  only fixed point that would make the iteration count invisible.
\<close>

theorem expected_token_nonzero:
  "linear_map_apply (build_xorshift_jump iterations) (task_initial_token task_id run) \<noteq> 0"
proof -
  have "task_initial_token task_id run \<noteq> 0"
    by (simp add: task_initial_token_def Let_def)
  then show ?thesis by (simp add: jump_apply xorshift_funpow_nonzero)
qed

end
