(* ===== verification/Npb_Defs.thy ===== *)
theory Npb_Defs
  imports Secure_Io Wire_Structs Task_Tokens
begin

text \<open>
  The constants of the NPB protocol (message tags, workload and command codes, bounds), the size
  helper, and the C integers the programs count with. Tags and codes are abbreviations, so they
  are their numbers.
\<close>

abbreviation TAG_EA_REQUEST :: int where "TAG_EA_REQUEST \<equiv> 70"
abbreviation TAG_EA_AUTH_HDR :: int where "TAG_EA_AUTH_HDR \<equiv> 71"
abbreviation TAG_EA_EVIDENCE_DATA :: int where "TAG_EA_EVIDENCE_DATA \<equiv> 72"
abbreviation TAG_EA_RESULT :: int where "TAG_EA_RESULT \<equiv> 74"
abbreviation TAG_KX_SERVER_AUTH :: int where "TAG_KX_SERVER_AUTH \<equiv> 91"
abbreviation TAG_KX_CLIENT_FINISH :: int where "TAG_KX_CLIENT_FINISH \<equiv> 92"
abbreviation TAG_KX_SERVER_FINISH :: int where "TAG_KX_SERVER_FINISH \<equiv> 93"
abbreviation TAG_NPB_CMD :: int where "TAG_NPB_CMD \<equiv> 130"
abbreviation TAG_NPB_EP_RESULT :: int where "TAG_NPB_EP_RESULT \<equiv> 131"
abbreviation TAG_NPB_CG_X :: int where "TAG_NPB_CG_X \<equiv> 132"
abbreviation TAG_NPB_CG_Y :: int where "TAG_NPB_CG_Y \<equiv> 133"
abbreviation TAG_NPB_CG_MATRIX :: int where "TAG_NPB_CG_MATRIX \<equiv> 134"
abbreviation TAG_NPB_TIME :: int where "TAG_NPB_TIME \<equiv> 135"
abbreviation TAG_STREAM_READY :: int where "TAG_STREAM_READY \<equiv> 136"
abbreviation TAG_STREAM_RUN :: int where "TAG_STREAM_RUN \<equiv> 137"
abbreviation TAG_STREAM_RESULT :: int where "TAG_STREAM_RESULT \<equiv> 138"
abbreviation TAG_RANDOM_READY :: int where "TAG_RANDOM_READY \<equiv> 139"
abbreviation TAG_RANDOM_RUN :: int where "TAG_RANDOM_RUN \<equiv> 140"
abbreviation TAG_RANDOM_RESULT :: int where "TAG_RANDOM_RESULT \<equiv> 141"
abbreviation TAG_VMAP_READY :: int where "TAG_VMAP_READY \<equiv> 142"
abbreviation TAG_VMAP_INPUT :: int where "TAG_VMAP_INPUT \<equiv> 143"
abbreviation TAG_VMAP_OUTPUT :: int where "TAG_VMAP_OUTPUT \<equiv> 144"
abbreviation TAG_VMAP_RESULT :: int where "TAG_VMAP_RESULT \<equiv> 145"
abbreviation TAG_TASKQ_READY :: int where "TAG_TASKQ_READY \<equiv> 146"
abbreviation TAG_TASKQ_CONTROL :: int where "TAG_TASKQ_CONTROL \<equiv> 147"
abbreviation TAG_TASKQ_TASK :: int where "TAG_TASKQ_TASK \<equiv> 148"
abbreviation TAG_TASKQ_INPUT :: int where "TAG_TASKQ_INPUT \<equiv> 149"
abbreviation TAG_TASKQ_RESULT :: int where "TAG_TASKQ_RESULT \<equiv> 150"
abbreviation TAG_TASKQ_OUTPUT :: int where "TAG_TASKQ_OUTPUT \<equiv> 151"

abbreviation WORKLOAD_EP :: u32 where "WORKLOAD_EP \<equiv> 1"
abbreviation WORKLOAD_CG :: u32 where "WORKLOAD_CG \<equiv> 2"
abbreviation WORKLOAD_STREAM :: u32 where "WORKLOAD_STREAM \<equiv> 3"
abbreviation WORKLOAD_RANDOM :: u32 where "WORKLOAD_RANDOM \<equiv> 4"
abbreviation WORKLOAD_VMAP :: u32 where "WORKLOAD_VMAP \<equiv> 5"
abbreviation WORKLOAD_TASKQ :: u32 where "WORKLOAD_TASKQ \<equiv> 6"

abbreviation CMD_NPB_START :: u32 where "CMD_NPB_START \<equiv> 1"
abbreviation CMD_NPB_DONE :: u32 where "CMD_NPB_DONE \<equiv> 3"

abbreviation TASKQ_CONTROL_START :: u32 where "TASKQ_CONTROL_START \<equiv> 1"
abbreviation TASKQ_TASK_WORK :: u32 where "TASKQ_TASK_WORK \<equiv> 1"
abbreviation TASKQ_TASK_END :: u32 where "TASKQ_TASK_END \<equiv> 2"

abbreviation STREAM_MIN_MIB :: u32 where "STREAM_MIN_MIB \<equiv> 1"
abbreviation STREAM_MAX_MIB :: u32 where "STREAM_MAX_MIB \<equiv> 128"
abbreviation RANDOM_MIN_MIB :: u32 where "RANDOM_MIN_MIB \<equiv> 32"
abbreviation RANDOM_MAX_MIB :: u32 where "RANDOM_MAX_MIB \<equiv> 256"
abbreviation VMAP_MIN_MIB :: u32 where "VMAP_MIN_MIB \<equiv> 1"
abbreviation VMAP_MAX_MIB :: u32 where "VMAP_MAX_MIB \<equiv> 128"
abbreviation TASKQ_MIN_BYTES :: u32 where "TASKQ_MIN_BYTES \<equiv> 1"
abbreviation TASKQ_MAX_BYTES :: u32 where "TASKQ_MAX_BYTES \<equiv> 1048576"

definition SIZE_MAX :: nat where "SIZE_MAX = 2 ^ 64 - 1"
definition MIB_BYTES :: nat where "MIB_BYTES = 1024 * 1024"

definition checked_mib_bytes :: "u32 \<Rightarrow> nat option" where
  "checked_mib_bytes mib =
     (if unat mib > SIZE_MAX div MIB_BYTES then None else Some (unat mib * MIB_BYTES))"

definition i32 :: "int \<Rightarrow> u32" where
  \<comment> \<open>an int stored in an int32_t field\<close>
  "i32 x = word_of_int x"

definition workload_name :: "u32 \<Rightarrow> string" where
  "workload_name workload =
     (if workload = WORKLOAD_EP then ''EP''
      else if workload = WORKLOAD_CG then ''CG''
      else if workload = WORKLOAD_STREAM then ''STREAM''
      else if workload = WORKLOAD_RANDOM then ''RANDOM''
      else if workload = WORKLOAD_VMAP then ''VMAP''
      else if workload = WORKLOAD_TASKQ then ''TASKQ''
      else ''UNKNOWN'')"

text \<open>Elapsed milliseconds between two readings of the clock.\<close>

definition elapsed_ms :: "dbl \<Rightarrow> dbl \<Rightarrow> dbl" where
  "elapsed_ms started finished = d_mul (d_sub finished started) (d_of_nat 1000)"

definition bytes_of_dbls :: "dbl list \<Rightarrow> bytes" where
  "bytes_of_dbls xs = concat (map (le_enc 8) xs)"

definition dbls_of_bytes :: "bytes \<Rightarrow> dbl list" where
  "dbls_of_bytes bs = map (\<lambda>i. field64 (8 * i) bs) [0..<length bs div 8]"

lemma checked_mib_bytes_eq: "checked_mib_bytes mib = Some (unat mib * MIB_BYTES)"
proof -
  have "unat mib < 2 ^ 32" using unat_word_lt [of mib] by simp
  then have "\<not> unat mib > SIZE_MAX div MIB_BYTES" by (simp add: SIZE_MAX_def MIB_BYTES_def)
  then show ?thesis by (simp add: checked_mib_bytes_def)
qed

lemma sint_i32: "- (2 ^ 31) \<le> run \<Longrightarrow> run < 2 ^ 31 \<Longrightarrow> sint (i32 run) = run"
  by (simp add: i32_def sint_sbintrunc' signed_take_bit_int_eq_self)

lemma dbls_bytes_roundtrip: "dbls_of_bytes (bytes_of_dbls xs) = xs"
proof (rule nth_equalityI)
  show "length (dbls_of_bytes (bytes_of_dbls xs)) = length xs"
    by (simp add: dbls_of_bytes_def bytes_of_dbls_def)
next
  fix i assume "i < length (dbls_of_bytes (bytes_of_dbls xs))"
  then have i: "i < length xs" by (simp add: dbls_of_bytes_def bytes_of_dbls_def)
  from field64_concat [OF this, of "[]"] i show "dbls_of_bytes (bytes_of_dbls xs) ! i = xs ! i"
    by (simp add: dbls_of_bytes_def bytes_of_dbls_def)
qed

lemma length_bytes_of_dbls [simp]: "length (bytes_of_dbls xs) = 8 * length xs"
  by (simp add: bytes_of_dbls_def)

end
