(* ===== verification/Master_State.thy ===== *)
theory Master_State
  imports Npb_Defs
begin

text \<open>
  The central node's data (src/master_npb.c): the worker table of a run (communicators, keys,
  channel bindings), the static arrays of nonce counters and the result store, the calls the
  handlers make with them, and \<open>record_generic_result\<close> and \<open>wait_for_workload_ready\<close>.
  A list is indexed with the worker's number, as the C arrays are. A handler returns its status
  (0 or -1) and the new state.
\<close>

abbreviation MAX_WORKERS :: nat where "MAX_WORKERS \<equiv> 128"
abbreviation MAX_RUNS :: nat where "MAX_RUNS \<equiv> 1000"
abbreviation MAX_RESULTS :: nat where "MAX_RESULTS \<equiv> MAX_RUNS * 4"

record links =
  lk_workers :: "comm list"
  lk_tx_keys :: "bytes list"
  lk_rx_keys :: "bytes list"
  lk_bindings :: "bytes list"

record npb_result =
  r_workload :: u32
  r_num_workers :: nat
  r_encrypted :: bool
  r_run :: int
  r_t_scatter_ms :: dbl
  r_t_compute_max_ms :: dbl
  r_t_gather_ms :: dbl
  r_t_round_ms :: dbl
  r_ep_pairs_total :: u64
  r_cg_n :: int
  r_cg_iters :: int

record master_state =
  ms_send_nonce_ctr :: "u64 list"
  ms_recv_nonce_ctr :: "u64 list"
  ms_results :: "npb_result list"

section \<open>Calls on one worker's channel\<close>

definition secure_to ::
  "crypto \<Rightarrow> 'e mpi \<Rightarrow> links \<Rightarrow> int \<Rightarrow> bytes \<Rightarrow> nat \<Rightarrow> master_state \<Rightarrow> ('e world, master_state) prog" where
  "secure_to C M L tag data worker m =
     bindP (master_secure_send C M (lk_workers L ! worker) (lk_tx_keys L ! worker) (lk_bindings L ! worker)
              (ms_send_nonce_ctr m ! worker) data tag) (\<lambda>n.
     ret (m\<lparr>ms_send_nonce_ctr := (ms_send_nonce_ctr m)[worker := n]\<rparr>))"

definition small_to ::
  "crypto \<Rightarrow> 'e mpi \<Rightarrow> links \<Rightarrow> bool \<Rightarrow> int \<Rightarrow> bytes \<Rightarrow> nat \<Rightarrow> master_state
    \<Rightarrow> ('e world, master_state) prog" where
  "small_to C M L encrypt tag data worker m =
     bindP (master_workload_send_small C M (lk_workers L ! worker) (lk_tx_keys L ! worker)
              (lk_bindings L ! worker) (ms_send_nonce_ctr m ! worker) data tag encrypt) (\<lambda>n.
     ret (m\<lparr>ms_send_nonce_ctr := (ms_send_nonce_ctr m)[worker := n]\<rparr>))"

definition bulk_to ::
  "crypto \<Rightarrow> 'e mpi \<Rightarrow> links \<Rightarrow> bool \<Rightarrow> int \<Rightarrow> bytes \<Rightarrow> nat \<Rightarrow> master_state
    \<Rightarrow> ('e world, master_state) prog" where
  "bulk_to C M L encrypt tag data worker m =
     bindP (master_send_bulk C M (lk_workers L ! worker) (lk_tx_keys L ! worker) (lk_bindings L ! worker)
              (ms_send_nonce_ctr m ! worker) data tag encrypt) (\<lambda>n.
     ret (m\<lparr>ms_send_nonce_ctr := (ms_send_nonce_ctr m)[worker := n]\<rparr>))"

definition received ::
  "nat \<Rightarrow> master_state \<Rightarrow> (bytes \<times> u64) option \<Rightarrow> (bytes \<times> master_state) option" where
  "received worker m r =
     map_option (\<lambda>(d, n). (d, m\<lparr>ms_recv_nonce_ctr := (ms_recv_nonce_ctr m)[worker := n]\<rparr>)) r"

definition secure_from ::
  "crypto \<Rightarrow> 'e mpi \<Rightarrow> links \<Rightarrow> int \<Rightarrow> int \<Rightarrow> nat \<Rightarrow> master_state
    \<Rightarrow> ('e world, (bytes \<times> master_state) option) prog" where
  "secure_from C M L tag len worker m =
     bindP (master_secure_recv C M (lk_workers L ! worker) (lk_rx_keys L ! worker) (lk_bindings L ! worker)
              (ms_recv_nonce_ctr m ! worker) len tag) (\<lambda>r. ret (received worker m r))"

definition small_from ::
  "crypto \<Rightarrow> 'e mpi \<Rightarrow> links \<Rightarrow> bool \<Rightarrow> int \<Rightarrow> int \<Rightarrow> nat \<Rightarrow> master_state
    \<Rightarrow> ('e world, (bytes \<times> master_state) option) prog" where
  "small_from C M L encrypt tag len worker m =
     bindP (master_workload_recv_small C M (lk_workers L ! worker) (lk_rx_keys L ! worker)
              (lk_bindings L ! worker) (ms_recv_nonce_ctr m ! worker) len tag encrypt)
       (\<lambda>r. ret (received worker m r))"

definition bulk_from ::
  "crypto \<Rightarrow> 'e mpi \<Rightarrow> links \<Rightarrow> bool \<Rightarrow> int \<Rightarrow> nat \<Rightarrow> nat \<Rightarrow> master_state
    \<Rightarrow> ('e world, (bytes \<times> master_state) option) prog" where
  "bulk_from C M L encrypt tag len worker m =
     bindP (master_recv_bulk C M (lk_workers L ! worker) (lk_rx_keys L ! worker) (lk_bindings L ! worker)
              (ms_recv_nonce_ctr m ! worker) len tag encrypt) (\<lambda>r. ret (received worker m r))"

section \<open>Results and set-up\<close>

definition npb_result_zero :: npb_result where
  "npb_result_zero = \<lparr>r_workload = 0, r_num_workers = 0, r_encrypted = False, r_run = 0,
     r_t_scatter_ms = 0, r_t_compute_max_ms = 0, r_t_gather_ms = 0, r_t_round_ms = 0,
     r_ep_pairs_total = 0, r_cg_n = 0, r_cg_iters = 0\<rparr>"

definition record_generic_result ::
  "u32 \<Rightarrow> nat \<Rightarrow> bool \<Rightarrow> int \<Rightarrow> dbl \<Rightarrow> dbl \<Rightarrow> dbl \<Rightarrow> dbl \<Rightarrow> master_state
    \<Rightarrow> ('e world, master_state) prog" where
  "record_generic_result workload nworkers encrypt run scatter_ms compute_max_ms gather_ms round_ms m =
     (if length (ms_results m) \<ge> MAX_RESULTS then halt 1
      else ret (m\<lparr>ms_results := ms_results m @
        [npb_result_zero\<lparr>r_workload := workload, r_num_workers := nworkers, r_encrypted := encrypt,
           r_run := run, r_t_scatter_ms := scatter_ms, r_t_compute_max_ms := compute_max_ms,
           r_t_gather_ms := gather_ms, r_t_round_ms := round_ms\<rparr>]\<rparr>))"

definition ready_step ::
  "crypto \<Rightarrow> 'e mpi \<Rightarrow> links \<Rightarrow> u32 \<Rightarrow> int \<Rightarrow> u64 \<Rightarrow> nat \<Rightarrow> master_state
    \<Rightarrow> ('e world, (master_state, int \<times> master_state) flow) prog" where
  "ready_step C M L workload tag expected_count worker m =
     bindP (secure_from C M L tag 16 worker m) (\<lambda>r.
     case r of
       None \<Rightarrow> ret (Exit (- 1, m))
     | Some (bs, m') \<Rightarrow>
         let ready = decode_workload_ready bs in
         if wr_workload ready \<noteq> workload \<or> wr_ok ready = 0 \<or> wr_element_count ready \<noteq> expected_count
         then ret (Exit (- 1, m'))
         else ret (Next m'))"

definition master_status :: "(master_state, int \<times> master_state) flow \<Rightarrow> int \<times> master_state" where
  "master_status f = (case f of Next m \<Rightarrow> (0, m) | Exit r \<Rightarrow> r)"

definition wait_for_workload_ready ::
  "crypto \<Rightarrow> 'e mpi \<Rightarrow> links \<Rightarrow> nat \<Rightarrow> u32 \<Rightarrow> int \<Rightarrow> u64 \<Rightarrow> master_state
    \<Rightarrow> ('e world, int \<times> master_state) prog" where
  "wait_for_workload_ready C M L nworkers workload tag expected_count m =
     bindP (loopX (ready_step C M L workload tag expected_count) [0..<nworkers] m)
       (\<lambda>f. ret (master_status f))"

section \<open>How a call changes the central node's state\<close>

text \<open>
  No call takes a counter away, a send counter never goes back, and the results are only
  extended: the relation between the state before and after any sequence of calls.
\<close>

definition ms_le :: "master_state \<Rightarrow> master_state \<Rightarrow> bool" where
  "ms_le m m' \<longleftrightarrow> list_all2 (\<le>) (ms_send_nonce_ctr m) (ms_send_nonce_ctr m') \<and>
     length (ms_recv_nonce_ctr m') = length (ms_recv_nonce_ctr m) \<and>
     (\<exists>rs. ms_results m' = ms_results m @ rs)"

lemma list_all2_le_refl [simp]: "list_all2 (\<le>) (xs :: u64 list) xs"
  by (simp add: list_all2_refl)

lemma ms_le_refl [simp]: "ms_le m m"
  by (simp add: ms_le_def)

lemma ms_le_trans [trans]: "ms_le a b \<Longrightarrow> ms_le b c \<Longrightarrow> ms_le a c"
  unfolding ms_le_def
  using list_all2_trans [of "(\<le>)" "(\<le>)" "(\<le>)" "ms_send_nonce_ctr a" "ms_send_nonce_ctr b"
      "ms_send_nonce_ctr c"] by fastforce

lemma ctr_update_le:
  assumes "xs ! i \<le> n"
  shows "list_all2 (\<le>) (xs :: u64 list) (xs[i := n])"
  unfolding list_all2_conv_all_nth
proof (intro conjI allI impI)
  fix j assume "j < length xs"
  then show "xs ! j \<le> xs[i := n] ! j" using assms by (cases "j = i") simp_all
qed simp

lemma ctr_succ: "(n :: u64) \<noteq> - 1 \<Longrightarrow> n \<le> n + 1"
  by (simp add: word_le_nat_alt unat_succ)

definition ctr_step :: "nat \<Rightarrow> master_state \<Rightarrow> master_state \<Rightarrow> bool" where
  "ctr_step worker m m' \<longleftrightarrow> (\<exists>n. ms_send_nonce_ctr m ! worker \<le> n \<and>
     m' = m\<lparr>ms_send_nonce_ctr := (ms_send_nonce_ctr m)[worker := n]\<rparr>)"

lemma ctr_step_le: "ctr_step worker m m' \<Longrightarrow> ms_le m m'"
  by (auto simp: ctr_step_def ms_le_def ctr_update_le)

lemma ctr_step_results: "ctr_step worker m m' \<Longrightarrow> ms_results m' = ms_results m"
  by (auto simp: ctr_step_def)

lemma secure_to_step:
  "secure_to C M L tag data worker m w = Done m' w' \<Longrightarrow> ctr_step worker m m'"
  using ctr_succ by (fastforce simp: secure_to_def ctr_step_def dest!: master_secure_send_Done)

lemma small_to_step:
  "small_to C M L encrypt tag data worker m w = Done m' w' \<Longrightarrow> ctr_step worker m m'"
  using ctr_succ
  by (fastforce simp: small_to_def ctr_step_def master_workload_send_small_def
      dest!: master_secure_send_Done split: if_splits)

lemma bulk_to_step:
  "bulk_to C M L encrypt tag data worker m w = Done m' w' \<Longrightarrow> ctr_step worker m m'"
proof (cases encrypt)
  case True
  then show "bulk_to C M L encrypt tag data worker m w = Done m' w' \<Longrightarrow> ?thesis"
    using ctr_succ by (fastforce simp: bulk_to_def ctr_step_def dest!: master_send_bulk_Done)
next
  case False
  then show "bulk_to C M L encrypt tag data worker m w = Done m' w' \<Longrightarrow> ?thesis"
    by (fastforce simp: bulk_to_def ctr_step_def master_send_bulk_def split: if_splits)
qed

lemma received_step:
  "received worker m r = Some (d, m') \<Longrightarrow>
   \<exists>n. m' = m\<lparr>ms_recv_nonce_ctr := (ms_recv_nonce_ctr m)[worker := n]\<rparr>"
  by (auto simp: received_def)

lemma received_le: "received worker m r = Some (d, m') \<Longrightarrow> ms_le m m' \<and> ms_results m' = ms_results m"
  by (auto simp: received_def ms_le_def)

lemma secure_from_le:
  "secure_from C M L tag len worker m w = Done (Some (d, m')) w' \<Longrightarrow>
   ms_le m m' \<and> ms_results m' = ms_results m"
  by (auto simp: secure_from_def dest: received_le)

lemma small_from_le:
  "small_from C M L encrypt tag len worker m w = Done (Some (d, m')) w' \<Longrightarrow>
   ms_le m m' \<and> ms_results m' = ms_results m"
  by (auto simp: small_from_def dest: received_le)

lemma bulk_from_le:
  "bulk_from C M L encrypt tag len worker m w = Done (Some (d, m')) w' \<Longrightarrow>
   ms_le m m' \<and> ms_results m' = ms_results m"
  by (auto simp: bulk_from_def dest: received_le)

text \<open>A state reached by sends and receives only: the counters moved, no result was stored.\<close>

definition quiet :: "master_state \<Rightarrow> master_state \<Rightarrow> bool" where
  "quiet m m' \<longleftrightarrow> ms_le m m' \<and> ms_results m' = ms_results m"

lemma quiet_refl [simp]: "quiet m m"
  by (simp add: quiet_def)

lemma quiet_trans [trans]: "quiet a b \<Longrightarrow> quiet b c \<Longrightarrow> quiet a c"
  using ms_le_trans by (auto simp: quiet_def)

lemmas to_quiet =
  secure_to_step [THEN ctr_step_le] small_to_step [THEN ctr_step_le] bulk_to_step [THEN ctr_step_le]
  secure_to_step [THEN ctr_step_results] small_to_step [THEN ctr_step_results]
  bulk_to_step [THEN ctr_step_results]

lemma to_quietD:
  "secure_to C M L tag data worker m w = Done m' w' \<Longrightarrow> quiet m m'"
  "small_to C M L encrypt tag data worker m w = Done m' w' \<Longrightarrow> quiet m m'"
  "bulk_to C M L encrypt tag data worker m w = Done m' w' \<Longrightarrow> quiet m m'"
  by (auto simp: quiet_def dest: to_quiet)

lemma from_quietD:
  "secure_from C M L tag len worker m w = Done (Some (d, m')) w' \<Longrightarrow> quiet m m'"
  "small_from C M L encrypt tag len worker m w = Done (Some (d, m')) w' \<Longrightarrow> quiet m m'"
  "bulk_from C M L encrypt tag blen worker m w = Done (Some (d, m')) w' \<Longrightarrow> quiet m m'"
  unfolding quiet_def by (fact secure_from_le small_from_le bulk_from_le)+

lemma loopP_quiet:
  assumes "loopP body is m w = Done m' w'"
    and "\<And>i m w m' w'. body i m w = Done m' w' \<Longrightarrow> quiet m m'"
  shows "quiet m m'"
proof (rule loopP_inv [OF assms(1), of "\<lambda>s w. quiet m s"])
  fix i s w s' w' assume "quiet m s" "body i s w = Done s' w'"
  then show "quiet m s'" using assms(2) quiet_trans by blast
qed simp

lemma loopP_quiet_fst:
  assumes "loopP body is s w = Done s' w'"
    and "\<And>i s w s' w'. body i s w = Done s' w' \<Longrightarrow> quiet (fst s) (fst s')"
  shows "quiet (fst s) (fst s')"
proof (rule loopP_inv [OF assms(1), of "\<lambda>t w. quiet (fst s) (fst t)"])
  fix i t v t' v' assume "quiet (fst s) (fst t)" "body i t v = Done t' v'"
  then show "quiet (fst s) (fst t')" using assms(2) quiet_trans by blast
qed simp

text \<open>The same for a loop that may be left early: its state component stays related.\<close>

lemma loopX_flow:
  assumes "loopX body is s w = Done f w'" and "P s"
    and "\<And>i s w f w'. P s \<Longrightarrow> body i s w = Done f w' \<Longrightarrow> (case f of Next t \<Rightarrow> P t | Exit r \<Rightarrow> Q r)"
  shows "case f of Next t \<Rightarrow> P t | Exit r \<Rightarrow> Q r"
  using assms
proof (induction "is" arbitrary: s w)
  case (Cons i "is")
  from Cons.prems(1) obtain g v where b: "body i s w = Done g v"
    and l: "(case g of Next t \<Rightarrow> loopX body is t | Exit r \<Rightarrow> ret (Exit r)) v = Done f w'" by auto
  have "case g of Next t \<Rightarrow> P t | Exit r \<Rightarrow> Q r" using Cons.prems(3) [OF Cons.prems(2) b] .
  with l Cons.IH [OF _ _ Cons.prems(3)] show ?case by (cases g) auto
qed auto

lemma ready_step_quiet:
  "ready_step C M L workload tag n worker m w = Done f w' \<Longrightarrow>
   case f of Next m' \<Rightarrow> quiet m m' | Exit r \<Rightarrow> fst r = - 1 \<and> quiet m (snd r)"
  by (fastforce simp: ready_step_def Let_def split: option.splits if_splits dest: from_quietD)

lemma wait_ready_quiet:
  assumes "wait_for_workload_ready C M L nworkers workload tag n m w = Done (st, m') w'"
  shows "quiet m m' \<and> (st = 0 \<or> st = - 1)"
proof -
  obtain f where l: "loopX (ready_step C M L workload tag n) [0..<nworkers] m w = Done f w'"
    and f: "(st, m') = master_status f"
    using assms by (auto simp: wait_for_workload_ready_def)
  have "case f of Next t \<Rightarrow> quiet m t | Exit r \<Rightarrow> fst r = - 1 \<and> quiet m (snd r)"
    by (rule loopX_flow [OF l, of "quiet m"])
      (auto dest!: ready_step_quiet split: flow.splits intro: quiet_trans)
  with f show ?thesis by (auto simp: master_status_def split: flow.splits)
qed

lemma spinless_channel [spinless_intros]:
  "spinless (secure_to C M L tag data worker m)" "spinless (small_to C M L enc tag data worker m)"
  "spinless (bulk_to C M L enc tag data worker m)" "spinless (secure_from C M L tag len worker m)"
  "spinless (small_from C M L enc tag len worker m)" "spinless (bulk_from C M L enc tag blen worker m)"
  "spinless (record_generic_result wl n enc run a b c d m)"
  unfolding secure_to_def small_to_def bulk_to_def secure_from_def small_from_def bulk_from_def
    record_generic_result_def
  by (intro spinless_intros)+


end
