(* ===== verification/Worker_Stream.thy ===== *)
theory Worker_Stream
  imports Npb_Defs
begin

text \<open>
  The worker's STREAM and VMAP workloads (src/worker_npb.c): the kernels as functions on lists of
  doubles, and the whole handlers as programs, with their guards, messages and run loops. A
  handler returns its status (0 or -1) and the worker's channel state.
\<close>

definition send_workload_ready ::
  "crypto \<Rightarrow> 'e mpi \<Rightarrow> comm \<Rightarrow> worker_chan \<Rightarrow> u32 \<Rightarrow> bool \<Rightarrow> u64 \<Rightarrow> int \<Rightarrow> ('e world, worker_chan) prog" where
  "send_workload_ready C M icomm g workload ok element_count tag =
     worker_secure_send C M icomm g
       (encode_workload_ready \<lparr>wr_workload = workload, wr_ok = (if ok then 1 else 0),
          wr_element_count = element_count\<rparr>) tag"

section \<open>STREAM\<close>

definition stream_triad :: "dbl \<Rightarrow> dbl list \<Rightarrow> dbl list \<Rightarrow> dbl list" where
  \<comment> \<open>a[i] = b[i] + scalar * c[i]\<close>
  "stream_triad scalar b c = map2 (\<lambda>bi ci. d_add bi (d_mul scalar ci)) b c"

definition dbl_sum :: "dbl list \<Rightarrow> dbl" where
  "dbl_sum xs = fold (\<lambda>x s. d_add s x) xs 0"

definition stream_worker_result :: "int \<Rightarrow> nat \<Rightarrow> dbl list \<Rightarrow> dbl \<Rightarrow> stream_result" where
  "stream_worker_result run element_count a compute_ms =
     (let checksum = dbl_sum a; expected = d_mul (d_of_nat 7) (d_of_nat element_count)
      in \<lparr>sr_run = i32 run,
          sr_verified = (if d_isfinite checksum \<and> d_eq checksum expected then 1 else 0),
          sr_compute_ms = compute_ms, sr_checksum = checksum\<rparr>)"

definition stream_worker_run ::
  "crypto \<Rightarrow> 'e mpi \<Rightarrow> comm \<Rightarrow> npb_cmd \<Rightarrow> nat \<Rightarrow> dbl list \<Rightarrow> dbl list \<Rightarrow> int \<Rightarrow> worker_chan
    \<Rightarrow> ('e world, (worker_chan, int \<times> worker_chan) flow) prog" where
  \<comment> \<open>one iteration of the run loop\<close>
  "stream_worker_run C M icomm cmd element_count b c run g =
     bindP (worker_workload_recv_small C M icomm g 8 TAG_STREAM_RUN (c_encrypt_data cmd \<noteq> 0)) (\<lambda>r.
     case r of
       None \<Rightarrow> ret (Exit (- 1, g))
     | Some (bs, g) \<Rightarrow>
         if sint (rt_run (decode_run_trigger bs)) \<noteq> run then ret (Exit (- 1, g))
         else
           bindP (mpi_wtime M) (\<lambda>started.
           let a = stream_triad (d_of_nat 3) b c in
           bindP (mpi_wtime M) (\<lambda>finished.
           bindP (worker_workload_send_small C M icomm g
                    (encode_stream_result
                      (stream_worker_result run element_count a (elapsed_ms started finished)))
                    TAG_STREAM_RESULT (c_encrypt_data cmd \<noteq> 0)) (\<lambda>g.
           ret (Next g)))))"

definition flow_status :: "(worker_chan, int \<times> worker_chan) flow \<Rightarrow> int \<times> worker_chan" where
  "flow_status f = (case f of Next g \<Rightarrow> (0, g) | Exit r \<Rightarrow> r)"

definition run_stream_workload ::
  "crypto \<Rightarrow> 'e mpi \<Rightarrow> comm \<Rightarrow> worker_chan \<Rightarrow> npb_cmd \<Rightarrow> ('e world, int \<times> worker_chan) prog" where
  "run_stream_workload C M icomm g cmd =
     (let fail = bindP (send_workload_ready C M icomm g WORKLOAD_STREAM False 0 TAG_STREAM_READY)
                   (\<lambda>g. ret (- 1, g)) in
      if c_stream_array_mib cmd < STREAM_MIN_MIB \<or> c_stream_array_mib cmd > STREAM_MAX_MIB then fail
      else case checked_mib_bytes (c_stream_array_mib cmd) of
        None \<Rightarrow> fail
      | Some array_bytes \<Rightarrow>
          if array_bytes mod 8 \<noteq> 0 then fail
          else
            bindP (on_env (m_malloc M array_bytes)) (\<lambda>ok_a.
            bindP (on_env (m_malloc M array_bytes)) (\<lambda>ok_b.
            bindP (on_env (m_malloc M array_bytes)) (\<lambda>ok_c.
            if \<not> ok_a \<or> \<not> ok_b \<or> \<not> ok_c then fail
            else
              let element_count = array_bytes div 8;
                  b = replicate element_count (d_of_nat 1);
                  c = replicate element_count (d_of_nat 2)
              in
                \<comment> \<open>the warm-up passes fill a with what every timed pass stores there again\<close>
                bindP (send_workload_ready C M icomm g WORKLOAD_STREAM True (of_nat element_count)
                         TAG_STREAM_READY) (\<lambda>g.
                bindP (loopX (stream_worker_run C M icomm cmd element_count b c)
                         [1..sint (c_num_runs cmd)] g) (\<lambda>f. ret (flow_status f)))))))"

lemma dbl_sum_replicate:
  "k * n < 2 ^ 53 \<Longrightarrow> dbl_sum (replicate n (d_of_nat k)) = d_of_nat (k * n)"
proof -
  have "fold (\<lambda>x s. d_add s x) (replicate n (d_of_nat k)) (d_of_nat m) = d_of_nat (m + k * n)"
    if "m + k * n < 2 ^ 53" for m
    using that
  proof (induction n arbitrary: m)
    case (Suc n)
    then have "d_add (d_of_nat m) (d_of_nat k) = d_of_nat (m + k)"
      by (intro d_add_of_nat) simp
    with Suc show ?case by (simp add: add.assoc)
  qed simp
  from this [of 0] show "k * n < 2 ^ 53 \<Longrightarrow> ?thesis" by (simp add: dbl_sum_def d_zero)
qed

lemma triad_replicate:
  "stream_triad (d_of_nat 3) (replicate n (d_of_nat 1)) (replicate n (d_of_nat 2)) = replicate n (d_of_nat 7)"
proof -
  have "d_add (d_of_nat 1) (d_mul (d_of_nat 3) (d_of_nat 2)) = d_of_nat 7"
    by (simp add: d_mul_of_nat d_add_of_nat)
  then show ?thesis by (simp add: stream_triad_def zip_replicate)
qed

lemma stream_verified_aux:
  assumes "n \<le> 2 ^ 24"
  shows "let a = stream_triad (d_of_nat 3) (replicate n (d_of_nat 1)) (replicate n (d_of_nat 2));
             r = stream_worker_result run n a compute_ms
         in sr_verified r = 1 \<and> sr_checksum r = d_of_nat (7 * n) \<and> d_val (sr_checksum r) = 7 * of_nat n \<and>
            d_eq (sr_checksum r) (d_mul (d_of_nat 7) (d_of_nat n))"
proof -
  have b: "7 * n < 2 ^ 53" "n < 2 ^ 53" using assms by auto
  note p = d_of_nat_props [OF b(1)]
  have m: "d_mul (d_of_nat 7) (d_of_nat n) = d_of_nat (7 * n)"
    by (rule d_mul_of_nat) (use b in auto)
  show ?thesis
    unfolding Let_def triad_replicate stream_worker_result_def dbl_sum_replicate [OF b(1)] m
    using d_eq_refl [OF p(2)] p by simp
qed

text \<open>
  For every array size the protocol admits (at most 128 MiB, so 2^24 elements), the worker's
  STREAM checksum in IEEE double arithmetic is exactly 7 times the number of elements: no partial
  sum is rounded. The worker always reports the run as verified, and the central node's equality
  test on the checksum accepts it.
\<close>

theorem stream_always_verified:
  assumes "n \<le> 2 ^ 24"
  shows "let a = stream_triad (d_of_nat 3) (replicate n (d_of_nat 1)) (replicate n (d_of_nat 2));
             r = stream_worker_result run n a compute_ms
         in sr_verified r = 1 \<and> sr_checksum r = d_of_nat (7 * n) \<and> d_val (sr_checksum r) = 7 * of_nat n \<and>
            d_eq (sr_checksum r) (d_mul (d_of_nat 7) (d_of_nat n))"
  using assms by (rule stream_verified_aux)

theorem stream_always_verified_witness:
  "sr_verified (stream_worker_result 1 131072
     (stream_triad (d_of_nat 3) (replicate 131072 (d_of_nat 1)) (replicate 131072 (d_of_nat 2))) 0) = 1"
  using stream_always_verified [of 131072 1 0] by (simp add: Let_def)

section \<open>VMAP\<close>

definition vmap_transform :: "dbl \<Rightarrow> dbl" where
  \<comment> \<open>value * 1.25 + 0.5\<close>
  "vmap_transform value = d_add (d_mul value 0x3FF4000000000000) 0x3FE0000000000000"

definition vmap_samples :: "nat \<Rightarrow> nat list" where
  "vmap_samples element_count = [0, element_count div 2, element_count - 1]"

definition vmap_worker_result :: "int \<Rightarrow> dbl list \<Rightarrow> dbl list \<Rightarrow> dbl \<Rightarrow> vmap_result" where
  "vmap_worker_result run input output compute_ms =
     (let checksum = dbl_sum output;
          verified = d_isfinite checksum \<and>
            list_all (\<lambda>index. d_eq (output ! index) (vmap_transform (input ! index)))
              (vmap_samples (length input))
      in \<lparr>vr_run = i32 run, vr_verified = (if verified then 1 else 0), vr_compute_ms = compute_ms,
          vr_checksum = checksum\<rparr>)"

definition vmap_worker_run ::
  "crypto \<Rightarrow> 'e mpi \<Rightarrow> comm \<Rightarrow> npb_cmd \<Rightarrow> nat \<Rightarrow> int \<Rightarrow> worker_chan
    \<Rightarrow> ('e world, (worker_chan, int \<times> worker_chan) flow) prog" where
  "vmap_worker_run C M icomm cmd block_bytes run g =
     bindP (worker_recv_bulk C M icomm g block_bytes TAG_VMAP_INPUT (c_encrypt_data cmd \<noteq> 0)) (\<lambda>r.
     case r of
       None \<Rightarrow> ret (Exit (- 1, g))
     | Some (bs, g) \<Rightarrow>
         let input = dbls_of_bytes bs in
         bindP (mpi_wtime M) (\<lambda>started.
         let output = map vmap_transform input in
         bindP (mpi_wtime M) (\<lambda>finished.
         bindP (worker_send_bulk C M icomm g (bytes_of_dbls output) TAG_VMAP_OUTPUT
                  (c_encrypt_data cmd \<noteq> 0)) (\<lambda>g.
         bindP (worker_workload_send_small C M icomm g
                  (encode_vmap_result
                    (vmap_worker_result run input output (elapsed_ms started finished)))
                  TAG_VMAP_RESULT (c_encrypt_data cmd \<noteq> 0)) (\<lambda>g.
         ret (Next g))))))"

definition run_vmap_workload ::
  "crypto \<Rightarrow> 'e mpi \<Rightarrow> comm \<Rightarrow> worker_chan \<Rightarrow> npb_cmd \<Rightarrow> ('e world, int \<times> worker_chan) prog" where
  "run_vmap_workload C M icomm g cmd =
     (let fail = bindP (send_workload_ready C M icomm g WORKLOAD_VMAP False 0 TAG_VMAP_READY)
                   (\<lambda>g. ret (- 1, g)) in
      if c_vmap_mib cmd < VMAP_MIN_MIB \<or> c_vmap_mib cmd > VMAP_MAX_MIB then fail
      else case checked_mib_bytes (c_vmap_mib cmd) of
        None \<Rightarrow> fail
      | Some block_bytes \<Rightarrow>
          if block_bytes mod 8 \<noteq> 0 then fail
          else
            bindP (on_env (m_malloc M block_bytes)) (\<lambda>ok_i.
            bindP (on_env (m_malloc M block_bytes)) (\<lambda>ok_o.
            if \<not> ok_i \<or> \<not> ok_o then fail
            else
              bindP (send_workload_ready C M icomm g WORKLOAD_VMAP True (of_nat (block_bytes div 8))
                       TAG_VMAP_READY) (\<lambda>g.
              bindP (loopX (vmap_worker_run C M icomm cmd block_bytes)
                       [1..sint (c_num_runs cmd)] g) (\<lambda>f. ret (flow_status f))))))"

end
