(* ===== verification/Worker_Random.thy ===== *)
theory Worker_Random
  imports Worker_Stream
begin

text \<open>
  The worker's RANDOM workload (src/worker_npb.c): a shuffled order of all indices, the links that
  join the order into one cycle, the timed pointer chase, and the positions from which the worker
  predicts its result without chasing. The uninitialised memory of the links array is the
  parameter \<open>links0\<close>.
\<close>

section \<open>The kernel\<close>

definition shuffle_step :: "nat \<Rightarrow> u64 \<times> u32 list \<Rightarrow> u64 \<times> u32 list" where
  "shuffle_step i s =
     (let rng = xorshift64_step (fst s);
          order = snd s;
          other = unat (rng mod (of_nat (i + 1)))
      in (rng, order[i := order ! other, other := order ! i]))"

definition random_order :: "nat \<Rightarrow> u32 list" where
  "random_order element_count =
     snd (fold shuffle_step (rev [1..<element_count])
       (0x4d595df4d0f33173, map of_nat [0..<element_count]))"

definition link_step :: "nat \<Rightarrow> u32 list \<Rightarrow> nat \<Rightarrow> u32 list \<times> nat \<Rightarrow> u32 list \<times> nat" where
  "link_step element_count order i s =
     (let nxt = (if i + 1 = element_count then 0 else i + 1)
      in ((fst s)[unat (order ! i) := order ! nxt], if order ! i = 0 then i else snd s))"

definition random_links :: "nat \<Rightarrow> u32 list \<Rightarrow> u32 list \<Rightarrow> u32 list \<times> nat" where
  \<comment> \<open>the links and the position of 0\<close>
  "random_links element_count order links0 =
     fold (link_step element_count order) [0..<element_count] (links0, 0)"

definition chase :: "u32 list \<Rightarrow> nat \<Rightarrow> u32 \<Rightarrow> u32" where
  "chase links accesses token = ((\<lambda>t. links ! unat t) ^^ accesses) token"

record random_setup =
  rs_links :: "u32 list"
  rs_warm_token :: u32
  rs_expected_warm_token :: u32
  rs_expected_final_token :: u32

definition random_prepare :: "nat \<Rightarrow> u64 \<Rightarrow> u64 \<Rightarrow> u32 list \<Rightarrow> random_setup" where
  "random_prepare element_count warmup_accesses accesses links0 =
     (let order = random_order element_count;
          (links, zero_position) = random_links element_count order links0;
          warm_token = chase links (unat warmup_accesses) 0;
          warm_position = (zero_position + unat warmup_accesses mod element_count) mod element_count;
          final_position = (warm_position + unat accesses mod element_count) mod element_count
      in \<lparr>rs_links = links, rs_warm_token = warm_token,
          rs_expected_warm_token = order ! warm_position,
          rs_expected_final_token = order ! final_position\<rparr>)"

definition random_worker_result :: "random_setup \<Rightarrow> int \<Rightarrow> u64 \<Rightarrow> dbl \<Rightarrow> random_result" where
  "random_worker_result s run accesses compute_ms =
     (let token = chase (rs_links s) (unat accesses) (rs_warm_token s)
      in \<lparr>rr_run = i32 run, rr_verified = (if token = rs_expected_final_token s then 1 else 0),
          rr_final_token = token, rr_reserved = 0, rr_compute_ms = compute_ms\<rparr>)"

section \<open>The handler\<close>

definition random_worker_run ::
  "crypto \<Rightarrow> 'e mpi \<Rightarrow> comm \<Rightarrow> npb_cmd \<Rightarrow> random_setup \<Rightarrow> int \<Rightarrow> worker_chan
    \<Rightarrow> ('e world, (worker_chan, int \<times> worker_chan) flow) prog" where
  "random_worker_run C M icomm cmd s run g =
     bindP (worker_workload_recv_small C M icomm g 8 TAG_RANDOM_RUN (c_encrypt_data cmd \<noteq> 0)) (\<lambda>r.
     case r of
       None \<Rightarrow> ret (Exit (- 1, g))
     | Some (bs, g) \<Rightarrow>
         if sint (rt_run (decode_run_trigger bs)) \<noteq> run then ret (Exit (- 1, g))
         else
           bindP (mpi_wtime M) (\<lambda>started.
           bindP (mpi_wtime M) (\<lambda>finished.
           bindP (worker_workload_send_small C M icomm g
                    (encode_random_result
                      (random_worker_result s run (c_random_accesses cmd) (elapsed_ms started finished)))
                    TAG_RANDOM_RESULT (c_encrypt_data cmd \<noteq> 0)) (\<lambda>g.
           ret (Next g)))))"

definition run_random_workload ::
  "crypto \<Rightarrow> 'e mpi \<Rightarrow> comm \<Rightarrow> worker_chan \<Rightarrow> npb_cmd \<Rightarrow> u32 list \<Rightarrow> ('e world, int \<times> worker_chan) prog" where
  "run_random_workload C M icomm g cmd links0 =
     (let fail = bindP (send_workload_ready C M icomm g WORKLOAD_RANDOM False 0 TAG_RANDOM_READY)
                   (\<lambda>g. ret (- 1, g)) in
      if c_random_mib cmd < RANDOM_MIN_MIB \<or> c_random_mib cmd > RANDOM_MAX_MIB
         \<or> c_random_accesses cmd = 0 then fail
      else case checked_mib_bytes (c_random_mib cmd) of
        None \<Rightarrow> fail
      | Some link_bytes \<Rightarrow>
          if link_bytes mod 4 \<noteq> 0 then fail
          else let element_count = link_bytes div 4 in
            if element_count = 0 \<or> element_count > 2 ^ 32 - 1 then fail
            else
              bindP (on_env (m_malloc M link_bytes)) (\<lambda>ok_l.
              bindP (on_env (m_malloc M link_bytes)) (\<lambda>ok_o.
              if \<not> ok_l \<or> \<not> ok_o then fail
              else
                let s = random_prepare element_count (c_random_warmup_accesses cmd)
                          (c_random_accesses cmd) links0 in
                if rs_warm_token s \<noteq> rs_expected_warm_token s then fail
                else
                  bindP (send_workload_ready C M icomm g WORKLOAD_RANDOM True (of_nat element_count)
                           TAG_RANDOM_READY) (\<lambda>g.
                  bindP (loopX (random_worker_run C M icomm cmd s)
                           [1..sint (c_num_runs cmd)] g) (\<lambda>f. ret (flow_status f))))))"

section \<open>The order is a permutation\<close>

definition perm_of :: "nat \<Rightarrow> u32 list \<Rightarrow> bool" where
  "perm_of n xs \<longleftrightarrow> length xs = n \<and> distinct xs \<and> set xs = of_nat ` {0..<n}"

lemma shuffle_step_perm:
  assumes "perm_of n (snd s)" and "i < n" and "n < 2 ^ 32"
  shows "perm_of n (snd (shuffle_step i s))"
proof -
  let ?r = "xorshift64_step (fst s)" and ?o = "unat (xorshift64_step (fst s) mod (of_nat (i + 1)))"
  have "unat (of_nat (i + 1) :: u64) = i + 1" using assms(2,3) by (intro unat_u64_of_nat) simp
  then have "?o < i + 1" by (simp add: unat_mod)
  then have o: "?o < length (snd s)" "i < length (snd s)" using assms(1,2) by (auto simp: perm_of_def)
  then show ?thesis using assms(1)
    unfolding shuffle_step_def Let_def perm_of_def snd_conv
    by (simp only: length_list_update distinct_swap [OF o(2,1)] set_swap [OF o(2,1)])
qed

lemma shuffle_fold_perm:
  "n < 2 ^ 32 \<Longrightarrow> perm_of n (snd s) \<Longrightarrow> \<forall>i\<in>set is. i < n \<Longrightarrow> perm_of n (snd (fold shuffle_step is s))"
proof (induction "is" arbitrary: s)
  case (Cons i "is")
  then have "perm_of n (snd (shuffle_step i s))" by (intro shuffle_step_perm) auto
  with Cons show ?case by simp
qed simp

lemma u32_of_nat_inj: "i < 2 ^ 32 \<Longrightarrow> j < 2 ^ 32 \<Longrightarrow> (of_nat i :: u32) = of_nat j \<longleftrightarrow> i = j"
  by (metis unat_u32_of_nat)

lemma random_order_perm:
  assumes "n < 2 ^ 32"
  shows "perm_of n (random_order n)"
proof -
  have "perm_of n (map of_nat [0..<n])"
    using assms by (auto simp: perm_of_def distinct_map inj_on_def u32_of_nat_inj)
  then show ?thesis unfolding random_order_def
    by (intro shuffle_fold_perm) (use assms in auto)
qed

section \<open>The links are one cycle\<close>

lemma perm_unat: "perm_of n order \<Longrightarrow> n < 2 ^ 32 \<Longrightarrow> i < n \<Longrightarrow> unat (order ! i) < n"
proof -
  assume p: "perm_of n order" and n: "n < 2 ^ 32" "i < n"
  then have "order ! i \<in> of_nat ` {0..<n}" by (metis perm_of_def nth_mem)
  then obtain j where "j < n" "order ! i = of_nat j" by auto
  with n show ?thesis by simp
qed

lemma perm_nth_eq: "perm_of n order \<Longrightarrow> i < n \<Longrightarrow> j < n \<Longrightarrow> order ! i = order ! j \<longleftrightarrow> i = j"
  by (auto simp: perm_of_def nth_eq_iff_index_eq)

lemma link_fold:
  assumes p: "perm_of n order" and n: "n < 2 ^ 32" and l: "length links0 = n" and k: "k \<le> n"
  shows "length (fst (fold (link_step n order) [0..<k] (links0, 0))) = n \<and>
    (\<forall>i<k. fst (fold (link_step n order) [0..<k] (links0, 0)) ! unat (order ! i)
             = order ! ((i + 1) mod n)) \<and>
    (\<forall>i<k. order ! i = 0 \<longrightarrow> snd (fold (link_step n order) [0..<k] (links0, 0)) = i)"
  using k
proof (induction k)
  case 0
  then show ?case by (simp add: l)
next
  case (Suc k)
  let ?s = "fold (link_step n order) [0..<k] (links0, 0)"
  have k: "k < n" "k \<le> n" using Suc.prems by auto
  note IH = Suc.IH [OF k(2)]
  have nx: "(if k + 1 = n then 0 else k + 1) = (k + 1) mod n" using k by (auto simp: mod_less)
  have f: "fold (link_step n order) [0..<Suc k] (links0, 0) =
    ((fst ?s)[unat (order ! k) := order ! ((k + 1) mod n)], if order ! k = 0 then k else snd ?s)"
    by (simp add: link_step_def nx [simplified])
  have ne: "unat (order ! i) \<noteq> unat (order ! k)" if "i < k" for i
    using perm_nth_eq [OF p, of i k] that k by (auto simp: word_unat_eq_iff)
  have ub: "unat (order ! k) < length (fst ?s)" using IH perm_unat [OF p n k(1)] by simp
  show ?case unfolding f
  proof (intro conjI allI impI)
    fix i assume i: "i < Suc k"
    show "fst ((fst ?s)[unat (order ! k) := order ! ((k + 1) mod n)], if order ! k = 0 then k else snd ?s)
            ! unat (order ! i) = order ! ((i + 1) mod n)"
      using i IH ne [of i] ub by (cases "i = k") (auto simp: nth_list_update)
    assume z: "order ! i = 0"
    show "snd ((fst ?s)[unat (order ! k) := order ! ((k + 1) mod n)], if order ! k = 0 then k else snd ?s) = i"
    proof (cases "i = k")
      case False
      then have "order ! k \<noteq> 0" using z perm_nth_eq [OF p, of i k] i k by auto
      with False z IH i show ?thesis by simp
    qed (use z in simp)
  qed (use IH in simp)
qed

lemma random_links_cycle:
  assumes "perm_of n order" and "0 < n" and "n < 2 ^ 32" and "length links0 = n"
    and "random_links n order links0 = (links, z)"
  shows "z < n" and "order ! z = 0"
    and "\<And>i. i < n \<Longrightarrow> links ! unat (order ! i) = order ! ((i + 1) mod n)"
proof -
  note r = link_fold [OF assms(1,3,4) order_refl, folded random_links_def, unfolded assms(5)]
  show "\<And>i. i < n \<Longrightarrow> links ! unat (order ! i) = order ! ((i + 1) mod n)" using r by simp
  have "(of_nat 0 :: u32) \<in> of_nat ` {0..<n}" using assms(2) by (intro imageI) simp
  then have "0 \<in> set order" using assms(1) by (simp add: perm_of_def)
  then obtain i where "i < n" "order ! i = 0" using assms(1) by (auto simp: in_set_conv_nth perm_of_def)
  with r show "z < n" "order ! z = 0" by auto
qed

lemma chase_order:
  assumes "\<And>i. i < n \<Longrightarrow> links ! unat (order ! i) = order ! ((i + 1) mod n)" and "z < n"
  shows "chase links k (order ! z) = order ! ((z + k) mod n)"
proof (induction k)
  case (Suc k)
  have "(z + k) mod n < n" using assms(2) by simp
  from assms(1) [OF this] Suc show ?case by (simp add: chase_def mod_simps)
qed (use assms(2) in \<open>simp add: chase_def\<close>)

lemma random_chase_predicted_aux:
  assumes "0 < n" and "n < 2 ^ 32" and "length links0 = n"
  shows "let s = random_prepare n warmup accesses links0
         in rs_warm_token s = rs_expected_warm_token s \<and>
            rr_verified (random_worker_result s run accesses ms) = 1 \<and>
            (\<forall>k. chase (rs_links s) k 0 = 0 \<longleftrightarrow> n dvd k)"
proof -
  note p = random_order_perm [OF assms(2)]
  obtain links z where l: "random_links n (random_order n) links0 = (links, z)" by fastforce
  note c = random_links_cycle [OF p assms l]
  have ch: "chase links k 0 = random_order n ! ((z + k) mod n)" for k
    using chase_order [OF c(3) c(1), of k] c(2) by simp
  have ch2: "chase links (unat accesses) (chase links (unat warmup) 0)
      = random_order n ! ((z + unat warmup + unat accesses) mod n)"
    using ch [of "unat accesses + unat warmup"] by (simp add: chase_def funpow_add ac_simps)
  have "chase links k 0 = 0 \<longleftrightarrow> n dvd k" for k
  proof -
    have "chase links k 0 = 0 \<longleftrightarrow> (z + k) mod n = z"
      using perm_nth_eq [OF p, of "(z + k) mod n" z] c(1,2) ch by simp
    also have "\<dots> \<longleftrightarrow> (z + k) mod n = z mod n" using c(1) by simp
    also have "\<dots> \<longleftrightarrow> n dvd k" using mod_eq_dvd_iff_nat [of z "z + k" n] by simp
    finally show ?thesis .
  qed
  then show ?thesis
    using ch ch2 by (simp add: random_prepare_def random_worker_result_def Let_def l mod_simps add.assoc)
qed

text \<open>
  For every number of elements a RANDOM command can ask for, whatever the memory held before,
  the shuffled links form a single cycle through all of them; the token after the warm-up and the
  token after every timed chase are the ones the worker predicts from positions modulo the cycle
  length, so its set-up never fails and every run it reports is verified.
\<close>

theorem random_chase_predicted:
  assumes "0 < n" and "n < 2 ^ 32" and "length links0 = n"
  shows "let s = random_prepare n warmup accesses links0
         in rs_warm_token s = rs_expected_warm_token s \<and>
            rr_verified (random_worker_result s run accesses ms) = 1 \<and>
            (\<forall>k. chase (rs_links s) k 0 = 0 \<longleftrightarrow> n dvd k)"
  using assms by (rule random_chase_predicted_aux)

theorem random_chase_predicted_witness:
  "rs_warm_token (random_prepare 8388608 5000000 50000000 (replicate 8388608 7))
     = rs_expected_warm_token (random_prepare 8388608 5000000 50000000 (replicate 8388608 7))"
  using random_chase_predicted [of 8388608 "replicate 8388608 7" 5000000 50000000 1 0]
  by (simp add: Let_def)

end
