(* ===== verification/Master_Rounds.thy ===== *)
theory Master_Rounds
  imports Master_State Worker_Random
begin

text \<open>
  The central node's STREAM, RANDOM and VMAP handlers (src/master_npb.c): the command, the wait
  for the workers' set-up, and one timed round per run, which triggers every worker, checks every
  result and stores the round's times. The locale \<open>timed_rounds\<close> is the contract that every
  round function keeps towards the run loop.
\<close>

section \<open>The run loop\<close>

locale timed_rounds =
  fixes round :: "int \<Rightarrow> master_state \<Rightarrow> ('w, (master_state, int \<times> master_state) flow) prog"
    and good :: "npb_result \<Rightarrow> bool"
  assumes next_round: "round i m w = Done (Next m') w' \<Longrightarrow>
      ms_le m m' \<and> (\<exists>r. ms_results m' = ms_results m @ [r] \<and> r_run r = i \<and> good r)"
    and exit_round: "round i m w = Done (Exit r) w' \<Longrightarrow> fst r = - 1 \<and> quiet m (snd r)"
begin

lemma rounds_from:
  assumes "loopX round [a..n] m w = Done f w'"
  shows "case f of
      Next m' \<Rightarrow> ms_le m m' \<and> (\<exists>rs. ms_results m' = ms_results m @ rs \<and> map r_run rs = [a..n] \<and>
        list_all good rs)
    | Exit r \<Rightarrow> fst r = - 1 \<and> ms_le m (snd r) \<and> (\<exists>rs k. ms_results (snd r) = ms_results m @ rs \<and>
        map r_run rs = [a..k] \<and> k < n \<and> list_all good rs)"
  using assms
proof (induction "nat (n - a + 1)" arbitrary: a m w)
  case 0
  then have "[a..n] = []" by simp
  with 0 show ?case by (auto simp: \<open>[a..n] = []\<close>)
next
  case (Suc d)
  then have an: "a \<le> n" by linarith
  then have "[a..n] = a # [a + 1..n]" by (rule upto_rec1)
  with Suc.prems obtain g v where b: "round a m w = Done g v"
    and l: "(case g of Next t \<Rightarrow> loopX round [a + 1..n] t | Exit r \<Rightarrow> ret (Exit r)) v = Done f w'"
    by auto
  show ?case
  proof (cases g)
    case (Exit r)
    with l have f: "f = Exit r" by simp
    have "fst r = - 1" "quiet m (snd r)" using exit_round [of a m w r v] b Exit by auto
    then show ?thesis
      by (auto simp: f quiet_def intro!: exI [of _ "[]"] exI [of _ "a - 1"]) (use an in simp)
  next
    case (Next t)
    then obtain r where t: "ms_le m t" "ms_results t = ms_results m @ [r]" "r_run r = a" "good r"
      using next_round [of a m w t v] b by auto
    from l Next have "loopX round [a + 1..n] t v = Done f w'" by simp
    from Suc.hyps(1) [OF _ this] Suc.hyps(2) have IH: "case f of
      Next m' \<Rightarrow> ms_le t m' \<and> (\<exists>rs. ms_results m' = ms_results t @ rs \<and> map r_run rs = [a + 1..n] \<and>
        list_all good rs)
    | Exit r \<Rightarrow> fst r = - 1 \<and> ms_le t (snd r) \<and> (\<exists>rs k. ms_results (snd r) = ms_results t @ rs \<and>
        map r_run rs = [a + 1..k] \<and> k < n \<and> list_all good rs)" by simp
    show ?thesis
    proof (cases f)
      fix m' assume f: "f = Next m'"
      with IH obtain rs where "ms_le t m'" "ms_results m' = ms_results t @ rs"
        "map r_run rs = [a + 1..n]" "list_all good rs" by auto
      with t f an show ?thesis
        by (auto intro: ms_le_trans intro!: exI [of _ "r # rs"] simp: upto_rec1)
    next
      fix q assume f: "f = Exit q"
      with IH obtain rs k where q: "fst q = - 1" "ms_le t (snd q)" "ms_results (snd q) = ms_results t @ rs"
        "map r_run rs = [a + 1..k]" "k < n" "list_all good rs" by auto
      have "\<exists>k'. map r_run (r # rs) = [a..k'] \<and> k' < n"
      proof (cases "a \<le> k")
        case True
        with q t show ?thesis by (intro exI [of _ k]) (simp add: upto_rec1)
      next
        case False
        then have "rs = []" using q(4) by auto
        moreover have "a < n"
        proof (rule ccontr)
          assume "\<not> a < n"
          then have "a = n" using an by simp
          then have "loopX round [a + 1..n] t v = Done (Next t) v" by simp
          with l Next f show False by simp
        qed
        ultimately show ?thesis using t by (intro exI [of _ a]) simp
      qed
      then obtain k' where "map r_run (r # rs) = [a..k']" "k' < n" by blast
      with q t f show ?thesis
        by (auto intro: ms_le_trans intro!: exI [of _ "r # rs"] exI [of _ k'])
    qed
  qed
qed

text \<open>What a handler that runs the loop from 1 and returns its status leaves behind.\<close>

lemma rounds_counted:
  assumes "loopX round [1..n] m w = Done f w'" and "master_status f = (st, m')"
  shows "ms_le m m' \<and> (\<exists>rs. ms_results m' = ms_results m @ rs \<and> list_all good rs \<and>
    (st = 0 \<and> map r_run rs = [1..n] \<or> st = - 1 \<and> (\<exists>k<n. map r_run rs = [1..k])))"
  using rounds_from [OF assms(1)] assms(2)
  by (fastforce simp: master_status_def split: flow.splits)

end

section \<open>Commands and checks\<close>

definition start_cmd :: "u32 \<Rightarrow> bool \<Rightarrow> int \<Rightarrow> npb_cmd" where
  "start_cmd workload encrypt num_runs =
     npb_cmd_zero\<lparr>c_cmd := CMD_NPB_START, c_workload := workload,
       c_encrypt_data := (if encrypt then 1 else 0), c_num_runs := i32 num_runs\<rparr>"

definition send_command ::
  "crypto \<Rightarrow> 'e mpi \<Rightarrow> links \<Rightarrow> nat \<Rightarrow> npb_cmd \<Rightarrow> master_state \<Rightarrow> ('e world, master_state) prog" where
  "send_command C M L nworkers cmd m =
     loopP (secure_to C M L TAG_NPB_CMD (encode_npb_cmd cmd)) [0..<nworkers] m"

definition stream_result_ok :: "int \<Rightarrow> dbl \<Rightarrow> stream_result \<Rightarrow> bool" where
  "stream_result_ok run expected_checksum r \<longleftrightarrow>
     \<not> (sint (sr_run r) \<noteq> run \<or> sr_verified r = 0 \<or> \<not> d_isfinite (sr_compute_ms r) \<or>
        d_lt (sr_compute_ms r) 0 \<or> \<not> d_eq (sr_checksum r) expected_checksum)"

definition random_result_ok :: "int \<Rightarrow> nat \<Rightarrow> u32 \<Rightarrow> random_result \<Rightarrow> bool" where
  "random_result_ok run worker expected_token r \<longleftrightarrow>
     \<not> (sint (rr_run r) \<noteq> run \<or> rr_verified r = 0 \<or> \<not> d_isfinite (rr_compute_ms r) \<or>
        d_lt (rr_compute_ms r) 0 \<or> (worker > 0 \<and> rr_final_token r \<noteq> expected_token))"

definition vmap_result_ok :: "int \<Rightarrow> dbl \<Rightarrow> vmap_result \<Rightarrow> bool" where
  \<comment> \<open>the constant is 1.0e-9\<close>
  "vmap_result_ok run expected_checksum r \<longleftrightarrow>
     \<not> (sint (vr_run r) \<noteq> run \<or> vr_verified r = 0 \<or> \<not> d_isfinite (vr_compute_ms r) \<or>
        d_lt (vr_compute_ms r) 0 \<or> \<not> d_isfinite (vr_checksum r) \<or>
        d_lt (d_mul 0x3E112E0BE826D695 (d_fmax (d_of_nat 1) (d_abs expected_checksum)))
          (d_abs (d_sub (vr_checksum r) expected_checksum)))"

section \<open>STREAM\<close>

definition stream_collect ::
  "crypto \<Rightarrow> 'e mpi \<Rightarrow> links \<Rightarrow> bool \<Rightarrow> int \<Rightarrow> dbl \<Rightarrow> nat \<Rightarrow> master_state \<times> dbl
    \<Rightarrow> ('e world, (master_state \<times> dbl, int \<times> master_state) flow) prog" where
  "stream_collect C M L encrypt run expected_checksum worker s =
     (case s of (m, compute_max_ms) \<Rightarrow>
      bindP (small_from C M L encrypt TAG_STREAM_RESULT 24 worker m) (\<lambda>r.
      case r of
        None \<Rightarrow> ret (Exit (- 1, m))
      | Some (bs, m') \<Rightarrow>
          let result = decode_stream_result bs in
          if \<not> stream_result_ok run expected_checksum result then ret (Exit (- 1, m'))
          else ret (Next (m', if d_lt compute_max_ms (sr_compute_ms result) then sr_compute_ms result
                              else compute_max_ms))))"

definition stream_master_run ::
  "crypto \<Rightarrow> 'e mpi \<Rightarrow> links \<Rightarrow> nat \<Rightarrow> bool \<Rightarrow> dbl \<Rightarrow> int \<Rightarrow> master_state
    \<Rightarrow> ('e world, (master_state, int \<times> master_state) flow) prog" where
  "stream_master_run C M L nworkers encrypt expected_checksum run m =
     bindP (mpi_wtime M) (\<lambda>started.
     bindP (loopP (small_to C M L encrypt TAG_STREAM_RUN
                     (encode_run_trigger \<lparr>rt_run = i32 run, rt_reserved = 0\<rparr>)) [0..<nworkers] m) (\<lambda>m.
     bindP (mpi_wtime M) (\<lambda>scatter_done.
     bindP (loopX (stream_collect C M L encrypt run expected_checksum) [0..<nworkers] (m, 0)) (\<lambda>f.
     case f of
       Exit r \<Rightarrow> ret (Exit r)
     | Next (m, compute_max_ms) \<Rightarrow>
         bindP (mpi_wtime M) (\<lambda>finished.
         bindP (record_generic_result WORKLOAD_STREAM nworkers encrypt run
                  (elapsed_ms started scatter_done) compute_max_ms
                  (elapsed_ms scatter_done finished) (elapsed_ms started finished) m)
           (\<lambda>m. ret (Next m)))))))"

definition run_stream_master ::
  "crypto \<Rightarrow> 'e mpi \<Rightarrow> links \<Rightarrow> nat \<Rightarrow> bool \<Rightarrow> int \<Rightarrow> u32 \<Rightarrow> u32 \<Rightarrow> master_state
    \<Rightarrow> ('e world, int \<times> master_state) prog" where
  "run_stream_master C M L nworkers encrypt num_runs array_mib warmup m =
     (case checked_mib_bytes array_mib of
        None \<Rightarrow> ret (- 1, m)
      | Some array_bytes \<Rightarrow>
          let element_count = array_bytes div 8 in
          bindP (send_command C M L nworkers
                   ((start_cmd WORKLOAD_STREAM encrypt num_runs)
                      \<lparr>c_stream_array_mib := array_mib, c_stream_warmup := warmup\<rparr>) m) (\<lambda>m.
          bindP (wait_for_workload_ready C M L nworkers WORKLOAD_STREAM TAG_STREAM_READY
                   (of_nat element_count) m) (\<lambda>(status, m).
          if status \<noteq> 0 then ret (- 1, m)
          else bindP (loopX (stream_master_run C M L nworkers encrypt
                              (d_mul (d_of_nat 7) (d_of_nat element_count))) [1..num_runs] m)
                 (\<lambda>f. ret (master_status f)))))"

section \<open>RANDOM\<close>

definition random_collect ::
  "crypto \<Rightarrow> 'e mpi \<Rightarrow> links \<Rightarrow> bool \<Rightarrow> int \<Rightarrow> nat \<Rightarrow> master_state \<times> dbl \<times> u32
    \<Rightarrow> ('e world, (master_state \<times> dbl \<times> u32, int \<times> master_state) flow) prog" where
  "random_collect C M L encrypt run worker s =
     (case s of (m, compute_max_ms, expected_token) \<Rightarrow>
      bindP (small_from C M L encrypt TAG_RANDOM_RESULT 24 worker m) (\<lambda>r.
      case r of
        None \<Rightarrow> ret (Exit (- 1, m))
      | Some (bs, m') \<Rightarrow>
          let result = decode_random_result bs in
          if \<not> random_result_ok run worker expected_token result then ret (Exit (- 1, m'))
          else ret (Next (m', if d_lt compute_max_ms (rr_compute_ms result) then rr_compute_ms result
                              else compute_max_ms,
                          if worker = 0 then rr_final_token result else expected_token))))"

definition random_master_run ::
  "crypto \<Rightarrow> 'e mpi \<Rightarrow> links \<Rightarrow> nat \<Rightarrow> bool \<Rightarrow> int \<Rightarrow> master_state
    \<Rightarrow> ('e world, (master_state, int \<times> master_state) flow) prog" where
  "random_master_run C M L nworkers encrypt run m =
     bindP (mpi_wtime M) (\<lambda>started.
     bindP (loopP (small_to C M L encrypt TAG_RANDOM_RUN
                     (encode_run_trigger \<lparr>rt_run = i32 run, rt_reserved = 0\<rparr>)) [0..<nworkers] m) (\<lambda>m.
     bindP (mpi_wtime M) (\<lambda>scatter_done.
     bindP (loopX (random_collect C M L encrypt run) [0..<nworkers] (m, 0, 0)) (\<lambda>f.
     case f of
       Exit r \<Rightarrow> ret (Exit r)
     | Next (m, compute_max_ms, expected_token) \<Rightarrow>
         bindP (mpi_wtime M) (\<lambda>finished.
         bindP (record_generic_result WORKLOAD_RANDOM nworkers encrypt run
                  (elapsed_ms started scatter_done) compute_max_ms
                  (elapsed_ms scatter_done finished) (elapsed_ms started finished) m)
           (\<lambda>m. ret (Next m)))))))"

definition run_random_master ::
  "crypto \<Rightarrow> 'e mpi \<Rightarrow> links \<Rightarrow> nat \<Rightarrow> bool \<Rightarrow> int \<Rightarrow> u32 \<Rightarrow> u64 \<Rightarrow> u64 \<Rightarrow> master_state
    \<Rightarrow> ('e world, int \<times> master_state) prog" where
  "run_random_master C M L nworkers encrypt num_runs random_mib accesses warmup_accesses m =
     (case checked_mib_bytes random_mib of
        None \<Rightarrow> ret (- 1, m)
      | Some link_bytes \<Rightarrow>
          let element_count = link_bytes div 4 in
          bindP (send_command C M L nworkers
                   ((start_cmd WORKLOAD_RANDOM encrypt num_runs)
                      \<lparr>c_random_mib := random_mib, c_random_accesses := accesses,
                       c_random_warmup_accesses := warmup_accesses\<rparr>) m) (\<lambda>m.
          bindP (wait_for_workload_ready C M L nworkers WORKLOAD_RANDOM TAG_RANDOM_READY
                   (of_nat element_count) m) (\<lambda>(status, m).
          if status \<noteq> 0 then ret (- 1, m)
          else bindP (loopX (random_master_run C M L nworkers encrypt) [1..num_runs] m)
                 (\<lambda>f. ret (master_status f)))))"

section \<open>VMAP\<close>

definition vmap_input_value :: "nat \<Rightarrow> dbl" where
  \<comment> \<open>(double)(index % 4096U) / 128.0 - 8.0\<close>
  "vmap_input_value index = d_sub (d_div (d_of_nat (index mod 4096)) (d_of_nat 128)) (d_of_nat 8)"

definition vmap_inputs :: "nat \<Rightarrow> dbl list" where
  "vmap_inputs element_count = map vmap_input_value [0..<element_count]"

definition vmap_collect ::
  "crypto \<Rightarrow> 'e mpi \<Rightarrow> links \<Rightarrow> bool \<Rightarrow> int \<Rightarrow> nat \<Rightarrow> dbl list \<Rightarrow> dbl \<Rightarrow> nat \<Rightarrow> master_state \<times> dbl
    \<Rightarrow> ('e world, (master_state \<times> dbl, int \<times> master_state) flow) prog" where
  "vmap_collect C M L encrypt run block_bytes input expected_checksum worker s =
     (case s of (m, compute_max_ms) \<Rightarrow>
      bindP (bulk_from C M L encrypt TAG_VMAP_OUTPUT block_bytes worker m) (\<lambda>r.
      case r of
        None \<Rightarrow> ret (Exit (- 1, m))
      | Some (obs, m) \<Rightarrow>
          let output = dbls_of_bytes obs in
          bindP (small_from C M L encrypt TAG_VMAP_RESULT 24 worker m) (\<lambda>r.
          case r of
            None \<Rightarrow> ret (Exit (- 1, m))
          | Some (bs, m) \<Rightarrow>
              let result = decode_vmap_result bs in
              if \<not> vmap_result_ok run expected_checksum result then ret (Exit (- 1, m))
              else if \<not> list_all (\<lambda>index. d_eq (output ! index) (vmap_transform (input ! index)))
                          (vmap_samples (block_bytes div 8)) then ret (Exit (- 1, m))
              else ret (Next (m, if d_lt compute_max_ms (vr_compute_ms result) then vr_compute_ms result
                                 else compute_max_ms)))))"

definition vmap_master_run ::
  "crypto \<Rightarrow> 'e mpi \<Rightarrow> links \<Rightarrow> nat \<Rightarrow> bool \<Rightarrow> nat \<Rightarrow> dbl list \<Rightarrow> dbl \<Rightarrow> int \<Rightarrow> master_state
    \<Rightarrow> ('e world, (master_state, int \<times> master_state) flow) prog" where
  "vmap_master_run C M L nworkers encrypt block_bytes input expected_checksum run m =
     bindP (mpi_wtime M) (\<lambda>started.
     bindP (loopP (bulk_to C M L encrypt TAG_VMAP_INPUT (bytes_of_dbls input)) [0..<nworkers] m) (\<lambda>m.
     bindP (mpi_wtime M) (\<lambda>scatter_done.
     bindP (loopX (vmap_collect C M L encrypt run block_bytes input expected_checksum)
              [0..<nworkers] (m, 0)) (\<lambda>f.
     case f of
       Exit r \<Rightarrow> ret (Exit r)
     | Next (m, compute_max_ms) \<Rightarrow>
         bindP (mpi_wtime M) (\<lambda>finished.
         bindP (record_generic_result WORKLOAD_VMAP nworkers encrypt run
                  (elapsed_ms started scatter_done) compute_max_ms
                  (elapsed_ms scatter_done finished) (elapsed_ms started finished) m)
           (\<lambda>m. ret (Next m)))))))"

definition run_vmap_master ::
  "crypto \<Rightarrow> 'e mpi \<Rightarrow> links \<Rightarrow> nat \<Rightarrow> bool \<Rightarrow> int \<Rightarrow> u32 \<Rightarrow> master_state
    \<Rightarrow> ('e world, int \<times> master_state) prog" where
  "run_vmap_master C M L nworkers encrypt num_runs vmap_mib m =
     (case checked_mib_bytes vmap_mib of
        None \<Rightarrow> ret (- 1, m)
      | Some block_bytes \<Rightarrow>
          if block_bytes mod 8 \<noteq> 0 then ret (- 1, m)
          else
            let element_count = block_bytes div 8 in
            bindP (send_command C M L nworkers
                     ((start_cmd WORKLOAD_VMAP encrypt num_runs)\<lparr>c_vmap_mib := vmap_mib\<rparr>) m) (\<lambda>m.
            bindP (wait_for_workload_ready C M L nworkers WORKLOAD_VMAP TAG_VMAP_READY
                     (of_nat element_count) m) (\<lambda>(status, m).
            if status \<noteq> 0 then ret (- 1, m)
            else
              bindP (on_env (m_malloc M block_bytes)) (\<lambda>ok_i.
              bindP (on_env (m_malloc M block_bytes)) (\<lambda>ok_o.
              if \<not> ok_i \<or> \<not> ok_o then ret (- 1, m)
              else
                let input = vmap_inputs element_count;
                    expected_checksum = dbl_sum (map vmap_transform input)
                in bindP (loopX (vmap_master_run C M L nworkers encrypt block_bytes input
                                   expected_checksum) [1..num_runs] m)
                     (\<lambda>f. ret (master_status f)))))))"

section \<open>The rounds keep their contract\<close>

definition time_ok :: "dbl \<Rightarrow> bool" where
  "time_ok t \<longleftrightarrow> d_isfinite t \<and> \<not> d_lt t 0"

definition good_round :: "u32 \<Rightarrow> nat \<Rightarrow> bool \<Rightarrow> npb_result \<Rightarrow> bool" where
  "good_round workload nworkers encrypt r \<longleftrightarrow> r_workload r = workload \<and> r_num_workers r = nworkers \<and>
     r_encrypted r = encrypt \<and> time_ok (r_t_compute_max_ms r)"

lemma time_ok_0 [simp]: "time_ok 0"
  by (simp add: time_ok_def d_isfinite_def d_lt_def d_mag_def d_inf_mag_def d_isnan_def)

lemma record_resultD:
  "record_generic_result workload nworkers encrypt run a c b d m w = Done m' w' \<Longrightarrow>
   ms_le m m' \<and> (time_ok c \<longrightarrow> (\<exists>r. ms_results m' = ms_results m @ [r] \<and> r_run r = run \<and>
     good_round workload nworkers encrypt r))"
  by (auto simp: record_generic_result_def good_round_def npb_result_zero_def ms_le_def split: if_splits)

lemma stream_collect_kept:
  "quiet m m' \<Longrightarrow> time_ok t \<Longrightarrow> stream_collect C M L encrypt run x i (m', t) w = Done f w' \<Longrightarrow>
   case f of Next u \<Rightarrow> quiet m (fst u) \<and> time_ok (snd u) | Exit r \<Rightarrow> fst r = - 1 \<and> quiet m (snd r)"
  by (fastforce simp: stream_collect_def stream_result_ok_def time_ok_def Let_def
      split: option.splits if_splits dest: from_quietD(2) intro: quiet_trans)

lemma random_collect_kept:
  "quiet m m' \<Longrightarrow> time_ok (fst t) \<Longrightarrow> random_collect C M L encrypt run i (m', t) w = Done f w' \<Longrightarrow>
   case f of Next u \<Rightarrow> quiet m (fst u) \<and> time_ok (fst (snd u)) | Exit r \<Rightarrow> fst r = - 1 \<and> quiet m (snd r)"
  by (cases t) (fastforce simp: random_collect_def random_result_ok_def time_ok_def Let_def
      split: option.splits if_splits dest: from_quietD(2) intro: quiet_trans)

lemma vmap_collect_kept:
  "quiet m m' \<Longrightarrow> time_ok t \<Longrightarrow> vmap_collect C M L encrypt run bb inp x i (m', t) w = Done f w' \<Longrightarrow>
   case f of Next u \<Rightarrow> quiet m (fst u) \<and> time_ok (snd u) | Exit r \<Rightarrow> fst r = - 1 \<and> quiet m (snd r)"
  by (fastforce simp: vmap_collect_def vmap_result_ok_def time_ok_def Let_def
      split: option.splits if_splits dest: from_quietD(2,3) intro: quiet_trans)

text \<open>A trigger phase and a collect phase followed by the record of the round.\<close>

abbreviation (input) round_outcome where
  "round_outcome workload n encrypt run m g \<equiv> (case g of
      Next m' \<Rightarrow> ms_le m m' \<and> (\<exists>r. ms_results m' = ms_results m @ [r] \<and> r_run r = run \<and>
        good_round workload n encrypt r)
    | Exit r \<Rightarrow> fst r = - 1 \<and> quiet m (snd r))"

lemma record_quiet:
  assumes "record_generic_result workload n encrypt run a t b d m1 w = Done m' w'"
    and "quiet m m1" and "time_ok t"
  shows "ms_le m m' \<and> (\<exists>r. ms_results m' = ms_results m @ [r] \<and> r_run r = run \<and>
    good_round workload n encrypt r)"
  using record_resultD [OF assms(1)] assms(2,3) by (auto simp: quiet_def intro: ms_le_trans)

lemma round_contract:
  assumes "bindP (mpi_wtime M) (\<lambda>started. bindP (loopP trigger ws m) (\<lambda>m. bindP (mpi_wtime M) (\<lambda>scatter_done.
      bindP (loopX collect ws (m, s0)) (\<lambda>f. k started scatter_done f)))) w = Done g w'"
    and tr: "\<And>i m w m' w'. trigger i m w = Done m' w' \<Longrightarrow> quiet m m'"
    and co: "\<And>m i m' s w f w'. quiet m m' \<Longrightarrow> P s \<Longrightarrow> collect i (m', s) w = Done f w' \<Longrightarrow>
      (case f of Next t \<Rightarrow> quiet m (fst t) \<and> P (snd t)
       | Exit r \<Rightarrow> fst r = - 1 \<and> quiet m (snd (r :: int \<times> master_state)))"
    and "P s0"
    and ex: "\<And>started scatter_done r. k started scatter_done (Exit r) = ret (Exit r)"
    and fin: "\<And>started scatter_done m1 s w g w'. k started scatter_done (Next (m1, s)) w = Done g w' \<Longrightarrow>
      quiet m m1 \<Longrightarrow> P s \<Longrightarrow> round_outcome workload n encrypt run m g"
  shows "round_outcome workload n encrypt run m g"
proof -
  from assms(1) obtain st m1 w1 w2 sd f w3 w4 where t: "loopP trigger ws m w1 = Done m1 w2"
    and c: "loopX collect ws (m1, s0) w3 = Done f w4" and l: "k st sd f w4 = Done g w'"
    by (elim bindP_DoneE)
  have m1: "quiet m m1" using t tr by (rule loopP_quiet)
  have f: "case f of Next t \<Rightarrow> quiet m (fst t) \<and> P (snd t) | Exit r \<Rightarrow> fst r = - 1 \<and> quiet m (snd r)"
    by (rule loopX_flow [OF c, of "\<lambda>t. quiet m (fst t) \<and> P (snd t)"])
      (use m1 assms(4) co in auto)
  show ?thesis
  proof (cases f)
    case (Exit r)
    with l f show ?thesis by (auto simp: ex)
  next
    case (Next u)
    with f l fin [of st sd "fst u" "snd u" w4 g w'] show ?thesis by simp
  qed
qed

lemma stream_round:
  "stream_master_run C M L n encrypt x run m w = Done g w' \<Longrightarrow>
   round_outcome WORKLOAD_STREAM n encrypt run m g"
  unfolding stream_master_run_def
  by (erule round_contract [where P = time_ok])
    (auto intro: to_quietD stream_collect_kept dest!: record_quiet)

lemma random_round:
  "random_master_run C M L n encrypt run m w = Done g w' \<Longrightarrow>
   round_outcome WORKLOAD_RANDOM n encrypt run m g"
  unfolding random_master_run_def
  by (erule round_contract [where P = "\<lambda>s. time_ok (fst s)"])
    (auto intro: to_quietD random_collect_kept dest!: record_quiet)

lemma vmap_round:
  "vmap_master_run C M L n encrypt bb inp x run m w = Done g w' \<Longrightarrow>
   round_outcome WORKLOAD_VMAP n encrypt run m g"
  unfolding vmap_master_run_def
  by (erule round_contract [where P = time_ok])
    (auto intro: to_quietD vmap_collect_kept dest!: record_quiet)

interpretation stream_rounds: timed_rounds "stream_master_run C M L n encrypt x"
    "good_round WORKLOAD_STREAM n encrypt" for C M L n encrypt x
  by unfold_locales (auto dest: stream_round)

interpretation random_rounds: timed_rounds "random_master_run C M L n encrypt"
    "good_round WORKLOAD_RANDOM n encrypt" for C M L n encrypt
  by unfold_locales (auto dest: random_round)

interpretation vmap_rounds: timed_rounds "vmap_master_run C M L n encrypt bb inp x"
    "good_round WORKLOAD_VMAP n encrypt" for C M L n encrypt bb inp x
  by unfold_locales (auto dest: vmap_round)

section \<open>What the handlers report\<close>

text \<open>
  The contract of a handler towards the main program: the results stored before stay, one result
  per completed run is added in order; status 0 means that every run was completed, status -1 that
  a run was not; and no send counter went back.
\<close>

definition rounds_reported :: "int \<Rightarrow> (npb_result \<Rightarrow> bool) \<Rightarrow> master_state \<Rightarrow> int \<times> master_state \<Rightarrow> bool" where
  "rounds_reported num_runs good m r \<longleftrightarrow> ms_le m (snd r) \<and>
     (\<exists>rs. ms_results (snd r) = ms_results m @ rs \<and> list_all good rs \<and>
        (fst r = 0 \<and> map r_run rs = [1..num_runs] \<or>
         fst r = - 1 \<and> (\<exists>k. k < max 1 num_runs \<and> map r_run rs = [1..k])))"

lemma send_command_quiet: "send_command C M L n cmd m w = Done m' w' \<Longrightarrow> quiet m m'"
  unfolding send_command_def by (erule loopP_quiet) (rule to_quietD)

lemma rounds_failed: "quiet m m' \<Longrightarrow> rounds_reported num_runs good m (- 1, m')"
  by (auto simp: rounds_reported_def quiet_def intro!: exI [of _ "0 :: int"])

lemma quiet_rounds:
  "quiet m m1 \<Longrightarrow> rounds_reported num_runs good m1 r \<Longrightarrow> rounds_reported num_runs good m r"
  by (fastforce simp: rounds_reported_def quiet_def intro: ms_le_trans)

context timed_rounds begin

lemma loop_reported:
  assumes "loopX round [1..n] m w = Done f w'"
  shows "rounds_reported n good m (master_status f)"
proof -
  from rounds_counted [OF assms surjective_pairing]
  obtain rs where "ms_results (snd (master_status f)) = ms_results m @ rs" "list_all good rs"
    "ms_le m (snd (master_status f))"
    "fst (master_status f) = 0 \<and> map r_run rs = [1..n] \<or>
     fst (master_status f) = - 1 \<and> (\<exists>k<n. map r_run rs = [1..k])" by blast
  moreover have "k < max 1 n" if "k < n" for k using that by simp
  ultimately show ?thesis unfolding rounds_reported_def by blast
qed

end

lemma stream_reported:
  "run_stream_master C M L n encrypt num_runs array_mib warmup m w = Done r w' \<Longrightarrow>
   rounds_reported num_runs (good_round WORKLOAD_STREAM n encrypt) m r"
  unfolding run_stream_master_def
  by (auto simp: Let_def split: option.splits if_splits prod.splits
      dest!: send_command_quiet wait_ready_quiet stream_rounds.loop_reported)
    (blast intro: rounds_failed quiet_rounds quiet_trans quiet_refl)+

lemma random_reported:
  "run_random_master C M L n encrypt num_runs random_mib accesses warmups m w = Done r w' \<Longrightarrow>
   rounds_reported num_runs (good_round WORKLOAD_RANDOM n encrypt) m r"
  unfolding run_random_master_def
  by (auto simp: Let_def split: option.splits if_splits prod.splits
      dest!: send_command_quiet wait_ready_quiet random_rounds.loop_reported)
    (blast intro: rounds_failed quiet_rounds quiet_trans quiet_refl)+

lemma vmap_reported:
  "run_vmap_master C M L n encrypt num_runs vmap_mib m w = Done r w' \<Longrightarrow>
   rounds_reported num_runs (good_round WORKLOAD_VMAP n encrypt) m r"
  unfolding run_vmap_master_def
  by (auto simp: Let_def split: option.splits if_splits prod.splits
      dest!: send_command_quiet wait_ready_quiet vmap_rounds.loop_reported)
    (blast intro: rounds_failed quiet_rounds quiet_trans quiet_refl)+

text \<open>
  C35: Whatever the workers send and whatever MPI does, a STREAM, RANDOM or VMAP handler of the
  central node that returns has kept the stored results and added one result per completed run, in
  order, each with a finite non-negative compute time; it returns 0 exactly when all the runs were
  completed; and no nonce counter it sends with has gone back.
\<close>

theorem handlers_report_rounds:
  "on_done (rounds_reported num_runs (good_round WORKLOAD_STREAM n encrypt) m)
     (run_stream_master C M L n encrypt num_runs array_mib warmup m w) \<and>
   on_done (rounds_reported num_runs (good_round WORKLOAD_RANDOM n encrypt) m)
     (run_random_master C M L n encrypt num_runs random_mib accesses warmups m w) \<and>
   on_done (rounds_reported num_runs (good_round WORKLOAD_VMAP n encrypt) m)
     (run_vmap_master C M L n encrypt num_runs vmap_mib m w)"
  by (blast intro: on_doneI stream_reported random_reported vmap_reported)

section \<open>Runs whose failure ends the program\<close>

text \<open>
  The run loop of EP and CG: a run that returns has recorded one result, as long as there is room.
  The loop state is read through \<open>st\<close>.
\<close>

definition run_good :: "u32 \<Rightarrow> nat \<Rightarrow> bool \<Rightarrow> npb_result \<Rightarrow> bool" where
  "run_good workload nworkers encrypt r \<longleftrightarrow> r_workload r = workload \<and> r_num_workers r = nworkers \<and>
     r_encrypted r = encrypt"

locale recorded_runs =
  fixes body :: "int \<Rightarrow> 's \<Rightarrow> ('w, 's) prog"
    and st :: "'s \<Rightarrow> master_state"
    and good :: "npb_result \<Rightarrow> bool"
  assumes run_records: "body i s w = Done s' w' \<Longrightarrow> ms_le (st s) (st s') \<and>
      (length (ms_results (st s)) < MAX_RESULTS \<longrightarrow>
        (\<exists>r. ms_results (st s') = ms_results (st s) @ [r] \<and> r_run r = i \<and> good r))"
begin

lemma runs_from:
  assumes "loopP body [a..n] s w = Done s' w'" and "length (ms_results (st s)) + nat (n - a + 1) \<le> MAX_RESULTS"
  shows "ms_le (st s) (st s') \<and>
    (\<exists>rs. ms_results (st s') = ms_results (st s) @ rs \<and> map r_run rs = [a..n] \<and> list_all good rs)"
  using assms
proof (induction "nat (n - a + 1)" arbitrary: a s w)
  case 0
  then have "[a..n] = []" by simp
  with 0 show ?case by (auto simp: \<open>[a..n] = []\<close>)
next
  case (Suc d)
  then have "a \<le> n" by linarith
  then have u: "[a..n] = a # [a + 1..n]" by (rule upto_rec1)
  with Suc.prems obtain t v where b: "body a s w = Done t v" and l: "loopP body [a + 1..n] t v = Done s' w'" by auto
  have "length (ms_results (st s)) < MAX_RESULTS" using Suc.prems(2) Suc.hyps(2) by linarith
  with run_records [OF b] obtain r where t: "ms_le (st s) (st t)" "ms_results (st t) = ms_results (st s) @ [r]"
    "r_run r = a" "good r" by auto
  have "length (ms_results (st t)) + nat (n - (a + 1) + 1) \<le> MAX_RESULTS"
    using Suc.prems(2) Suc.hyps(2) t(2) by simp
  moreover have "d = nat (n - (a + 1) + 1)" using Suc.hyps(2) by linarith
  ultimately obtain rs where "ms_le (st t) (st s')"
    "ms_results (st s') = ms_results (st t) @ rs" "map r_run rs = [a + 1..n]" "list_all good rs"
    using Suc.hyps(1) [OF _ l] by blast
  with t u show ?case by (auto intro: ms_le_trans intro!: exI [of _ "r # rs"])
qed

end

end
