(* ===== verification/Honest_Workers.thy ===== *)
theory Honest_Workers
  imports Master_Rounds
begin

text \<open>
  The two sides of the STREAM, RANDOM and VMAP protocols together: what a worker that follows
  src/worker_npb.c reports is what the central node of src/master_npb.c accepts. For VMAP this
  rests on the exactness of every floating-point operation involved.
\<close>

section \<open>VMAP in exact arithmetic\<close>

lemma d_exact_512:
  assumes "\<bar>k\<bar> < 2 ^ 53"
  shows "d_exact (of_int k / 512)"
  unfolding d_exact_def
  by (rule exI [of _ k], rule exI [of _ "- 9"]) (use assms in \<open>simp add: power_int_minus\<close>)

text \<open>A finite double whose value is a multiple of 1/512.\<close>

definition d_fix :: "dbl \<Rightarrow> int \<Rightarrow> bool" where
  "d_fix x k \<longleftrightarrow> d_isfinite x \<and> d_val x = of_int k / 512"

lemma d_fix_add: "d_fix x j \<Longrightarrow> d_fix y k \<Longrightarrow> \<bar>j + k\<bar> < 2 ^ 53 \<Longrightarrow> d_fix (d_add x y) (j + k)"
proof -
  assume a: "d_fix x j" "d_fix y k" "\<bar>j + k\<bar> < 2 ^ 53"
  then have v: "d_val x + d_val y = of_int (j + k) / 512" by (simp only: d_fix_def of_int_add add_divide_distrib)
  from d_exact_512 [OF a(3)] have "d_exact (d_val x + d_val y)" by (simp only: v)
  from d_add_exact [OF _ _ this] a v show ?thesis by (simp add: d_fix_def)
qed

lemma d_fix_neg: "d_fix x k \<Longrightarrow> d_fix (d_neg x) (- k)"
  by (simp add: d_fix_def d_neg_props)

lemma d_fix_mul:
  assumes "d_fix x j" and "d_fix y k" and "j * k = 512 * l" and "\<bar>l\<bar> < 2 ^ 53"
  shows "d_fix (d_mul x y) l"
proof -
  have "of_int j * of_int k = (512 * of_int l :: rat)" by (metis assms(3) of_int_mult of_int_numeral)
  then have "(of_int j / 512) * (of_int k / 512) = (of_int l / 512 :: rat)" by (simp add: field_simps)
  then have "d_val x * d_val y = of_int l / 512" using assms(1,2) by (simp only: d_fix_def)
  moreover from d_exact_512 [OF assms(4)] this have "d_exact (d_val x * d_val y)" by (simp only:)
  ultimately show ?thesis using d_mul_exact [of x y] assms(1,2) by (simp only: d_fix_def)
qed

lemma d_fix_of_nat: "n < 2 ^ 44 \<Longrightarrow> d_fix (d_of_nat n) (512 * int n)"
  using d_of_nat_props [of n] by (simp add: d_fix_def)

lemma d_fix_consts: "d_fix 0x3FF4000000000000 640" "d_fix 0x3FE0000000000000 256" "d_fix 0 0"
  by (simp_all add: d_fix_def d_isfinite_def d_val_def d_mag_def d_inf_mag_def d_sign_def bit_simps
      power_int_minus)

lemma d_fix_div128:
  assumes "n < 4096"
  shows "d_fix (d_div (d_of_nat n) (d_of_nat 128)) (4 * int n)"
proof (cases "n = 0")
  case True
  then show ?thesis using d_of_nat_props [of 0] d_of_nat_props [of 128]
      finite_not_special [of "d_of_nat 0"] finite_not_special [of "d_of_nat 128"]
    by (simp add: d_div_def Let_def d_fix_def d_pack_0)
next
  case False
  have e: "d_exact (of_int (4 * int n) / 512)" using assms by (intro d_exact_512) simp
  have n: "n < 2 ^ 53" "(128 :: nat) < 2 ^ 53" using assms by auto
  note p = d_of_nat_props [OF n(1)] and q = d_of_nat_props [OF n(2)]
  have v: "d_val (d_of_nat n) / d_val (d_of_nat 128) = of_int (4 * int n) / 512"
    by (simp add: p q)
  have "d_mag (d_of_nat n) \<noteq> 0" "d_mag (d_of_nat 128) \<noteq> 0" "(of_int (4 * int n) / 512 :: rat) \<noteq> 0"
    using p(4) q(4) False by simp_all
  from d_div_exact [OF p(2) q(2) this(1,2), unfolded v, OF this(3) e] show ?thesis
    unfolding d_fix_def .
qed

lemma block_bound: "int (i mod 4096) \<le> 4095" "0 \<le> int (i mod 4096)"
proof -
  have "i mod 4096 < 4096" by (rule mod_less_divisor) simp
  then show "int (i mod 4096) \<le> 4095" by linarith
qed (rule of_nat_0_le_iff)

definition vmap_fix :: "nat \<Rightarrow> int" where
  "vmap_fix i = 5 * (int (i mod 4096) - 1024) + 256"

lemma vmap_input_fix: "d_fix (vmap_input_value i) (4 * (int (i mod 4096) - 1024))"
proof -
  have "d_fix (d_neg (d_of_nat 8)) (- (512 * 8))" using d_fix_neg [OF d_fix_of_nat [of 8]] by simp
  with d_fix_div128 [of "i mod 4096"]
  have "d_fix (vmap_input_value i) (4 * int (i mod 4096) + - (512 * 8))"
    unfolding vmap_input_value_def d_sub_def
    by (intro d_fix_add) (use block_bound [of i] in simp_all)
  then show ?thesis by (simp add: algebra_simps)
qed

lemma vmap_fix_bound: "\<bar>vmap_fix i\<bar> \<le> 15616"
  using block_bound [of i] by (simp add: vmap_fix_def abs_le_iff)

lemma vmap_transform_fix: "d_fix (vmap_transform (vmap_input_value i)) (vmap_fix i)"
proof -
  let ?k = "int (i mod 4096) - 1024"
  have b: "\<bar>?k\<bar> \<le> 4096" using block_bound [of i] by (simp add: abs_le_iff)
  have "d_fix (d_mul (vmap_input_value i) 0x3FF4000000000000) (5 * ?k)"
    by (rule d_fix_mul [OF vmap_input_fix d_fix_consts(1)]) (use b in auto)
  from d_fix_add [OF this d_fix_consts(2)] b show ?thesis
    by (simp add: vmap_transform_def vmap_fix_def)
qed

lemma dbl_sum_fix:
  assumes "\<And>x. x \<in> set xs \<Longrightarrow> d_fix x (f x) \<and> \<bar>f x\<bar> \<le> 15616" and "length xs \<le> 2 ^ 24"
  shows "d_fix (dbl_sum xs) (sum_list (map f xs))"
proof -
  have "d_fix (fold (\<lambda>x s. d_add s x) xs s) (k + sum_list (map f xs))"
    if "d_fix s k" "\<bar>k\<bar> \<le> 15616 * (2 ^ 24 - int (length xs))" for s k
    using that assms
  proof (induction xs arbitrary: s k)
    case (Cons x xs)
    have x: "d_fix x (f x)" "\<bar>f x\<bar> \<le> 15616" using Cons.prems(3) by auto
    have "\<bar>k + f x\<bar> \<le> 15616 * (2 ^ 24 - int (length xs))" using Cons.prems(2) x(2) by simp
    moreover have "int (length xs) \<ge> 0" by simp
    ultimately have "d_fix (d_add s x) (k + f x)" "\<bar>k + f x\<bar> \<le> 15616 * (2 ^ 24 - int (length xs))"
      using d_fix_add [OF Cons.prems(1) x(1)] by auto
    from Cons.IH [OF this] Cons.prems(3,4) show ?case by (simp add: add.assoc)
  qed simp
  from this [OF d_fix_consts(3)] assms(2) show ?thesis by (simp add: dbl_sum_def)
qed

section \<open>Acceptance\<close>

lemma vmap_outputs_eq:
  assumes "0 < n" and "i \<in> set (vmap_samples n)"
  shows "i < n"
  using assms by (auto simp: vmap_samples_def)

lemma vmap_sum_fix:
  assumes "n \<le> 2 ^ 24"
  shows "d_fix (dbl_sum (map vmap_transform (vmap_inputs n))) (sum_list (map vmap_fix [0..<n]))"
proof -
  define val where "val x = (THE k. d_fix x k)" for x
  have "d_fix x j \<Longrightarrow> d_fix x k \<Longrightarrow> j = k" for x j k by (simp add: d_fix_def)
  then have v: "d_fix x k \<Longrightarrow> val x = k" for x k unfolding val_def by blast
  have w: "val (vmap_transform (vmap_input_value i)) = vmap_fix i" for i
    by (rule v) (rule vmap_transform_fix)
  have "d_fix (dbl_sum (map vmap_transform (vmap_inputs n)))
      (sum_list (map val (map vmap_transform (vmap_inputs n))))"
    by (rule dbl_sum_fix)
      (use assms in \<open>auto simp: vmap_inputs_def w vmap_transform_fix vmap_fix_bound\<close>)
  moreover have "map val (map vmap_transform (vmap_inputs n)) = map vmap_fix [0..<n]"
    by (simp add: vmap_inputs_def w)
  ultimately show ?thesis by simp
qed

lemma vmap_samples_verified:
  assumes "0 < n" and "n \<le> 2 ^ 24"
  shows "list_all (\<lambda>i. d_eq (map vmap_transform (vmap_inputs n) ! i) (vmap_transform (vmap_inputs n ! i)))
    (vmap_samples n)"
proof -
  have "d_eq (map vmap_transform (vmap_inputs n) ! i) (vmap_transform (vmap_inputs n ! i))"
    if "i \<in> set (vmap_samples n)" for i
    using vmap_outputs_eq [OF assms(1) that] vmap_transform_fix [of i]
    by (simp add: vmap_inputs_def d_fix_def d_eq_refl)
  then show ?thesis by (simp add: list_all_iff)
qed

text \<open>The two programs declare the vector map alike and add up its results in the same order.\<close>

lemma vmap_honest:
  assumes "0 < n" and "n \<le> 2 ^ 24" and "time_ok ms" and "- (2 ^ 31) \<le> run" and "run < 2 ^ 31"
  shows "vmap_result_ok run (dbl_sum (map vmap_transform (vmap_inputs n)))
    (vmap_worker_result run (vmap_inputs n) (map vmap_transform (vmap_inputs n)) ms)"
proof -
  let ?s = "dbl_sum (map vmap_transform (vmap_inputs n))"
  have f: "d_isfinite ?s" using vmap_sum_fix [OF assms(2)] by (simp add: d_fix_def)
  have l: "length (vmap_inputs n) = n" by (simp add: vmap_inputs_def)
  have "\<not> d_sign (d_of_nat 1)" using d_of_nat_props(3) [of 1] by simp
  then have "\<not> d_sign (d_fmax (d_of_nat 1) (d_abs ?s))" by (simp add: d_fmax_def d_abs_props)
  then have "\<not> d_sign (d_mul 0x3E112E0BE826D695 (d_fmax (d_of_nat 1) (d_abs ?s)))"
    by (intro d_mul_sign) (simp_all add: d_sign_def bit_simps)
  then have "\<not> d_lt (d_mul 0x3E112E0BE826D695 (d_fmax (d_of_nat 1) (d_abs ?s))) (d_abs (d_sub ?s ?s))"
    by (rule d_not_lt_zero) (simp add: d_abs_props d_sub_self [OF f])
  then show ?thesis
    using vmap_samples_verified [OF assms(1,2)] assms(3) f l sint_i32 [OF assms(4,5)]
    by (simp add: vmap_result_ok_def vmap_worker_result_def Let_def time_ok_def)
qed

lemma random_honest:
  assumes "0 < n" and "n < 2 ^ 32" and "length links0 = n" and "length links1 = n"
    and "time_ok ms" and "- (2 ^ 31) \<le> run" and "run < 2 ^ 31"
  shows "random_result_ok run worker
    (rr_final_token (random_worker_result (random_prepare n warmups accesses links0) run accesses ms0))
    (random_worker_result (random_prepare n warmups accesses links1) run accesses ms)"
proof -
  obtain l0 z0 where l0: "random_links n (random_order n) links0 = (l0, z0)" by fastforce
  obtain l1 z1 where l1: "random_links n (random_order n) links1 = (l1, z1)" by fastforce
  note p = random_order_perm [OF assms(2)]
  note c0 = random_links_cycle [OF p assms(1,2,3) l0] and c1 = random_links_cycle [OF p assms(1,2,4) l1]
  have z: "z0 = z1" using c0(1,2) c1(1,2) perm_nth_eq [OF p, of z0 z1] by simp
  have v: "rr_verified (random_worker_result (random_prepare n warmups accesses links) run accesses ms) = 1"
    if "length links = n" for links ms
    using random_chase_predicted_aux [OF assms(1,2) that] by (simp add: Let_def)
  have t: "rr_final_token (random_worker_result (random_prepare n warmups accesses links) run accesses ms)
      = rs_expected_final_token (random_prepare n warmups accesses links)" if "length links = n" for links ms
    using v [OF that, of ms] by (simp add: random_worker_result_def Let_def split: if_splits)
  have "rs_expected_final_token (random_prepare n warmups accesses links0) =
    rs_expected_final_token (random_prepare n warmups accesses links1)"
    by (simp add: random_prepare_def Let_def l0 l1 z)
  then show ?thesis
    using v [OF assms(4), of ms] t [OF assms(3), of ms0] t [OF assms(4), of ms] assms(5)
      sint_i32 [OF assms(6,7)]
    by (simp add: random_result_ok_def time_ok_def) (simp add: random_worker_result_def Let_def)
qed

lemma stream_honest:
  assumes "n \<le> 2 ^ 24" and "time_ok ms" and "- (2 ^ 31) \<le> run" and "run < 2 ^ 31"
  shows "stream_result_ok run (d_mul (d_of_nat 7) (d_of_nat n))
    (stream_worker_result run n (stream_triad (d_of_nat 3) (replicate n (d_of_nat 1))
       (replicate n (d_of_nat 2))) ms)"
    (is "stream_result_ok run _ ?r")
proof -
  from stream_verified_aux [OF assms(1), of run ms, unfolded Let_def]
  have v: "sr_verified ?r = 1" and e: "d_eq (sr_checksum ?r) (d_mul (d_of_nat 7) (d_of_nat n))"
    by blast+
  have "sint (sr_run ?r) = run" "sr_compute_ms ?r = ms"
    using sint_i32 [OF assms(3,4)] by (simp_all add: stream_worker_result_def Let_def)
  with assms(2) e show ?thesis unfolding stream_result_ok_def v time_ok_def by simp
qed

text \<open>
  C13: Every result that a worker following the protocol computes for a STREAM, RANDOM or VMAP run
  passes the central node's checks, for every size the protocol admits, provided its clock did not
  go back: the STREAM checksum equals the one the central node predicts, all RANDOM workers report
  the token of the first whatever their memory held, and the VMAP checksum and samples agree with the
  central node's own (the sum is exact, so the tolerance is not needed).
\<close>

theorem honest_results_accepted:
  assumes "time_ok ms" and "0 < n" and "n \<le> 2 ^ 24" and "0 < k" and "k < 2 ^ 32"
    and "length links0 = k" and "length links1 = k" and "1 \<le> run" and "run \<le> int MAX_RUNS"
  shows "stream_result_ok run (d_mul (d_of_nat 7) (d_of_nat n))
      (stream_worker_result run n (stream_triad (d_of_nat 3) (replicate n (d_of_nat 1))
         (replicate n (d_of_nat 2))) ms) \<and>
    random_result_ok run worker
      (rr_final_token (random_worker_result (random_prepare k warmups accesses links0) run accesses ms0))
      (random_worker_result (random_prepare k warmups accesses links1) run accesses ms) \<and>
    (let input = vmap_inputs n; output = map vmap_transform input in
     vmap_result_ok run (dbl_sum output) (vmap_worker_result run input output ms) \<and>
     list_all (\<lambda>i. d_eq (output ! i) (vmap_transform (input ! i))) (vmap_samples n) \<and>
     d_val (dbl_sum output) = sum_list (map (\<lambda>i. 5 / 4 * (of_nat (i mod 4096) / 128 - 8) + 1 / 2) [0..<n]))"
proof -
  have r: "- (2 ^ 31) \<le> run" "run < 2 ^ 31" using assms(8,9) by auto
  have "d_val (dbl_sum (map vmap_transform (vmap_inputs n)))
      = of_int (sum_list (map vmap_fix [0..<n])) / 512"
    using vmap_sum_fix [OF assms(3)] by (simp add: d_fix_def)
  also have "\<dots> = sum_list (map (\<lambda>i. 5 / 4 * (of_nat (i mod 4096) / 128 - 8) + 1 / 2) [0..<n])"
    by (induction n) (simp_all add: vmap_fix_def field_simps)
  finally show ?thesis
    using stream_honest [OF assms(3,1) r] random_honest [OF assms(4-7,1) r]
      vmap_honest [OF assms(2,3,1) r] vmap_samples_verified [OF assms(2,3)]
    by (simp only: Let_def)
qed

theorem honest_results_accepted_witness:
  "vmap_result_ok 1 (dbl_sum (map vmap_transform (vmap_inputs 131072)))
     (vmap_worker_result 1 (vmap_inputs 131072) (map vmap_transform (vmap_inputs 131072)) 0)"
  using honest_results_accepted [of 0 131072 8388608 "replicate 8388608 0" "replicate 8388608 7" 1 0 0 0 0]
  by (simp add: Let_def)

end
