(* ===== verification/Worker_Taskq.thy ===== *)
theory Worker_Taskq
  imports Worker_Stream
begin

text \<open>
  The worker's dynamic task queue (src/worker_npb.c, \<open>run_taskq_workload\<close>): the computation of
  one task as a function, and the handler with its receive loop, which the central node ends with
  an END task. \<open>fuel\<close> bounds the tasks of one run that a run of the model follows.
\<close>

definition taskq_samples :: "nat \<Rightarrow> nat list" where
  "taskq_samples payload_bytes = [0, payload_bytes div 2, payload_bytes - 1]"

definition taskq_token :: "u64 \<Rightarrow> u64 \<Rightarrow> int \<Rightarrow> u64" where
  "taskq_token iterations task_id run = (xorshift64_step ^^ unat iterations) (task_initial_token task_id run)"

definition taskq_input_ok :: "u64 \<Rightarrow> int \<Rightarrow> nat \<Rightarrow> bytes \<Rightarrow> bool" where
  "taskq_input_ok task_id run payload_bytes input =
     list_all (\<lambda>index. input ! index = task_input_byte task_id run index) (taskq_samples payload_bytes)"

definition taskq_output_ok :: "u64 \<Rightarrow> int \<Rightarrow> u64 \<Rightarrow> nat \<Rightarrow> bytes \<Rightarrow> bool" where
  "taskq_output_ok task_id run token payload_bytes output =
     list_all (\<lambda>index. output ! index =
         task_output_byte (task_input_byte task_id run index) token task_id index)
       (taskq_samples payload_bytes)"

definition taskq_compute :: "u64 \<Rightarrow> u64 \<Rightarrow> nat \<Rightarrow> bytes \<Rightarrow> bytes" where
  "taskq_compute task_id token payload_bytes input =
     map (\<lambda>i. task_output_byte (input ! i) token task_id i) [0..<payload_bytes]"

definition taskq_worker_result :: "int \<Rightarrow> taskq_task \<Rightarrow> nat \<Rightarrow> bytes \<Rightarrow> dbl \<Rightarrow> taskq_result \<times> bytes" where
  "taskq_worker_result run task payload_bytes input compute_ms =
     (let token = taskq_token (tt_iterations task) (tt_task_id task) run;
          output = taskq_compute (tt_task_id task) token payload_bytes input;
          verified = taskq_input_ok (tt_task_id task) run payload_bytes input \<and>
                     taskq_output_ok (tt_task_id task) run token payload_bytes output
      in (\<lparr>tr_run = i32 run, tr_verified = (if verified then 1 else 0), tr_task_id = tt_task_id task,
           tr_token = token, tr_payload_bytes = tt_payload_bytes task, tr_reserved = 0,
           tr_compute_ms = compute_ms\<rparr>, output))"

definition taskq_task_ok :: "npb_cmd \<Rightarrow> int \<Rightarrow> taskq_task \<Rightarrow> bool" where
  "taskq_task_ok cmd run task \<longleftrightarrow>
     \<not> (tt_command task \<noteq> TASKQ_TASK_WORK \<or> sint (tt_run task) \<noteq> run \<or>
        tt_task_id task \<ge> c_task_count cmd \<or> tt_payload_bytes task \<noteq> c_task_bytes cmd \<or>
        tt_iterations task \<noteq> c_task_iters cmd)"

definition taskq_worker_task ::
  "crypto \<Rightarrow> 'e mpi \<Rightarrow> comm \<Rightarrow> npb_cmd \<Rightarrow> nat \<Rightarrow> int \<Rightarrow> worker_chan
    \<Rightarrow> ('e world, (worker_chan, int \<times> worker_chan) flow) prog" where
  \<comment> \<open>one iteration of the inner loop\<close>
  "taskq_worker_task C M icomm cmd payload_bytes run g =
     bindP (worker_workload_recv_small C M icomm g 32 TAG_TASKQ_TASK (c_encrypt_data cmd \<noteq> 0)) (\<lambda>r.
     case r of
       None \<Rightarrow> ret (Exit (- 1, g))
     | Some (bs, g) \<Rightarrow>
         let task = decode_taskq_task bs in
         if tt_command task = TASKQ_TASK_END
         then ret (Exit (if sint (tt_run task) \<noteq> run then - 1 else 0, g))
         else if \<not> taskq_task_ok cmd run task then ret (Exit (- 1, g))
         else
           bindP (worker_recv_bulk C M icomm g payload_bytes TAG_TASKQ_INPUT (c_encrypt_data cmd \<noteq> 0)) (\<lambda>r.
           case r of
             None \<Rightarrow> ret (Exit (- 1, g))
           | Some (input, g) \<Rightarrow>
               bindP (mpi_wtime M) (\<lambda>started.
               bindP (mpi_wtime M) (\<lambda>finished.
               let (result, output) =
                     taskq_worker_result run task payload_bytes input (elapsed_ms started finished) in
               bindP (worker_workload_send_small C M icomm g (encode_taskq_result result)
                        TAG_TASKQ_RESULT (c_encrypt_data cmd \<noteq> 0)) (\<lambda>g.
               bindP (worker_send_bulk C M icomm g output TAG_TASKQ_OUTPUT (c_encrypt_data cmd \<noteq> 0)) (\<lambda>g.
               ret (Next g)))))))"

definition taskq_worker_run ::
  "nat \<Rightarrow> crypto \<Rightarrow> 'e mpi \<Rightarrow> comm \<Rightarrow> npb_cmd \<Rightarrow> nat \<Rightarrow> int \<Rightarrow> worker_chan
    \<Rightarrow> ('e world, (worker_chan, int \<times> worker_chan) flow) prog" where
  "taskq_worker_run fuel C M icomm cmd payload_bytes run g =
     bindP (worker_workload_recv_small C M icomm g 8 TAG_TASKQ_CONTROL (c_encrypt_data cmd \<noteq> 0)) (\<lambda>r.
     case r of
       None \<Rightarrow> ret (Exit (- 1, g))
     | Some (bs, g) \<Rightarrow>
         let control = decode_taskq_control bs in
         if tc_command control \<noteq> TASKQ_CONTROL_START \<or> sint (tc_run control) \<noteq> run
         then ret (Exit (- 1, g))
         else
           bindP (whileX fuel (taskq_worker_task C M icomm cmd payload_bytes run) g) (\<lambda>(status, g).
           if status = 0 then ret (Next g) else ret (Exit (status, g))))"

definition run_taskq_workload ::
  "nat \<Rightarrow> crypto \<Rightarrow> 'e mpi \<Rightarrow> comm \<Rightarrow> worker_chan \<Rightarrow> npb_cmd \<Rightarrow> ('e world, int \<times> worker_chan) prog" where
  "run_taskq_workload fuel C M icomm g cmd =
     (let fail = bindP (send_workload_ready C M icomm g WORKLOAD_TASKQ False 0 TAG_TASKQ_READY)
                   (\<lambda>g. ret (- 1, g)) in
      if c_task_bytes cmd < TASKQ_MIN_BYTES \<or> c_task_bytes cmd > TASKQ_MAX_BYTES \<or>
         c_task_count cmd = 0 \<or> c_task_iters cmd = 0 then fail
      else
        let payload_bytes = unat (c_task_bytes cmd) in
        bindP (on_env (m_malloc M payload_bytes)) (\<lambda>ok_i.
        bindP (on_env (m_malloc M payload_bytes)) (\<lambda>ok_o.
        if \<not> ok_i \<or> \<not> ok_o then fail
        else
          bindP (send_workload_ready C M icomm g WORKLOAD_TASKQ True (of_nat payload_bytes)
                   TAG_TASKQ_READY) (\<lambda>g.
          bindP (loopX (taskq_worker_run fuel C M icomm cmd payload_bytes)
                   [1..sint (c_num_runs cmd)] g) (\<lambda>f. ret (flow_status f))))))"

section \<open>The computation\<close>

lemma taskq_samples_lt: "0 < payload_bytes \<Longrightarrow> i \<in> set (taskq_samples payload_bytes) \<Longrightarrow> i < payload_bytes"
  by (auto simp: taskq_samples_def)

lemma taskq_worker_verified:
  assumes "0 < payload_bytes" and "input = map (task_input_byte (tt_task_id task) run) [0..<payload_bytes]"
    and "taskq_worker_result run task payload_bytes input ms = (r, output)"
  shows "tr_verified r = 1 \<and> length output = payload_bytes \<and>
    (\<forall>i<payload_bytes. output ! i = task_output_byte (task_input_byte (tt_task_id task) run i)
       (taskq_token (tt_iterations task) (tt_task_id task) run) (tt_task_id task) i)"
  using assms(2,3) taskq_samples_lt [OF assms(1)]
  by (auto simp: taskq_worker_result_def taskq_input_ok_def taskq_output_ok_def taskq_compute_def
      Let_def list_all_iff)

lemma taskq_output_samples:
  assumes "0 < payload_bytes" and "\<forall>i<payload_bytes. output ! i =
      task_output_byte (task_input_byte task_id run i) token task_id i"
  shows "taskq_output_ok task_id run token payload_bytes output"
  using assms(2) taskq_samples_lt [OF assms(1)] by (simp add: taskq_output_ok_def list_all_iff)

end
