(* ===== verification/Master_Taskq.thy ===== *)
theory Master_Taskq
  imports Honest_Workers Worker_Taskq "HOL-Library.Multiset"
begin

text \<open>
  The central node's dynamic task queue (src/master_npb.c: \<open>send_taskq_work\<close>,
  \<open>send_taskq_end\<close>, \<open>run_taskq_master\<close>). The state of one run is the record
  \<open>taskq_run\<close>: the C arrays and counters, and \<open>tq_accepted\<close>, a history of the accepted
  results that the code does not keep. The polling loop is a \<open>whileX\<close> with \<open>fuel\<close> passes.
\<close>

definition send_taskq_work ::
  "crypto \<Rightarrow> 'e mpi \<Rightarrow> links \<Rightarrow> bool \<Rightarrow> nat \<Rightarrow> int \<Rightarrow> u64 \<Rightarrow> u64 \<Rightarrow> u32 \<Rightarrow> master_state
    \<Rightarrow> ('e world, master_state) prog" where
  "send_taskq_work C M L encrypt worker run task_id iterations payload_bytes m =
     bindP (small_to C M L encrypt TAG_TASKQ_TASK
              (encode_taskq_task \<lparr>tt_command = TASKQ_TASK_WORK, tt_run = i32 run, tt_task_id = task_id,
                 tt_iterations = iterations, tt_payload_bytes = payload_bytes, tt_reserved = 0\<rparr>)
              worker m)
       (bulk_to C M L encrypt TAG_TASKQ_INPUT
          (map (task_input_byte task_id run) [0..<unat payload_bytes]) worker)"

definition send_taskq_end ::
  "crypto \<Rightarrow> 'e mpi \<Rightarrow> links \<Rightarrow> bool \<Rightarrow> int \<Rightarrow> nat \<Rightarrow> master_state \<Rightarrow> ('e world, master_state) prog" where
  "send_taskq_end C M L encrypt run worker m =
     small_to C M L encrypt TAG_TASKQ_TASK
       (encode_taskq_task \<lparr>tt_command = TASKQ_TASK_END, tt_run = i32 run, tt_task_id = - 1,
          tt_iterations = 0, tt_payload_bytes = 0, tt_reserved = 0\<rparr>) worker m"

record taskq_run =
  tq_busy :: "bool list"
  tq_assigned :: "u64 list"
  tq_compute_ms :: "dbl list"
  tq_next :: u64
  tq_completed :: u64
  tq_accepted :: "(nat \<times> taskq_result \<times> bytes) list"

definition taskq_start :: "nat \<Rightarrow> taskq_run" where
  "taskq_start nworkers = \<lparr>tq_busy = replicate nworkers False, tq_assigned = replicate nworkers 0,
     tq_compute_ms = replicate nworkers 0, tq_next = 0, tq_completed = 0, tq_accepted = []\<rparr>"

text \<open>The parameters of a TASKQ command.\<close>

record taskq_job =
  tj_count :: u64
  tj_bytes :: u32
  tj_iterations :: u64

definition taskq_assign ::
  "crypto \<Rightarrow> 'e mpi \<Rightarrow> links \<Rightarrow> bool \<Rightarrow> taskq_job \<Rightarrow> int \<Rightarrow> nat \<Rightarrow> taskq_run \<times> master_state
    \<Rightarrow> ('e world, taskq_run \<times> master_state) prog" where
  "taskq_assign C M L encrypt job run worker s =
     (case s of (q, m) \<Rightarrow>
      if tq_next q < tj_count job then
        bindP (send_taskq_work C M L encrypt worker run (tq_next q) (tj_iterations job) (tj_bytes job) m) (\<lambda>m.
        ret (q\<lparr>tq_assigned := (tq_assigned q)[worker := tq_next q], tq_next := tq_next q + 1,
               tq_busy := (tq_busy q)[worker := True]\<rparr>, m))
      else ret (q, m))"

definition taskq_result_ok :: "taskq_job \<Rightarrow> int \<Rightarrow> u64 \<Rightarrow> taskq_result \<Rightarrow> bool" where
  "taskq_result_ok job run assigned r \<longleftrightarrow>
     \<not> (sint (tr_run r) \<noteq> run \<or> tr_verified r = 0 \<or> tr_task_id r \<noteq> assigned \<or>
        tr_payload_bytes r \<noteq> tj_bytes job \<or> \<not> d_isfinite (tr_compute_ms r) \<or> d_lt (tr_compute_ms r) 0)"

definition taskq_complete :: "nat \<Rightarrow> taskq_result \<Rightarrow> bytes \<Rightarrow> taskq_run \<Rightarrow> taskq_run" where
  "taskq_complete worker result output q =
     q\<lparr>tq_compute_ms := (tq_compute_ms q)[worker := d_add (tq_compute_ms q ! worker) (tr_compute_ms result)],
       tq_completed := tq_completed q + 1, tq_busy := (tq_busy q)[worker := False],
       tq_accepted := tq_accepted q @ [(worker, result, output)]\<rparr>"

definition taskq_poll ::
  "crypto \<Rightarrow> 'e mpi \<Rightarrow> links \<Rightarrow> bool \<Rightarrow> taskq_job \<Rightarrow> u64 list \<Rightarrow> int \<Rightarrow> nat \<Rightarrow> taskq_run \<times> master_state
    \<Rightarrow> ('e world, (taskq_run \<times> master_state, taskq_run \<times> master_state) flow) prog" where
  "taskq_poll C M L encrypt job jump run worker s =
     (case s of (q, m) \<Rightarrow>
      if \<not> tq_busy q ! worker then ret (Next (q, m))
      else
        bindP (mpi_iprobe_f M TAG_TASKQ_RESULT (lk_workers L ! worker)) (\<lambda>flag.
        if \<not> flag then ret (Next (q, m))
        else
          bindP (small_from C M L encrypt TAG_TASKQ_RESULT 40 worker m) (\<lambda>r.
          case r of
            None \<Rightarrow> ret (Exit (q, m))
          | Some (bs, m) \<Rightarrow>
              let result = decode_taskq_result bs in
              if \<not> taskq_result_ok job run (tq_assigned q ! worker) result then ret (Exit (q, m))
              else
                bindP (bulk_from C M L encrypt TAG_TASKQ_OUTPUT (unat (tj_bytes job)) worker m) (\<lambda>r.
                case r of
                  None \<Rightarrow> ret (Exit (q, m))
                | Some (output, m) \<Rightarrow>
                    let expected_token =
                          linear_map_apply jump (task_initial_token (tr_task_id result) run) in
                    if tr_token result \<noteq> expected_token then ret (Exit (q, m))
                    else if \<not> taskq_output_ok (tr_task_id result) run expected_token
                                (unat (tj_bytes job)) output then ret (Exit (q, m))
                    else
                      bindP (taskq_assign C M L encrypt job run worker
                               (taskq_complete worker result output q, m)) (\<lambda>s.
                      ret (Next s))))))"

definition taskq_pass ::
  "crypto \<Rightarrow> 'e mpi \<Rightarrow> links \<Rightarrow> nat \<Rightarrow> bool \<Rightarrow> taskq_job \<Rightarrow> u64 list \<Rightarrow> int \<Rightarrow> taskq_run \<times> master_state
    \<Rightarrow> ('e world, (taskq_run \<times> master_state, int \<times> taskq_run \<times> master_state) flow) prog" where
  "taskq_pass C M L nworkers encrypt job jump run s =
     (if \<not> tq_completed (fst s) < tj_count job then ret (Exit (0, s))
      else bindP (loopX (taskq_poll C M L encrypt job jump run) [0..<nworkers] s) (\<lambda>f.
        case f of Next s \<Rightarrow> ret (Next s) | Exit s \<Rightarrow> ret (Exit (- 1, s))))"

definition taskq_dispatch ::
  "nat \<Rightarrow> crypto \<Rightarrow> 'e mpi \<Rightarrow> links \<Rightarrow> nat \<Rightarrow> bool \<Rightarrow> taskq_job \<Rightarrow> u64 list \<Rightarrow> int \<Rightarrow> master_state
    \<Rightarrow> ('e world, dbl \<times> int \<times> taskq_run \<times> master_state) prog" where
  \<comment> \<open>the first tasks, the clock, and the polling loop\<close>
  "taskq_dispatch fuel C M L nworkers encrypt job jump run m =
     bindP (loopP (taskq_assign C M L encrypt job run) [0..<nworkers] (taskq_start nworkers, m)) (\<lambda>s.
     bindP (mpi_wtime M) (\<lambda>scatter_done.
     bindP (whileX fuel (taskq_pass C M L nworkers encrypt job jump run) s) (\<lambda>(status, s).
     ret (scatter_done, status, s))))"

definition taskq_compute_max :: "nat \<Rightarrow> taskq_run \<Rightarrow> dbl" where
  "taskq_compute_max nworkers q =
     fold (\<lambda>worker t. if d_lt t (tq_compute_ms q ! worker) then tq_compute_ms q ! worker else t)
       [0..<nworkers] 0"

definition taskq_master_run ::
  "nat \<Rightarrow> crypto \<Rightarrow> 'e mpi \<Rightarrow> links \<Rightarrow> nat \<Rightarrow> bool \<Rightarrow> taskq_job \<Rightarrow> u64 list \<Rightarrow> int \<Rightarrow> master_state
    \<Rightarrow> ('e world, (master_state, int \<times> master_state) flow) prog" where
  "taskq_master_run fuel C M L nworkers encrypt job jump run m =
     bindP (mpi_wtime M) (\<lambda>started.
     bindP (loopP (small_to C M L encrypt TAG_TASKQ_CONTROL
                     (encode_taskq_control \<lparr>tc_command = TASKQ_CONTROL_START, tc_run = i32 run\<rparr>))
              [0..<nworkers] m) (\<lambda>m.
     bindP (taskq_dispatch fuel C M L nworkers encrypt job jump run m) (\<lambda>(scatter_done, status, q, m).
     if status \<noteq> 0 then ret (Exit (status, m))
     else
       bindP (mpi_wtime M) (\<lambda>finished.
       bindP (loopP (send_taskq_end C M L encrypt run) [0..<nworkers] m) (\<lambda>m.
       bindP (record_generic_result WORKLOAD_TASKQ nworkers encrypt run
                (elapsed_ms started scatter_done) (taskq_compute_max nworkers q)
                (elapsed_ms scatter_done finished) (elapsed_ms started finished) m)
         (\<lambda>m. ret (Next m)))))))"

definition run_taskq_master ::
  "nat \<Rightarrow> crypto \<Rightarrow> 'e mpi \<Rightarrow> links \<Rightarrow> nat \<Rightarrow> bool \<Rightarrow> int \<Rightarrow> u64 \<Rightarrow> u32 \<Rightarrow> u64 \<Rightarrow> master_state
    \<Rightarrow> ('e world, int \<times> master_state) prog" where
  "run_taskq_master fuel C M L nworkers encrypt num_runs task_count payload_bytes iterations m =
     bindP (on_env (m_malloc M (unat payload_bytes))) (\<lambda>ok_i.
     bindP (on_env (m_malloc M (unat payload_bytes))) (\<lambda>ok_o.
     if \<not> ok_i \<or> \<not> ok_o then ret (- 1, m)
     else
       let jump = build_xorshift_jump iterations in
       bindP (send_command C M L nworkers
                ((start_cmd WORKLOAD_TASKQ encrypt num_runs)
                   \<lparr>c_task_count := task_count, c_task_bytes := payload_bytes,
                    c_task_iters := iterations\<rparr>) m) (\<lambda>m.
       bindP (wait_for_workload_ready C M L nworkers WORKLOAD_TASKQ TAG_TASKQ_READY
                (of_nat (unat payload_bytes)) m) (\<lambda>(status, m).
       if status \<noteq> 0 then ret (- 1, m)
       else bindP (loopX (taskq_master_run fuel C M L nworkers encrypt
                            \<lparr>tj_count = task_count, tj_bytes = payload_bytes, tj_iterations = iterations\<rparr>
                            jump) [1..num_runs] m)
              (\<lambda>f. ret (master_status f))))))"

section \<open>The scheduler's invariant\<close>

definition busy_set :: "taskq_run \<Rightarrow> nat set" where
  "busy_set q = {w. w < length (tq_busy q) \<and> tq_busy q ! w}"

definition outstanding :: "taskq_run \<Rightarrow> u64 multiset" where
  "outstanding q = image_mset (\<lambda>w. tq_assigned q ! w) (mset_set (busy_set q))"

definition accepted_ids :: "taskq_run \<Rightarrow> u64 list" where
  "accepted_ids q = map (\<lambda>(w, r, out). tr_task_id r) (tq_accepted q)"

definition accepted_ok :: "taskq_job \<Rightarrow> int \<Rightarrow> nat \<times> taskq_result \<times> bytes \<Rightarrow> bool" where
  "accepted_ok job run a \<longleftrightarrow> (case a of (w, r, out) \<Rightarrow>
     sint (tr_run r) = run \<and> tr_verified r \<noteq> 0 \<and> tr_payload_bytes r = tj_bytes job \<and>
     tr_token r = taskq_token (tj_iterations job) (tr_task_id r) run \<and>
     taskq_output_ok (tr_task_id r) run (tr_token r) (unat (tj_bytes job)) out)"

definition tq_shape :: "nat \<Rightarrow> taskq_run \<Rightarrow> bool" where
  "tq_shape n q \<longleftrightarrow> length (tq_busy q) = n \<and> length (tq_assigned q) = n \<and> length (tq_compute_ms q) = n"

definition tq_inv :: "nat \<Rightarrow> taskq_job \<Rightarrow> int \<Rightarrow> taskq_run \<Rightarrow> bool" where
  "tq_inv n job run q \<longleftrightarrow> tq_shape n q \<and> tq_next q \<le> tj_count job \<and>
     unat (tq_completed q) = length (tq_accepted q) \<and>
     mset (accepted_ids q) + outstanding q = mset (map of_nat [0..<unat (tq_next q)]) \<and>
     list_all (accepted_ok job run) (tq_accepted q)"

lemma finite_busy [simp]: "finite (busy_set q)"
  by (simp add: busy_set_def)

lemma outstanding_same:
  assumes "w \<notin> busy_set q"
  shows "image_mset (\<lambda>v. (tq_assigned q)[w := x] ! v) (mset_set (busy_set q)) = outstanding q"
  unfolding outstanding_def 
  by (intro image_mset_cong) (use assms nth_list_update_neq in \<open>metis finite_set_mset_mset_set finite_busy\<close>)

lemma outstanding_size: "size (outstanding q) = card (busy_set q)"
  by (simp add: outstanding_def size_mset_set)

lemma tq_inv_size:
  assumes "tq_inv n job run q"
  shows "length (tq_accepted q) + card (busy_set q) = unat (tq_next q)"
proof -
  have "size (mset (accepted_ids q) + outstanding q) = unat (tq_next q)"
    using assms by (simp add: tq_inv_def)
  then show ?thesis by (simp add: outstanding_size accepted_ids_def)
qed

lemma less_not_max: "(x :: u64) < y \<Longrightarrow> x \<noteq> - 1"
  using word_order.extremum_strict [of y] by auto

lemma tq_assign_inv:
  assumes "tq_inv n job run q" and "w < n" and "\<not> tq_busy q ! w" and "tq_next q < tj_count job"
  shows "tq_inv n job run (q\<lparr>tq_assigned := (tq_assigned q)[w := tq_next q], tq_next := tq_next q + 1,
    tq_busy := (tq_busy q)[w := True]\<rparr>)" (is "tq_inv n job run ?q")
proof -
  have sh: "tq_shape n q" using assms(1) by (simp add: tq_inv_def)
  have w: "w \<notin> busy_set q" using assms(3) by (simp add: busy_set_def)
  have b: "busy_set ?q = insert w (busy_set q)"
    using assms(2) sh by (auto simp: busy_set_def tq_shape_def nth_list_update split: if_splits)
  have ne: "tq_next q \<noteq> - 1" using assms(4) by (rule less_not_max)
  have u: "unat (tq_next q + 1) = Suc (unat (tq_next q))" using ne by (rule unat_succ)
  have o: "outstanding ?q = add_mset (tq_next q) (outstanding q)"
    using w assms(2) sh outstanding_same [OF w] by (simp add: outstanding_def b tq_shape_def)
  have "tq_next q + 1 \<le> tj_count job" using assms(4) u by (simp add: word_le_nat_alt word_less_nat_alt)
  then show ?thesis using assms(1) o u
    by (simp add: tq_inv_def tq_shape_def accepted_ids_def)
qed

lemma tq_complete_inv:
  assumes "tq_inv n job run q" and "w < n" and "tq_busy q ! w" and "tr_task_id r = tq_assigned q ! w"
    and "accepted_ok job run (w, r, out)"
  shows "tq_inv n job run (taskq_complete w r out q)" (is "tq_inv n job run ?q")
proof -
  have sh: "tq_shape n q" using assms(1) by (simp add: tq_inv_def)
  have w: "w \<in> busy_set q" using assms(2,3) sh by (simp add: busy_set_def tq_shape_def)
  have b: "busy_set ?q = busy_set q - {w}"
    using sh assms(2) by (auto simp: busy_set_def taskq_complete_def tq_shape_def nth_list_update split: if_splits)
  have o: "outstanding q = add_mset (tr_task_id r) (outstanding ?q)"
    using mset_set.remove [OF finite_busy w]
    by (simp add: outstanding_def b assms(4)) (simp add: taskq_complete_def)
  have "length (tq_accepted q) < unat (tq_next q)"
    using tq_inv_size [OF assms(1)] w by (metis card_gt_0_iff empty_iff finite_busy less_add_same_cancel1)
  then have "unat (tq_completed q) < unat (tq_next q)" using assms(1) by (simp add: tq_inv_def)
  then have "tq_completed q < tq_next q" by (simp add: word_less_nat_alt)
  then have "tq_completed q \<noteq> - 1" by (rule less_not_max)
  then have "unat (tq_completed q + 1) = Suc (unat (tq_completed q))" by (rule unat_succ)
  then show ?thesis using assms(1,5) o
    by (simp add: tq_inv_def tq_shape_def accepted_ids_def) (simp add: taskq_complete_def)
qed

section \<open>The handler keeps it\<close>

definition tq_full :: "nat \<Rightarrow> taskq_job \<Rightarrow> taskq_run \<Rightarrow> bool" where
  \<comment> \<open>while a task is left every worker has one\<close>
  "tq_full n job q \<longleftrightarrow> tq_next q < tj_count job \<longrightarrow> (\<forall>w<n. tq_busy q ! w)"

lemma send_taskq_work_quiet:
  "send_taskq_work C M L encrypt worker run task_id iterations pb m w = Done m' w' \<Longrightarrow> quiet m m'"
  by (auto simp: send_taskq_work_def dest!: to_quietD intro: quiet_trans)

lemma send_taskq_end_quiet:
  "send_taskq_end C M L encrypt run worker m w = Done m' w' \<Longrightarrow> quiet m m'"
  by (auto simp: send_taskq_end_def dest!: to_quietD)

lemma taskq_assign_Done:
  assumes "taskq_assign C M L encrypt job run worker (q, m) w = Done s w'"
    and "tq_inv n job run q" and "worker < n" and "\<not> tq_busy q ! worker"
  shows "quiet m (snd s) \<and> tq_inv n job run (fst s) \<and>
    (tq_next (fst s) < tj_count job \<longrightarrow> (\<forall>v<n. tq_busy (fst s) ! v \<longleftrightarrow> v = worker \<or> tq_busy q ! v)) \<and>
    tq_completed (fst s) = tq_completed q \<and> tq_next q \<le> tq_next (fst s) \<and>
    (\<forall>v<n. v \<noteq> worker \<longrightarrow> tq_busy (fst s) ! v = tq_busy q ! v)"
proof (cases "tq_next q < tj_count job")
  case True
  with assms(1) obtain m1 where m1: "quiet m m1" and s: "s = (q\<lparr>tq_assigned := (tq_assigned q)[worker := tq_next q],
      tq_next := tq_next q + 1, tq_busy := (tq_busy q)[worker := True]\<rparr>, m1)"
    by (auto simp: taskq_assign_def dest: send_taskq_work_quiet)
  have "length (tq_busy q) = n" using assms(2) by (simp add: tq_inv_def tq_shape_def)
  then show ?thesis using tq_assign_inv [OF assms(2-4) True] m1 assms(3) ctr_succ [OF less_not_max [OF True]]
    by (auto simp: s nth_list_update)
next
  case False
  with assms show ?thesis by (auto simp: taskq_assign_def)
qed

lemma taskq_poll_kept:
  assumes "taskq_poll C M L encrypt job (build_xorshift_jump (tj_iterations job)) run worker (q, m) w = Done f w'"
    and "worker < n" and "tq_inv n job run q" and "tq_full n job q" and "quiet m0 m"
  shows "case f of
      Next s \<Rightarrow> tq_inv n job run (fst s) \<and> tq_full n job (fst s) \<and> quiet m0 (snd s)
    | Exit s \<Rightarrow> tq_inv n job run (fst s) \<and> quiet m0 (snd s)"
proof -
  let ?jump = "build_xorshift_jump (tj_iterations job)"
  show ?thesis
  proof (cases "\<exists>s v. f = Next s \<and> tq_busy q ! worker \<and>
      mpi_iprobe_f M TAG_TASKQ_RESULT (lk_workers L ! worker) w = Done True v")
    case False
    with assms show ?thesis
      by (cases f) (fastforce simp: taskq_poll_def Let_def split: if_splits option.splits
          dest: from_quietD(2,3) intro: quiet_trans)+
  next
    case True
    then obtain s v where f: "f = Next s" and b: "tq_busy q ! worker"
      and "mpi_iprobe_f M TAG_TASKQ_RESULT (lk_workers L ! worker) w = Done True v" by blast
    with assms(1) obtain bs m1 out m2 v2 v3 v4 where
      1: "small_from C M L encrypt TAG_TASKQ_RESULT 40 worker m v = Done (Some (bs, m1)) v2" and
      2: "taskq_result_ok job run (tq_assigned q ! worker) (decode_taskq_result bs)" and
      3: "bulk_from C M L encrypt TAG_TASKQ_OUTPUT (unat (tj_bytes job)) worker m1 v2 = Done (Some (out, m2)) v3" and
      4: "tr_token (decode_taskq_result bs) =
            linear_map_apply ?jump (task_initial_token (tr_task_id (decode_taskq_result bs)) run)" and
      5: "taskq_output_ok (tr_task_id (decode_taskq_result bs)) run
            (tr_token (decode_taskq_result bs)) (unat (tj_bytes job)) out" and
      6: "taskq_assign C M L encrypt job run worker
            (taskq_complete worker (decode_taskq_result bs) out q, m2) v3 = Done s v4"
      by (auto simp: taskq_poll_def Let_def split: if_splits option.splits)
    let ?r = "decode_taskq_result bs" and ?q = "taskq_complete worker (decode_taskq_result bs) out q"
    have ok: "accepted_ok job run (worker, ?r, out)"
      using 2 4 5 by (simp add: accepted_ok_def taskq_result_ok_def taskq_token_def jump_apply)
    have i: "tq_inv n job run ?q"
      using 2 by (intro tq_complete_inv [OF assms(3,2) b _ ok]) (simp add: taskq_result_ok_def)
    have sh: "length (tq_busy q) = n" using assms(3) by (simp add: tq_inv_def tq_shape_def)
    have nb: "\<not> tq_busy ?q ! worker" "tq_next ?q = tq_next q"
        "\<And>v. v \<noteq> worker \<Longrightarrow> tq_busy ?q ! v = tq_busy q ! v"
      using sh assms(2) by (simp_all add: taskq_complete_def)
    note a = taskq_assign_Done [OF 6 i assms(2) nb(1)]
    have "tq_full n job (fst s)"
      using a nb(2,3) assms(4) unfolding tq_full_def by (metis order_le_less_trans)
    moreover have "quiet m0 (snd s)"
      using assms(5) from_quietD(2) [OF 1] from_quietD(3) [OF 3] a by (blast intro: quiet_trans)
    ultimately show ?thesis using a by (simp add: f)
  qed
qed

lemma taskq_polls_kept:
  assumes "loopX (taskq_poll C M L encrypt job (build_xorshift_jump (tj_iterations job)) run) ws s w = Done f w'"
    and "\<forall>i\<in>set ws. i < n" and "tq_inv n job run (fst s)" and "tq_full n job (fst s)" and "quiet m0 (snd s)"
  shows "case f of
      Next s \<Rightarrow> tq_inv n job run (fst s) \<and> tq_full n job (fst s) \<and> quiet m0 (snd s)
    | Exit s \<Rightarrow> tq_inv n job run (fst s) \<and> quiet m0 (snd s)"
  using assms
proof (induction ws arbitrary: s w)
  case (Cons i ws)
  from Cons.prems(1) obtain g v where
    b: "taskq_poll C M L encrypt job (build_xorshift_jump (tj_iterations job)) run i s w = Done g v"
    and l: "(case g of Next t \<Rightarrow>
        loopX (taskq_poll C M L encrypt job (build_xorshift_jump (tj_iterations job)) run) ws t
      | Exit r \<Rightarrow> ret (Exit r)) v = Done f w'" by auto
  have "i < n" using Cons.prems(2) by simp
  from b have "taskq_poll C M L encrypt job (build_xorshift_jump (tj_iterations job)) run i (fst s, snd s) w
      = Done g v" by simp
  note k = taskq_poll_kept [OF this \<open>i < n\<close> Cons.prems(3-5)]
  show ?case
  proof (cases g)
    case (Next t)
    with k b l Cons.IH [of t v] Cons.prems(2) show ?thesis by simp
  next
    case (Exit r)
    with k b l show ?thesis by auto
  qed
qed auto

section \<open>What a run delivers\<close>

lemma tq_start:
  "tq_inv n job run (taskq_start n)"
proof -
  have "busy_set (taskq_start n) = {}" by (auto simp: busy_set_def taskq_start_def)
  then show ?thesis by (simp add: tq_inv_def tq_shape_def accepted_ids_def outstanding_def)
      (simp add: taskq_start_def)
qed

lemma tq_first_tasks:
  assumes "loopP (taskq_assign C M L encrypt job run) [0..<n] (taskq_start n, m) w = Done s w'"
  shows "tq_inv n job run (fst s) \<and> tq_full n job (fst s) \<and> quiet m (snd s)"
proof -
  let ?P = "\<lambda>i (s :: taskq_run \<times> master_state). tq_inv n job run (fst s) \<and> quiet m (snd s) \<and>
    (tq_next (fst s) < tj_count job \<longrightarrow> (\<forall>v<i. tq_busy (fst s) ! v)) \<and>
    (\<forall>v<n. i \<le> v \<longrightarrow> \<not> tq_busy (fst s) ! v) \<and> i \<le> n"
  have "?P n s"
  proof (rule loopP_upt [OF assms, of ?P])
    show "?P 0 (taskq_start n, m)" using tq_start by (simp add: taskq_start_def)
  next
    fix i s w s' w'
    assume i: "i < n" and P: "?P i s" and b: "taskq_assign C M L encrypt job run i s w = Done s' w'"
    from b have b': "taskq_assign C M L encrypt job run i (fst s, snd s) w = Done s' w'" by simp
    from P i have p: "tq_inv n job run (fst s)" "\<not> tq_busy (fst s) ! i" "quiet m (snd s)" by auto
    note a = taskq_assign_Done [OF b' p(1) i p(2)]
    have n: "tq_next (fst s) < tj_count job" if "tq_next (fst s') < tj_count job"
      using a that by (blast intro: order_le_less_trans)
    from a have a': "quiet (snd s) (snd s')" "tq_inv n job run (fst s')"
      "\<forall>v<n. v \<noteq> i \<longrightarrow> tq_busy (fst s') ! v = tq_busy (fst s) ! v" by blast+
    have "quiet m (snd s')" using p(3) a'(1) by (rule quiet_trans)
    moreover have "\<forall>v<Suc i. tq_busy (fst s') ! v" if "tq_next (fst s') < tj_count job"
    proof (intro allI impI)
      fix v assume "v < Suc i"
      then have "v < n" "v = i \<or> tq_busy (fst s) ! v" using i P n [OF that] by (auto simp: less_Suc_eq)
      then show "tq_busy (fst s') ! v" using a that by blast
    qed
    moreover have "\<forall>v<n. Suc i \<le> v \<longrightarrow> \<not> tq_busy (fst s') ! v" using a'(3) P by simp
    ultimately show "?P (Suc i) s'" using a'(2) i by simp
  qed simp
  then show ?thesis by (auto simp: tq_full_def)
qed

lemma tq_all_done:
  assumes "tq_inv n job run q" and "\<not> tq_completed q < tj_count job"
  shows "busy_set q = {} \<and> mset (accepted_ids q) = mset (map of_nat [0..<unat (tj_count job)])"
proof -
  have "unat (tq_completed q) = length (tq_accepted q)" "unat (tq_next q) \<le> unat (tj_count job)"
    using assms(1) by (auto simp: tq_inv_def word_le_nat_alt)
  moreover have "unat (tj_count job) \<le> unat (tq_completed q)" using assms(2) by (simp add: word_less_nat_alt)
  ultimately have "card (busy_set q) = 0" "unat (tq_next q) = unat (tj_count job)"
    using tq_inv_size [OF assms(1)] by linarith+
  then have "busy_set q = {}" "tq_next q = tj_count job" by (simp_all add: word_unat_eq_iff)
  then show ?thesis using assms(1) by (simp add: tq_inv_def outstanding_def)
qed

lemma taskq_pass_kept:
  assumes "taskq_pass C M L n encrypt job (build_xorshift_jump (tj_iterations job)) run s w = Done f w'"
    and "tq_inv n job run (fst s)" and "tq_full n job (fst s)" and "quiet m0 (snd s)"
  shows "case f of
      Next s \<Rightarrow> tq_inv n job run (fst s) \<and> tq_full n job (fst s) \<and> quiet m0 (snd s)
    | Exit (st, s) \<Rightarrow> tq_inv n job run (fst s) \<and> quiet m0 (snd s) \<and>
        (st = - 1 \<or> st = 0 \<and> \<not> tq_completed (fst s) < tj_count job)"
proof (cases "tq_completed (fst s) < tj_count job")
  case True
  with assms(1) obtain g where
    g: "loopX (taskq_poll C M L encrypt job (build_xorshift_jump (tj_iterations job)) run) [0..<n] s w = Done g w'"
    and f: "f = (case g of Next s \<Rightarrow> Next s | Exit s \<Rightarrow> Exit (- 1, s))"
    by (auto simp: taskq_pass_def split: flow.splits)
  from taskq_polls_kept [OF g _ assms(2-4)] show ?thesis by (auto simp: f split: flow.splits)
qed (use assms in \<open>auto simp: taskq_pass_def\<close>)

lemma taskq_dispatch_kept:
  "on_done (\<lambda>(t, status, q, m'). tq_inv n job run q \<and> quiet m m' \<and>
      (status = - 1 \<or> status = 0 \<and> busy_set q = {} \<and>
         mset (accepted_ids q) = mset (map of_nat [0..<unat (tj_count job)])))
    (taskq_dispatch fuel C M L n encrypt job (build_xorshift_jump (tj_iterations job)) run m w)"
proof (rule on_doneI)
  fix r w'
  assume "taskq_dispatch fuel C M L n encrypt job (build_xorshift_jump (tj_iterations job)) run m w = Done r w'"
  then obtain s v v2 t st e where
    a: "loopP (taskq_assign C M L encrypt job run) [0..<n] (taskq_start n, m) w = Done s v" and
    l: "whileX fuel (taskq_pass C M L n encrypt job (build_xorshift_jump (tj_iterations job)) run) s v2
          = Done (st, e) w'" and r: "r = (t, st, e)"
    by (auto simp: taskq_dispatch_def split: prod.splits)
  let ?P = "\<lambda>s. tq_inv n job run (fst s) \<and> tq_full n job (fst s) \<and> quiet m (snd s)"
  have s: "?P s" using tq_first_tasks [OF a] .
  have pass: "case f of Next s' \<Rightarrow> ?P s' | Exit (st, e) \<Rightarrow> tq_inv n job run (fst e) \<and> quiet m (snd e) \<and>
      (st = - 1 \<or> st = 0 \<and> \<not> tq_completed (fst e) < tj_count job)"
    if "taskq_pass C M L n encrypt job (build_xorshift_jump (tj_iterations job)) run s v = Done f v'" "?P s"
    for s v f v'
    using that(1) by (rule taskq_pass_kept) (use that(2) in auto)
  have "\<exists>u v3. ?P u \<and>
    taskq_pass C M L n encrypt job (build_xorshift_jump (tj_iterations job)) run u v3 = Done (Exit (st, e)) w'"
    by (rule whileX_inv [OF l, of "\<lambda>s v. ?P s", OF s]) (drule (1) pass, simp)
  then obtain u v3 where "?P u" and
    "taskq_pass C M L n encrypt job (build_xorshift_jump (tj_iterations job)) run u v3 = Done (Exit (st, e)) w'"
    by blast
  from pass [OF this(2,1)] tq_all_done [of n job run "fst e"] show "case r of (t, status, q, m') \<Rightarrow>
      tq_inv n job run q \<and> quiet m m' \<and> (status = - 1 \<or> status = 0 \<and> busy_set q = {} \<and>
        mset (accepted_ids q) = mset (map of_nat [0..<unat (tj_count job)]))"
    by (auto simp: r)
qed

text \<open>
  C7: Whatever the workers send, when the polling loop of a TASKQ run ends, every accepted result
  belongs to a task that was assigned and not accepted before, carries the token that the worker's
  loop of generator steps gives for its task, and its output bytes agree with it at the sampled
  positions; the accepted and the outstanding tasks together are exactly the tasks handed out; and
  with status 0 every task of the run was accepted exactly once and no worker is left with one.
\<close>

theorem taskq_exactly_once:
  "on_done (\<lambda>(t, status, q, m'). tq_inv n job run q \<and> quiet m m' \<and>
      (status = - 1 \<or> status = 0 \<and> busy_set q = {} \<and>
         mset (accepted_ids q) = mset (map of_nat [0..<unat (tj_count job)])))
    (taskq_dispatch fuel C M L n encrypt job (build_xorshift_jump (tj_iterations job)) run m w)"
  by (rule taskq_dispatch_kept)

section \<open>Progress\<close>

lemma spinless_taskq [spinless_intros]:
  "spinless (taskq_assign C M L encrypt job run worker s)"
  "spinless (taskq_poll C M L encrypt job jump run worker s)"
  "spinless (taskq_pass C M L n encrypt job jump run s)"
  unfolding taskq_pass_def taskq_poll_def taskq_assign_def send_taskq_work_def Let_def
  by (intro spinless_intros)+

text \<open>MPI reports a waiting result whenever it is asked.\<close>

definition probes_ready :: "'e mpi \<Rightarrow> bool" where
  "probes_ready M \<longleftrightarrow> (\<forall>c tag e. fst (m_iprobe M c tag e) = (MPI_SUCCESS, True))"

lemma iprobe_ready:
  assumes "probes_ready M" and "mpi_iprobe_f M tag c w = Done flag w'"
  shows "flag"
  using assms by (cases w) (auto simp: probes_ready_def mpi_iprobe_f_def split: if_splits dest!: spec
      [of _ c] spec [of _ tag], metis fst_conv snd_conv)

lemma taskq_assign_frame:
  "taskq_assign C M L encrypt job run worker (q, m) w = Done s w' \<Longrightarrow>
   tq_accepted (fst s) = tq_accepted q \<and> (\<forall>v. v \<noteq> worker \<longrightarrow> tq_busy (fst s) ! v = tq_busy q ! v)"
  by (auto simp: taskq_assign_def split: if_splits)

lemma taskq_poll_progress:
  assumes "probes_ready M" and "taskq_poll C M L encrypt job jump run worker s w = Done (Next s') w'"
  shows "length (tq_accepted (fst s')) = length (tq_accepted (fst s)) + (if tq_busy (fst s) ! worker then 1 else 0) \<and>
    (\<forall>v. v \<noteq> worker \<longrightarrow> tq_busy (fst s') ! v = tq_busy (fst s) ! v)"
  using assms(2)
  by (auto simp: taskq_poll_def Let_def split: if_splits option.splits prod.splits
      dest!: iprobe_ready [OF assms(1)] taskq_assign_frame)
    (auto simp: taskq_complete_def)

lemma taskq_polls_progress:
  assumes "probes_ready M" and "loopX (taskq_poll C M L encrypt job jump run) ws s w = Done (Next s') w'"
  shows "length (tq_accepted (fst s)) \<le> length (tq_accepted (fst s')) \<and>
    ((\<exists>v\<in>set ws. tq_busy (fst s) ! v) \<longrightarrow> length (tq_accepted (fst s)) < length (tq_accepted (fst s')))"
  using assms(2)
proof (induction ws arbitrary: s w)
  case (Cons i ws)
  from Cons.prems obtain g v where b: "taskq_poll C M L encrypt job jump run i s w = Done g v"
    and l: "(case g of Next t \<Rightarrow> loopX (taskq_poll C M L encrypt job jump run) ws t
      | Exit r \<Rightarrow> ret (Exit r)) v = Done (Next s') w'" by auto
  then obtain t where g: "g = Next t"
    and t: "loopX (taskq_poll C M L encrypt job jump run) ws t v = Done (Next s') w'"
    by (cases g) auto
  note p = taskq_poll_progress [OF assms(1) b [unfolded g]] and IH = Cons.IH [OF t]
  show ?case
  proof (cases "tq_busy (fst s) ! i")
    case True
    with p IH show ?thesis by simp
  next
    case False
    then have "(\<exists>v\<in>set (i # ws). tq_busy (fst s) ! v) \<longrightarrow> (\<exists>v\<in>set ws. tq_busy (fst t) ! v)"
      using p by auto
    with False p IH show ?thesis by auto
  qed
qed simp

lemma tq_someone_busy:
  assumes "tq_inv n job run q" and "tq_full n job q" and "0 < n" and "tq_completed q < tj_count job"
  shows "\<exists>v\<in>set [0..<n]. tq_busy q ! v"
proof (cases "tq_next q < tj_count job")
  case True
  with assms(2,3) show ?thesis by (auto simp: tq_full_def)
next
  case False
  then have "tq_next q = tj_count job" using assms(1) by (simp add: tq_inv_def)
  then have "length (tq_accepted q) < unat (tq_next q)"
    using assms(1,4) by (simp add: tq_inv_def word_less_nat_alt)
  then have "card (busy_set q) \<noteq> 0" using tq_inv_size [OF assms(1)] by linarith
  then have "busy_set q \<noteq> {}" by (metis card.empty)
  then obtain v where "v \<in> busy_set q" by blast
  then show ?thesis using assms(1) by (auto simp: busy_set_def tq_inv_def tq_shape_def)
qed



section \<open>The rounds and the two sides\<close>

definition taskq_good :: "nat \<Rightarrow> bool \<Rightarrow> npb_result \<Rightarrow> bool" where
  "taskq_good nworkers encrypt r \<longleftrightarrow> r_workload r = WORKLOAD_TASKQ \<and> r_num_workers r = nworkers \<and>
     r_encrypted r = encrypt"

lemma taskq_round:
  assumes "taskq_master_run fuel C M L n encrypt job (build_xorshift_jump (tj_iterations job)) run m w = Done g w'"
  shows "case g of
      Next m' \<Rightarrow> ms_le m m' \<and> (\<exists>r. ms_results m' = ms_results m @ [r] \<and> r_run r = run \<and> taskq_good n encrypt r)
    | Exit r \<Rightarrow> fst r = - 1 \<and> quiet m (snd r)"
proof -
  let ?jump = "build_xorshift_jump (tj_iterations job)"
  from assms obtain m1 v1 v2 sd st q m2 v3 started where
    1: "loopP (small_to C M L encrypt TAG_TASKQ_CONTROL
          (encode_taskq_control \<lparr>tc_command = TASKQ_CONTROL_START, tc_run = i32 run\<rparr>)) [0..<n] m v1 = Done m1 v2" and
    2: "taskq_dispatch fuel C M L n encrypt job ?jump run m1 v2 = Done (sd, st, q, m2) v3" and
    3: "(if st \<noteq> 0 then ret (Exit (st, m2)) else
       bindP (mpi_wtime M) (\<lambda>finished.
       bindP (loopP (send_taskq_end C M L encrypt run) [0..<n] m2) (\<lambda>m.
       bindP (record_generic_result WORKLOAD_TASKQ n encrypt run
                (elapsed_ms started sd) (taskq_compute_max n q)
                (elapsed_ms sd finished) (elapsed_ms started finished) m)
         (\<lambda>m. ret (Next m))))) v3 = Done g w'"
    by (auto simp: taskq_master_run_def split: prod.splits)
  have "quiet m m1" using 1 by (rule loopP_quiet) (rule to_quietD)
  moreover have d: "quiet m1 m2 \<and> (st = - 1 \<or> st = 0)"
    using taskq_dispatch_kept [of n job run m1 fuel C M L encrypt v2] unfolding 2 on_done_def by auto
  ultimately have q: "quiet m m2" by (blast intro: quiet_trans)
  show ?thesis
  proof (cases "st = 0")
    case False
    with 3 d q show ?thesis by auto
  next
    case True
    with 3 obtain fin m3 m4 v4 v5 v6 where
      e: "loopP (send_taskq_end C M L encrypt run) [0..<n] m2 v4 = Done m3 v5" and
      r: "record_generic_result WORKLOAD_TASKQ n encrypt run (elapsed_ms started sd) (taskq_compute_max n q)
          (elapsed_ms sd fin) (elapsed_ms started fin) m3 v5 = Done m4 v6" and g: "g = Next m4" by auto
    have "quiet m2 m3" using e by (rule loopP_quiet) (rule send_taskq_end_quiet)
    with q have "quiet m m3" by (blast intro: quiet_trans)
    with r show ?thesis
      by (auto simp: g record_generic_result_def npb_result_zero_def taskq_good_def quiet_def ms_le_def
          split: if_splits)
  qed
qed

interpretation taskq_rounds: timed_rounds
    "taskq_master_run fuel C M L n encrypt job (build_xorshift_jump (tj_iterations job))"
    "taskq_good n encrypt" for fuel C M L n encrypt job
  by unfold_locales (auto dest: taskq_round)

text \<open>
  C17: The central node and the worker agree on every task: what a worker computes from the payload
  that the central node sends passes all its checks, for every task, payload size and iteration
  count.
\<close>

theorem taskq_agrees:
  assumes "0 < tj_bytes job" and "1 \<le> run" and "run \<le> int MAX_RUNS" and "time_ok ms"
    and "taskq_worker_result run \<lparr>tt_command = TASKQ_TASK_WORK, tt_run = i32 run, tt_task_id = task_id,
        tt_iterations = tj_iterations job, tt_payload_bytes = tj_bytes job, tt_reserved = 0\<rparr>
      (unat (tj_bytes job)) (map (task_input_byte task_id run) [0..<unat (tj_bytes job)]) ms = (r, output)"
  shows "taskq_result_ok job run task_id r \<and>
    tr_token r = linear_map_apply (build_xorshift_jump (tj_iterations job)) (task_initial_token task_id run) \<and>
    taskq_output_ok task_id run (tr_token r) (unat (tj_bytes job)) output"
proof (intro conjI)
  have b: "0 < unat (tj_bytes job)" using assms(1) by (simp add: unat_gt_0 word_neq_0_conv)
  have i: "sint (i32 run) = run" using assms(2,3) by (intro sint_i32) auto
  have f: "tr_run r = i32 run" "tr_task_id r = task_id" "tr_payload_bytes r = tj_bytes job"
    "tr_compute_ms r = ms" "tr_token r = taskq_token (tj_iterations job) task_id run"
    using assms(5) by (auto simp: taskq_worker_result_def Let_def)
  note v = taskq_worker_verified [OF b _ assms(5)]
  show "taskq_result_ok job run task_id r"
    using v f i assms(4) by (simp add: taskq_result_ok_def time_ok_def)
  show "tr_token r = linear_map_apply (build_xorshift_jump (tj_iterations job)) (task_initial_token task_id run)"
    by (simp add: f jump_apply taskq_token_def)
  show "taskq_output_ok task_id run (tr_token r) (unat (tj_bytes job)) output"
    by (rule taskq_output_samples [OF b]) (use v f(5) in simp)
qed

theorem taskq_agrees_witness:
  "taskq_output_ok 5 1 (taskq_token 1000 5 1) 64 (snd (taskq_worker_result 1
     \<lparr>tt_command = TASKQ_TASK_WORK, tt_run = i32 1, tt_task_id = 5, tt_iterations = 1000,
      tt_payload_bytes = 64, tt_reserved = 0\<rparr> 64 (map (task_input_byte 5 1) [0..<64]) 0))"
proof -
  let ?t = "\<lparr>tt_command = TASKQ_TASK_WORK, tt_run = i32 1, tt_task_id = 5, tt_iterations = 1000,
      tt_payload_bytes = 64, tt_reserved = 0\<rparr>"
  obtain r out where r: "taskq_worker_result 1 ?t 64 (map (task_input_byte 5 1) [0..<64]) 0 = (r, out)"
    by fastforce
  then have "tr_token r = taskq_token 1000 5 1" by (auto simp: taskq_worker_result_def Let_def)
  moreover have "taskq_output_ok 5 1 (tr_token r) 64 out"
    using taskq_agrees [of "\<lparr>tj_count = 10, tj_bytes = 64, tj_iterations = 1000\<rparr>" 1 0 5 r out] r by auto
  ultimately show ?thesis using r by simp
qed

text \<open>
  The TASKQ handler of the central node keeps the contract of the other handlers.
\<close>

lemma taskq_reported:
  assumes "run_taskq_master fuel C M L n encrypt num_runs task_count payload_bytes iterations m w = Done x w'"
  shows "rounds_reported num_runs (taskq_good n encrypt) m x"
proof -
  let ?job = "\<lparr>tj_count = task_count, tj_bytes = payload_bytes, tj_iterations = iterations\<rparr>"
  note loop = taskq_rounds.loop_reported [where job = ?job, simplified]
  show ?thesis
    using assms unfolding run_taskq_master_def
    by (auto simp: Let_def split: option.splits if_splits prod.splits
        dest!: send_command_quiet wait_ready_quiet loop)
      (blast intro: rounds_failed quiet_rounds quiet_trans quiet_refl)+
qed

end
