(* ===== verification/Snp_Report.thy ===== *)
theory Snp_Report
  imports Mpi_Io Secure_Channel
begin

text \<open>
  The SEV-SNP evidence of an enrolment: how the worker obtains a report (src/worker_npb.c,
  \<open>get_sev_snp_report\<close>), how the central node checks it (src/master_npb.c,
  \<open>verify_expected_snp_claims\<close>, \<open>verify_sev_snp_report\<close>), the key files
  (\<open>load_secret_key\<close>, \<open>load_public_key\<close>) and \<open>run_process\<close>. The files and processes are
  outside the programs: each system or stdio call is a request \<open>os_call\<close>, answered by a reply
  with a return value, an error number, and the text or data it delivers. The child process of
  \<open>run_process\<close> is the request \<open>Fork_Exec\<close>; what it does before \<open>execvp\<close> is \<open>child_start\<close>.
\<close>

datatype errno = EINTR | EEXIST | E_Other nat

datatype os_call = Mkdtemp string | Fopen string string | Fwrite string bytes | Fflush string
  | Fsync string | Fclose string | Fseek_End string | Ftell string | Rewind string
  | Fread string nat | Fgetc string | Ferror string | Malloc nat
  | Unlink string | Rmdir string | Realpath string | Mkdir string | Symlink string string
  | Stat string | Fork_Exec "string list" | Waitpid int | Rename string string | Getpid
  | System string | Open_Excl string u32 | Write string bytes | Close string

record os_reply =
  o_rc :: int
  o_errno :: errno
  o_text :: string
  o_data :: bytes
  o_exited :: bool
  o_mode :: u32
  o_size :: int

record 'e os =
  os_getenv :: "string \<Rightarrow> string option"
  os_do :: "os_call \<Rightarrow> 'e \<Rightarrow> os_reply \<times> 'e"

definition sys :: "'e os \<Rightarrow> os_call \<Rightarrow> ('e, os_reply) prog" where
  "sys S c e = (case os_do S c e of (r, e') \<Rightarrow> Done r e')"

text \<open>A call whose failure is a negative or null result.\<close>

abbreviation os_failed :: "os_reply \<Rightarrow> bool" where
  "os_failed r \<equiv> o_rc r < 0"

section \<open>Child processes\<close>

definition child_start :: "bool \<Rightarrow> int \<Rightarrow> int \<Rightarrow> int option" where
  \<comment> \<open>the exit status of a child that does not reach execvp\<close>
  "child_start prctl_ok ppid parent =
     (if npb_bind_child_to_parent prctl_ok ppid parent \<noteq> 0 then Some 127 else None)"

definition wait_child ::
  "'e os \<Rightarrow> int \<Rightarrow> unit \<Rightarrow> ('e, (unit, os_reply option) flow) prog" where
  "wait_child S child u =
     bindP (sys S (Waitpid child)) (\<lambda>r.
     if os_failed r then (if o_errno r = EINTR then ret (Next ()) else ret (Exit None))
     else ret (Exit (Some r)))"

definition run_process :: "nat \<Rightarrow> 'e os \<Rightarrow> string list \<Rightarrow> ('e, int) prog" where
  \<comment> \<open>fuel bounds the interrupted waits; o_rc of the last wait is the exit status\<close>
  "run_process fuel S argv =
     bindP (sys S (Fork_Exec argv)) (\<lambda>child.
     if os_failed child then ret (- 1)
     else bindP (whileX fuel (wait_child S (o_rc child)) ()) (\<lambda>status.
       case status of
         None \<Rightarrow> ret (- 1)
       | Some r \<Rightarrow> if \<not> o_exited r then ret (- 1) else ret (o_rc r)))"

section \<open>Claims of a report\<close>

abbreviation SNP_POLICY_OFFSET :: nat where "SNP_POLICY_OFFSET \<equiv> 0x08"
abbreviation SNP_MEASUREMENT_OFFSET :: nat where "SNP_MEASUREMENT_OFFSET \<equiv> 0x90"
abbreviation SNP_MEASUREMENT_SIZE :: nat where "SNP_MEASUREMENT_SIZE \<equiv> 48"
abbreviation SNP_REPORTED_TCB_OFFSET :: nat where "SNP_REPORTED_TCB_OFFSET \<equiv> 0x180"
abbreviation SNP_REPORTED_TCB_SIZE :: nat where "SNP_REPORTED_TCB_SIZE \<equiv> 8"
abbreviation SNP_CHIP_ID_OFFSET :: nat where "SNP_CHIP_ID_OFFSET \<equiv> 0x1A0"
abbreviation SNP_CHIP_ID_SIZE :: nat where "SNP_CHIP_ID_SIZE \<equiv> 64"
abbreviation REPORT_DATA_SIZE :: nat where "REPORT_DATA_SIZE \<equiv> 64"
abbreviation MAX_REPORT_LEN :: nat where "MAX_REPORT_LEN \<equiv> 16384"
abbreviation PATH_MAX :: nat where "PATH_MAX \<equiv> 4096"

definition verify_expected_snp_claims :: "(string \<Rightarrow> string option) \<Rightarrow> bytes \<Rightarrow> int" where
  "verify_expected_snp_claims getenv report =
     (let measurement_hex = getenv ''SNP_EXPECTED_MEASUREMENT'';
          policy_hex = getenv ''SNP_EXPECTED_POLICY'' in
      if measurement_hex = None \<or> measurement_hex = Some [] \<or> policy_hex = None \<or> policy_hex = Some []
      then - 1
      else case parse_hex_exact measurement_hex SNP_MEASUREMENT_SIZE of
        None \<Rightarrow> - 1
      | Some expected_measurement \<Rightarrow>
      (case parse_hex_exact policy_hex 8 of
        None \<Rightarrow> - 1
      | Some expected_policy_bytes \<Rightarrow>
          if length report < SNP_MEASUREMENT_OFFSET + SNP_MEASUREMENT_SIZE then - 1
          else if load_u64_le (take 8 (drop SNP_POLICY_OFFSET report)) \<noteq> load_u64_be expected_policy_bytes
          then - 1
          else if take SNP_MEASUREMENT_SIZE (drop SNP_MEASUREMENT_OFFSET report) \<noteq> expected_measurement
          then - 1
          else 0))"

section \<open>Key files\<close>

text \<open>\<open>S_ISREG\<close> and the group and other permission bits of a file mode.\<close>

definition S_ISREG :: "u32 \<Rightarrow> bool" where
  "S_ISREG mode \<longleftrightarrow> mode AND 0xF000 = 0x8000"

definition S_IRWXG_S_IRWXO :: u32 where
  "S_IRWXG_S_IRWXO = 0x38 OR 0x07"

definition read_key_file :: "'e os \<Rightarrow> string \<Rightarrow> nat \<Rightarrow> ('e, bytes option) prog" where
  \<comment> \<open>the part after fopen that both key loaders share\<close>
  "read_key_file S path key_len =
     bindP (sys S (Fread path key_len)) (\<lambda>count.
     bindP (sys S (Fgetc path)) (\<lambda>trailing.
     bindP (sys S (Ferror path)) (\<lambda>failed.
     bindP (sys S (Fclose path)) (\<lambda>_.
     if o_rc failed \<noteq> 0 \<or> length (o_data count) \<noteq> key_len \<or> \<not> os_failed trailing then ret None
     else ret (Some (o_data count))))))"

definition load_secret_key :: "'e os \<Rightarrow> string \<Rightarrow> nat \<Rightarrow> ('e, bytes option) prog" where
  "load_secret_key S env_name key_len =
     (case os_getenv S env_name of
        None \<Rightarrow> ret None
      | Some path \<Rightarrow>
          if path = [] then ret None
          else bindP (sys S (Stat path)) (\<lambda>st.
            if o_rc st \<noteq> 0 \<or> \<not> S_ISREG (o_mode st) then ret None
            else if o_mode st AND S_IRWXG_S_IRWXO \<noteq> 0 then ret None
            else bindP (sys S (Fopen path ''rb'')) (\<lambda>file.
              if os_failed file then ret None
              else read_key_file S path key_len)))"

definition PPDPC_OWNER_SIGN_PK_FILE :: string where
  "PPDPC_OWNER_SIGN_PK_FILE = ''/etc/ppdpc/owner_sign.pk''"

definition load_public_key :: "'e os \<Rightarrow> nat \<Rightarrow> ('e, bytes option) prog" where
  "load_public_key S key_len =
     bindP (sys S (Fopen PPDPC_OWNER_SIGN_PK_FILE ''rb'')) (\<lambda>file.
     if os_failed file then ret None else read_key_file S PPDPC_OWNER_SIGN_PK_FILE key_len)"

section \<open>Verification by the central node\<close>

definition join_path :: "nat \<Rightarrow> string \<Rightarrow> string \<Rightarrow> string option" where
  "join_path output_size directory name =
     (if length (directory @ ''/'' @ name) \<ge> output_size then None else Some (directory @ ''/'' @ name))"

definition verify_snp_with_certs :: "nat \<Rightarrow> 'e os \<Rightarrow> string \<Rightarrow> string \<Rightarrow> string \<Rightarrow> ('e, int) prog" where
  "verify_snp_with_certs fuel S certs_dir report_path report_data_arg =
     bindP (run_process fuel S [''snpguest'', ''verify'', ''certs'', certs_dir]) (\<lambda>rc.
     if rc \<noteq> 0 then ret (- 1)
     else bindP (run_process fuel S [''snpguest'', ''verify'', ''attestation'', certs_dir, report_path,
                   ''--report-data'', report_data_arg]) (\<lambda>rc.
       ret (if rc = 0 then 0 else - 1)))"

record snp_paths =
  sp_cache_root :: string
  sp_worker_certs :: string
  sp_ark_source :: string
  sp_ask_source :: string
  sp_ark_link :: string
  sp_ask_link :: string
  sp_vcek_path :: string

definition cache_key :: "crypto \<Rightarrow> bytes \<Rightarrow> string" where
  "cache_key C report =
     bytes_to_hex (generichash C HASH_LEN []
       (take SNP_CHIP_ID_SIZE (drop SNP_CHIP_ID_OFFSET report)
        @ take SNP_REPORTED_TCB_SIZE (drop SNP_REPORTED_TCB_OFFSET report))) (HASH_LEN * 2 + 1)"

definition build_snp_paths :: "string \<Rightarrow> string \<Rightarrow> snp_paths option" where
  "build_snp_paths resolved_certs key =
     (case join_path PATH_MAX resolved_certs ''vcek-cache'' of None \<Rightarrow> None | Some cache_root \<Rightarrow>
     (case join_path PATH_MAX cache_root key of None \<Rightarrow> None | Some worker_certs \<Rightarrow>
     (case join_path PATH_MAX resolved_certs ''ark.pem'' of None \<Rightarrow> None | Some ark_source \<Rightarrow>
     (case join_path PATH_MAX resolved_certs ''ask.pem'' of None \<Rightarrow> None | Some ask_source \<Rightarrow>
     (case join_path PATH_MAX worker_certs ''ark.pem'' of None \<Rightarrow> None | Some ark_link \<Rightarrow>
     (case join_path PATH_MAX worker_certs ''ask.pem'' of None \<Rightarrow> None | Some ask_link \<Rightarrow>
     (case join_path PATH_MAX worker_certs ''vcek.pem'' of None \<Rightarrow> None | Some vcek_path \<Rightarrow>
       Some \<lparr>sp_cache_root = cache_root, sp_worker_certs = worker_certs, sp_ark_source = ark_source,
             sp_ask_source = ask_source, sp_ark_link = ark_link, sp_ask_link = ask_link,
             sp_vcek_path = vcek_path\<rparr>)))))))"

definition verify_attempt ::
  "nat \<Rightarrow> 'e os \<Rightarrow> snp_paths \<Rightarrow> string \<Rightarrow> string \<Rightarrow> nat \<Rightarrow> unit \<Rightarrow> ('e, (unit, int) flow) prog" where
  \<comment> \<open>one of the at most two attempts; a break leaves with the value of result\<close>
  "verify_attempt fuel S p report_path rd_arg attempt u =
     bindP (sys S (Stat (sp_vcek_path p))) (\<lambda>vst.
     bindP (if o_rc vst \<noteq> 0 \<or> o_size vst \<le> 0 then
              bindP (sys S (Unlink (sp_vcek_path p))) (\<lambda>_.
              bindP (run_process fuel S [''snpguest'', ''fetch'', ''vcek'', ''pem'', sp_worker_certs p,
                       report_path, ''--processor-model'', ''milan'']) (\<lambda>fetch_rc.
              ret (if fetch_rc \<noteq> 0 then None else Some True)))
            else ret (Some False)) (\<lambda>fetched.
     case fetched of
       None \<Rightarrow> ret (Exit (- 1))
     | Some fetched_now \<Rightarrow>
         bindP (verify_snp_with_certs fuel S (sp_worker_certs p) report_path rd_arg) (\<lambda>rc.
         if rc = 0 then ret (Exit 0)
         else if fetched_now then ret (Exit (- 1))
         else bindP (sys S (Unlink (sp_vcek_path p))) (\<lambda>_. ret (Next ())))))"

definition verify_with_cache ::
  "nat \<Rightarrow> crypto \<Rightarrow> 'e os \<Rightarrow> bytes \<Rightarrow> string \<Rightarrow> string \<Rightarrow> ('e, int) prog" where
  \<comment> \<open>from the look-up of SNP_CERTS_DIR to the label cleanup\<close>
  "verify_with_cache fuel C S report report_path rd_arg =
     (let certs_dir = (case os_getenv S ''SNP_CERTS_DIR'' of
                         None \<Rightarrow> ''certs'' | Some d \<Rightarrow> if d = [] then ''certs'' else d) in
      if length report < SNP_CHIP_ID_OFFSET + SNP_CHIP_ID_SIZE then ret (- 1)
      else bindP (sys S (Realpath certs_dir)) (\<lambda>resolved.
        if os_failed resolved then ret (- 1)
        else case build_snp_paths (o_text resolved) (cache_key C report) of
          None \<Rightarrow> ret (- 1)
        | Some p \<Rightarrow>
            bindP (sys S (Mkdir (sp_cache_root p))) (\<lambda>r.
            if o_rc r \<noteq> 0 \<and> o_errno r \<noteq> EEXIST then ret (- 1)
            else bindP (sys S (Mkdir (sp_worker_certs p))) (\<lambda>r.
            if o_rc r \<noteq> 0 \<and> o_errno r \<noteq> EEXIST then ret (- 1)
            else
              bindP (sys S (Unlink (sp_ark_link p))) (\<lambda>_.
              bindP (sys S (Unlink (sp_ask_link p))) (\<lambda>_.
              bindP (sys S (Symlink (sp_ark_source p) (sp_ark_link p))) (\<lambda>r.
              if o_rc r \<noteq> 0 then ret (- 1)
              else bindP (sys S (Symlink (sp_ask_source p) (sp_ask_link p))) (\<lambda>r.
              if o_rc r \<noteq> 0 then ret (- 1)
              else
                bindP (loopX (verify_attempt fuel S p report_path rd_arg) [0..<2] ()) (\<lambda>f.
                ret (case f of Next _ \<Rightarrow> - 1 | Exit result \<Rightarrow> result))))))))))"

definition write_report :: "'e os \<Rightarrow> string \<Rightarrow> bytes \<Rightarrow> ('e, bool) prog" where
  \<comment> \<open>the report file of the central node: written, flushed and synced\<close>
  "write_report S report_path report =
     bindP (sys S (Fopen report_path ''wb'')) (\<lambda>f.
     if os_failed f then ret False
     else bindP (sys S (Fwrite report_path report)) (\<lambda>n.
       if o_rc n \<noteq> int (length report)
       then bindP (sys S (Fclose report_path)) (\<lambda>_. ret False)
       else
         bindP (sys S (Fflush report_path)) (\<lambda>flush_result.
         bindP (sys S (Fsync report_path)) (\<lambda>sync_result.
         bindP (sys S (Fclose report_path)) (\<lambda>close_result.
         ret (\<not> (o_rc flush_result \<noteq> 0 \<or> o_rc sync_result \<noteq> 0 \<or> o_rc close_result \<noteq> 0)))))))"

definition verify_sev_snp_report ::
  "nat \<Rightarrow> crypto \<Rightarrow> 'e os \<Rightarrow> bytes \<Rightarrow> bytes \<Rightarrow> ('e, int) prog" where
  "verify_sev_snp_report fuel C S report expected_report_data =
     (if report = [] then ret (- 1)
      else if verify_expected_snp_claims (os_getenv S) report \<noteq> 0 then ret (- 1)
      else bindP (sys S (Mkdtemp ''/tmp/ppdpc-snp-verify-XXXXXX'')) (\<lambda>t.
        if os_failed t then ret (- 1)
        else
          let temp_dir = o_text t;
              report_path = temp_dir @ ''/report.bin'';
              rd_arg = ''0x'' @ bytes_to_hex expected_report_data (REPORT_DATA_SIZE * 2 + 1) in
          bindP (write_report S report_path report) (\<lambda>ok.
          bindP (if \<not> ok then ret (- 1) else verify_with_cache fuel C S report report_path rd_arg) (\<lambda>result.
          bindP (sys S (Unlink report_path)) (\<lambda>_.
          bindP (sys S (Rmdir temp_dir)) (\<lambda>_. ret result))))))"

section \<open>The worker's report\<close>

definition write_report_data :: "'e os \<Rightarrow> string \<Rightarrow> bytes \<Rightarrow> ('e, bool) prog" where
  "write_report_data S data_path report_data =
     bindP (sys S (Fopen data_path ''wb'')) (\<lambda>data_file.
     if os_failed data_file then ret False
     else
       bindP (sys S (Fwrite data_path report_data)) (\<lambda>n.
       bindP (sys S (Fflush data_path)) (\<lambda>flush_result.
       bindP (sys S (Fsync data_path)) (\<lambda>sync_result.
       bindP (sys S (Fclose data_path)) (\<lambda>close_result.
       ret (\<not> (o_rc n \<noteq> int REPORT_DATA_SIZE \<or> o_rc flush_result \<noteq> 0 \<or> o_rc sync_result \<noteq> 0 \<or>
               o_rc close_result \<noteq> 0)))))))"

definition read_report :: "'e os \<Rightarrow> string \<Rightarrow> ('e, bytes option) prog" where
  "read_report S report_path =
     (let close_fail = bindP (sys S (Fclose report_path)) (\<lambda>_. ret None) in
      bindP (sys S (Fopen report_path ''rb'')) (\<lambda>rf.
      if os_failed rf then ret None
      else bindP (sys S (Fseek_End report_path)) (\<lambda>r.
      if o_rc r \<noteq> 0 then close_fail
      else bindP (sys S (Ftell report_path)) (\<lambda>sz.
      if o_rc sz \<le> 0 \<or> o_rc sz > int MAX_REPORT_LEN then close_fail
      else
        bindP (sys S (Rewind report_path)) (\<lambda>_.
        bindP (sys S (Malloc (nat (o_rc sz)))) (\<lambda>m.
        if os_failed m then close_fail
        else
          bindP (sys S (Fread report_path (nat (o_rc sz)))) (\<lambda>rd.
          bindP (sys S (Fclose report_path)) (\<lambda>_.
          if int (length (o_data rd)) \<noteq> o_rc sz then ret None else ret (Some (o_data rd))))))))))"

definition get_sev_snp_report :: "nat \<Rightarrow> 'e os \<Rightarrow> bytes \<Rightarrow> ('e, bytes option) prog" where
  "get_sev_snp_report fuel S report_data =
     bindP (sys S (Mkdtemp ''/tmp/ppdpc-snp-report-XXXXXX'')) (\<lambda>t.
     if os_failed t then ret None
     else
       let temp_dir = o_text t;
           data_path = temp_dir @ ''/report-data.bin'';
           report_path = temp_dir @ ''/report.bin'' in
       bindP (write_report_data S data_path report_data) (\<lambda>ok.
       bindP (if \<not> ok then ret None
              else bindP (run_process fuel S [''snpguest'', ''report'', report_path, data_path]) (\<lambda>rc.
                if rc \<noteq> 0 then ret None else read_report S report_path)) (\<lambda>result.
       bindP (sys S (Unlink data_path)) (\<lambda>_.
       bindP (sys S (Unlink report_path)) (\<lambda>_.
       bindP (sys S (Rmdir temp_dir)) (\<lambda>_. ret result))))))"

section \<open>The expected claims\<close>

lemma parse_hex_printed:
  "out_len \<ge> 2 * length bs + 1 \<Longrightarrow> parse_hex_exact (Some (bytes_to_hex bs out_len)) (length bs) = Some bs"
  by (simp add: parse_hex_exact_def bytes_to_hex_def skip_0x_hex length_hex parse_hex_pairs_hex)

lemma parse_hex_printed_0x:
  "out_len \<ge> 2 * length bs + 1 \<Longrightarrow>
   parse_hex_exact (Some (''0x'' @ bytes_to_hex bs out_len)) (length bs) = Some bs"
  by (simp add: parse_hex_exact_def bytes_to_hex_def skip_0x_def length_hex parse_hex_pairs_hex)

lemma load_le_be_eq_iff:
  assumes "length a = 8" and "length b = 8"
  shows "load_u64_le a = load_u64_be b \<longleftrightarrow> a = rev b"
proof -
  have b: "load_u64_be b = le_dec (rev b)" using assms(2) by (simp add: load_u64_be_same load_u64_be_bytes_eq)
  have "le_dec a = (le_dec (rev b) :: u64) \<Longrightarrow> a = rev b"
    using le_enc_dec [of a, where 'a = 64] le_enc_dec [of "rev b", where 'a = 64] assms by simp
  then show ?thesis unfolding b load_u64_le_eq [OF assms(1)] by blast
qed

text \<open>
  C36: With the expected measurement and policy configured as hexadecimal text of a 48-byte digest
  and of the policy as a big-endian number, the central node accepts the claims of exactly those
  reports that are long enough and hold this digest at offset 0x90 and this policy, little-endian, at
  offset 8; without either variable it accepts no report.
\<close>

theorem claims_pin_report:
  assumes "length measurement = SNP_MEASUREMENT_SIZE" and "length policy = 8"
    and "getenv ''SNP_EXPECTED_MEASUREMENT'' = Some (bytes_to_hex measurement 97)"
    and "getenv ''SNP_EXPECTED_POLICY'' = Some (''0x'' @ bytes_to_hex policy 17)"
  shows "(verify_expected_snp_claims getenv report = 0 \<longleftrightarrow>
      192 \<le> length report \<and> take 48 (drop 0x90 report) = measurement \<and> take 8 (drop 8 report) = rev policy) \<and>
    verify_expected_snp_claims (getenv(''SNP_EXPECTED_MEASUREMENT'' := None)) report = - 1 \<and>
    verify_expected_snp_claims (getenv(''SNP_EXPECTED_POLICY'' := None)) report = - 1"
proof -
  have m: "parse_hex_exact (Some (bytes_to_hex measurement 97)) 48 = Some measurement"
    using parse_hex_printed [of measurement 97] assms(1) by simp
  have p: "parse_hex_exact (Some (''0x'' @ bytes_to_hex policy 17)) 8 = Some policy"
    using parse_hex_printed_0x [of policy 17] assms(2) by simp
  have ne: "bytes_to_hex measurement 97 \<noteq> []"
  proof -
    have "length (bytes_to_hex measurement 97) = 96" using assms(1) by (simp add: bytes_to_hex_def length_hex)
    then show ?thesis by fastforce
  qed
  have l: "load_u64_le (take 8 (drop 8 report)) = load_u64_be policy \<longleftrightarrow> take 8 (drop 8 report) = rev policy"
    if "192 \<le> length report" using that assms(2) by (intro load_le_be_eq_iff) auto
  have "verify_expected_snp_claims getenv report = 0 \<longleftrightarrow>
      192 \<le> length report \<and> take 48 (drop 0x90 report) = measurement \<and> take 8 (drop 8 report) = rev policy"
    unfolding verify_expected_snp_claims_def Let_def assms(3,4) m p using ne l by auto
  then show ?thesis by (simp add: verify_expected_snp_claims_def Let_def)
qed

theorem claims_pin_report_witness:
  "verify_expected_snp_claims
     ((\<lambda>_. None)(''SNP_EXPECTED_MEASUREMENT'' \<mapsto> bytes_to_hex (replicate 48 171) 97,
        ''SNP_EXPECTED_POLICY'' \<mapsto> ''0x'' @ bytes_to_hex [0, 0, 0, 0, 0, 3, 0, 0] 17))
     (replicate 8 0 @ [0, 0, 3, 0, 0, 0, 0, 0] @ replicate 128 0 @ replicate 48 171 @ replicate 1000 9) = 0"
  using claims_pin_report [of "replicate 48 171" "[0, 0, 0, 0, 0, 3, 0, 0]" "(\<lambda>_. None)
      (''SNP_EXPECTED_MEASUREMENT'' \<mapsto> bytes_to_hex (replicate 48 171) 97,
       ''SNP_EXPECTED_POLICY'' \<mapsto> ''0x'' @ bytes_to_hex [0, 0, 0, 0, 0, 3, 0, 0] 17)"]
  by simp

section \<open>Logged runs\<close>

type_synonym os_log = "(os_call \<times> os_reply) list"

definition os_logged :: "'e os \<Rightarrow> (os_log \<times> 'e) os" where
  "os_logged S = \<lparr>os_getenv = os_getenv S,
     os_do = (\<lambda>c (l, e). case os_do S c e of (r, e') \<Rightarrow> (r, (l @ [(c, r)], e')))\<rparr>"

lemma os_logged_getenv [simp]: "os_getenv (os_logged S) = os_getenv S"
  by (simp add: os_logged_def)

lemma sys_logged_Done [simp]:
  "sys (os_logged S) c (l, e) = Done r w' \<longleftrightarrow> fst w' = l @ [(c, r)] \<and> os_do S c e = (r, snd w')"
  by (cases w') (auto simp: sys_def os_logged_def split: prod.splits)

lemma bindP_sys_logged:
  "os_do S c e = (r, e') \<Longrightarrow> bindP (sys (os_logged S) c) k (l, e) = k r (l @ [(c, r)], e')"
  by (simp add: sys_def os_logged_def bindP_def)

text \<open>Code that only adds to the log.\<close>

definition grows :: "(os_log \<times> 'e, 'a) prog \<Rightarrow> bool" where
  "grows m \<longleftrightarrow> (\<forall>l e x l' e'. m (l, e) = Done x (l', e') \<longrightarrow> set l \<subseteq> set l')"

named_theorems grows_intros

lemma growsD: "grows m \<Longrightarrow> m (l, e) = Done x (l', e') \<Longrightarrow> set l \<subseteq> set l'"
  unfolding grows_def by blast

lemma grows_basic [grows_intros]: "grows (ret x)" "grows (sys (os_logged S) c)"
  by (auto simp: grows_def)

lemma grows_bindP [grows_intros]: "grows m \<Longrightarrow> (\<And>x. grows (k x)) \<Longrightarrow> grows (bindP m k)"
  unfolding grows_def by (fastforce simp: bindP_Done_iff)

lemma grows_cases [grows_intros]:
  "(b \<Longrightarrow> grows m) \<Longrightarrow> (\<not> b \<Longrightarrow> grows n) \<Longrightarrow> grows (if b then m else n)"
  "grows a \<Longrightarrow> (\<And>x. grows (c x)) \<Longrightarrow> grows (case opt of None \<Rightarrow> a | Some x \<Rightarrow> c x)"
  "(\<And>s. grows (d s)) \<Longrightarrow> (\<And>r. grows (f r)) \<Longrightarrow> grows (case fl of Next s \<Rightarrow> d s | Exit r \<Rightarrow> f r)"
  by (auto split: option.split flow.split)

lemma grows_loopX [grows_intros]: "(\<And>i s. grows (body i s)) \<Longrightarrow> grows (loopX body is s)"
  by (induction "is" arbitrary: s) (auto intro: grows_intros)

lemma grows_whileX [grows_intros]:
  assumes "\<And>s. grows (body s)"
  shows "grows (whileX fuel body s)"
proof (induction fuel arbitrary: s)
  case 0
  then show ?case by (simp add: grows_def)
next
  case (Suc fuel)
  have "whileX (Suc fuel) body s =
      bindP (body s) (\<lambda>f. case f of Next s' \<Rightarrow> whileX fuel body s' | Exit r \<Rightarrow> ret r)"
    by (rule ext) simp
  with Suc assms show ?case by (auto intro!: grows_intros)
qed

lemma grows_run_process [grows_intros]: "grows (run_process fuel (os_logged S) argv)"
  unfolding run_process_def wait_child_def by (intro grows_intros)

lemma grows_verify [grows_intros]:
  "grows (verify_snp_with_certs fuel (os_logged S) d p a)"
  "grows (verify_attempt fuel (os_logged S) q p a i u)"
  "grows (write_report (os_logged S) p r)"
  unfolding verify_snp_with_certs_def verify_attempt_def write_report_def by (intro grows_intros)+

text \<open>A command ran to its end with status 0.\<close>

definition ran_ok :: "string list \<Rightarrow> os_log \<Rightarrow> bool" where
  "ran_ok argv l \<longleftrightarrow> (\<exists>child status. (Fork_Exec argv, child) \<in> set l \<and>
     (Waitpid (o_rc child), status) \<in> set l \<and> o_exited status \<and> o_rc status = 0)"

lemma ran_ok_mono: "ran_ok argv l \<Longrightarrow> set l \<subseteq> set l' \<Longrightarrow> ran_ok argv l'"
  unfolding ran_ok_def by blast

lemma wait_child_logged:
  assumes "whileX fuel (wait_child (os_logged S) child) u (l, e) = Done (Some r) (l', e')"
  shows "(Waitpid child, r) \<in> set l'"
proof -
  from whileX_inv [OF assms, of "\<lambda>_ _. True"] obtain t v where
    "wait_child (os_logged S) child t v = Done (Exit (Some r)) (l', e')" by auto
  then show ?thesis by (cases v) (auto simp: wait_child_def split: if_splits)
qed

lemma run_process_ran:
  assumes "run_process fuel (os_logged S) argv (l, e) = Done 0 (l', e')"
  shows "ran_ok argv l'"
proof -
  from assms obtain child r l1 e1 where c: "l1 = l @ [(Fork_Exec argv, child)]"
    and w: "whileX fuel (wait_child (os_logged S) (o_rc child)) () (l1, e1) = Done (Some r) (l', e')"
    and r: "o_exited r" "o_rc r = 0"
    by (auto simp: run_process_def split: if_splits option.splits)
  have "grows (whileX fuel (wait_child (os_logged S) (o_rc child)) ())"
    unfolding wait_child_def by (intro grows_intros)
  from growsD [OF this w] wait_child_logged [OF w] r show ?thesis
    by (auto simp: ran_ok_def c)
qed

definition attested :: "string \<Rightarrow> string \<Rightarrow> os_log \<Rightarrow> bool" where
  \<comment> \<open>the certificate chain was verified, and the report against it with the given report data\<close>
  "attested report_path rd_arg l \<longleftrightarrow> (\<exists>certs. ran_ok [''snpguest'', ''verify'', ''certs'', certs] l \<and>
     ran_ok [''snpguest'', ''verify'', ''attestation'', certs, report_path, ''--report-data'', rd_arg] l)"

lemma attested_mono: "attested p a l \<Longrightarrow> set l \<subseteq> set l' \<Longrightarrow> attested p a l'"
  unfolding attested_def using ran_ok_mono by blast

lemma verify_snp_with_certs_ran:
  assumes "verify_snp_with_certs fuel (os_logged S) certs p a (l, e) = Done rc (l', e')"
  shows "rc = - 1 \<or> rc = 0 \<and> attested p a l'"
proof -
  from assms obtain c1 v where
    r: "run_process fuel (os_logged S) [''snpguest'', ''verify'', ''certs'', certs] (l, e) = Done c1 v"
    and kv: "(if c1 \<noteq> 0 then ret (- 1) else bindP (run_process fuel (os_logged S)
        [''snpguest'', ''verify'', ''attestation'', certs, p, ''--report-data'', a])
        (\<lambda>rc. ret (if rc = 0 then 0 else - 1))) v = Done rc (l', e')"
    unfolding verify_snp_with_certs_def by (elim bindP_DoneE)
  obtain l1 e1 where v: "v = (l1, e1)" by (cases v)
  note 1 = r [unfolded v] and k = kv [unfolded v]
  show ?thesis
  proof (cases "c1 = 0")
    case True
    with k obtain c2 where
      2: "run_process fuel (os_logged S)
        [''snpguest'', ''verify'', ''attestation'', certs, p, ''--report-data'', a] (l1, e1) = Done c2 (l', e')"
      and rc: "rc = (if c2 = 0 then 0 else - 1)" by auto
    have "ran_ok [''snpguest'', ''verify'', ''certs'', certs] l1" by (rule run_process_ran [OF 1 [unfolded True]])
    moreover have "set l1 \<subseteq> set l'" using growsD [OF grows_run_process 2] .
    ultimately have c: "ran_ok [''snpguest'', ''verify'', ''certs'', certs] l'" by (rule ran_ok_mono)
    show ?thesis
    proof (cases "c2 = 0")
      case True
      from run_process_ran [OF 2 [unfolded True]] c True rc show ?thesis
        by (auto simp: attested_def)
    qed (simp add: rc)
  qed (use k in auto)
qed

lemma verify_attempt_ran:
  assumes "verify_attempt fuel (os_logged S) q p a i u (l, e) = Done (Exit rc) (l', e')"
  shows "rc = - 1 \<or> rc = 0 \<and> attested p a l'"
  using assms
  by (auto simp: verify_attempt_def split: if_splits option.splits dest!: verify_snp_with_certs_ran)

lemma verify_attempts_ran:
  assumes "loopX (verify_attempt fuel (os_logged S) q p a) is u (l, e) = Done f (l', e')"
  shows "case f of Next _ \<Rightarrow> True | Exit rc \<Rightarrow> rc = - 1 \<or> rc = 0 \<and> attested p a l'"
  using assms
proof (induction "is" arbitrary: l e)
  case (Cons i "is")
  from Cons.prems obtain g v where b: "verify_attempt fuel (os_logged S) q p a i () (l, e) = Done g v"
    and k: "(case g of Next s' \<Rightarrow> loopX (verify_attempt fuel (os_logged S) q p a) is s'
      | Exit r \<Rightarrow> ret (Exit r)) v = Done f (l', e')" by auto
  obtain l1 e1 where v: "v = (l1, e1)" by (cases v)
  show ?case
  proof (cases g)
    case (Next t)
    with k Cons.IH [of l1 e1] show ?thesis by (simp add: v)
  next
    case (Exit rc)
    with b k verify_attempt_ran [of fuel S q p a i "()" l e rc l1 e1] show ?thesis by (auto simp: v)
  qed
qed auto

lemma verify_with_cache_ran:
  assumes "verify_with_cache fuel C (os_logged S) report p a (l, e) = Done rc (l', e')"
  shows "rc = - 1 \<or> rc = 0 \<and> attested p a l'"
  using assms
  by (auto simp: verify_with_cache_def Let_def split: if_splits option.splits flow.splits
      dest!: verify_attempts_ran)

lemma write_report_written:
  assumes "write_report (os_logged S) p report (l, e) = Done True (l', e')"
  shows "\<exists>r. (Fwrite p report, r) \<in> set l' \<and> o_rc r = int (length report)"
  using assms by (auto simp: write_report_def split: if_splits) blast

lemma grows_with_cache [grows_intros]: "grows (verify_with_cache fuel C (os_logged S) report p a)"
  unfolding verify_with_cache_def Let_def by (intro grows_intros)

text \<open>What the log of a verification says about its result, for a temporary directory.\<close>

definition evidence_outcome :: "os_reply \<Rightarrow> bytes \<Rightarrow> bytes \<Rightarrow> int \<Rightarrow> os_log \<Rightarrow> bool" where
  "evidence_outcome t report report_data result l \<longleftrightarrow>
     (let path = o_text t @ ''/report.bin''; data = ''0x'' @ bytes_to_hex report_data (REPORT_DATA_SIZE * 2 + 1) in
      os_failed t \<and> result = - 1 \<and> l = [(Mkdtemp ''/tmp/ppdpc-snp-verify-XXXXXX'', t)] \<or>
      \<not> os_failed t \<and> (Mkdtemp ''/tmp/ppdpc-snp-verify-XXXXXX'', t) \<in> set l \<and>
      (\<exists>l1 r1 r2. l = l1 @ [(Unlink path, r1), (Rmdir (o_text t), r2)]) \<and>
      (result = - 1 \<or> result = 0 \<and> attested path data l \<and>
         (\<exists>r. (Fwrite path report, r) \<in> set l \<and> o_rc r = int (length report))))"

text \<open>The part of the verification that runs when the temporary directory exists.\<close>

lemma verification_cleans_up:
  assumes "bindP (write_report (os_logged S) path report) (\<lambda>ok.
      bindP (if \<not> ok then ret (- 1) else verify_with_cache fuel C (os_logged S) report path data) (\<lambda>result.
      bindP (sys (os_logged S) (Unlink path)) (\<lambda>_. bindP (sys (os_logged S) (Rmdir d)) (\<lambda>_. ret result)))) (l1, e1) =
    Done result (l, e')"
  shows "set l1 \<subseteq> set l \<and> (\<exists>l3 r1 r2. l = l3 @ [(Unlink path, r1), (Rmdir d, r2)]) \<and>
    (result = - 1 \<or> result = 0 \<and> attested path data l \<and>
      (\<exists>r. (Fwrite path report, r) \<in> set l \<and> o_rc r = int (length report)))"
proof -
  let ?check = "\<lambda>ok. if \<not> ok then ret (- 1) else verify_with_cache fuel C (os_logged S) report path data"
  from assms obtain ok l2 e2 l3 e3 r1 r2 where
    1: "write_report (os_logged S) path report (l1, e1) = Done ok (l2, e2)" and
    2: "?check ok (l2, e2) = Done result (l3, e3)" and 3: "l = l3 @ [(Unlink path, r1), (Rmdir d, r2)]"
    by (elim bindP_DoneE) (auto simp: sys_logged_Done)
  have g: "set l1 \<subseteq> set l2" "set l2 \<subseteq> set l3" "set l3 \<subseteq> set l"
  proof -
    show "set l1 \<subseteq> set l2" using growsD [OF grows_verify(3) 1] .
    have "grows (?check ok)" by (intro grows_intros)
    from growsD [OF this 2] show "set l2 \<subseteq> set l3" .
  qed (use 3 in auto)
  have "result = - 1 \<or> result = 0 \<and> attested path data l \<and>
      (\<exists>r. (Fwrite path report, r) \<in> set l \<and> o_rc r = int (length report))"
  proof (cases ok)
    case True
    with 2 have "verify_with_cache fuel C (os_logged S) report path data (l2, e2) = Done result (l3, e3)" by simp
    from verify_with_cache_ran [OF this] have "result = - 1 \<or> result = 0 \<and> attested path data l3" .
    moreover have "\<exists>r. (Fwrite path report, r) \<in> set l2 \<and> o_rc r = int (length report)"
      using 1 True by (intro write_report_written) simp
    ultimately show ?thesis using g attested_mono by blast
  qed (use 2 in simp)
  with g 3 show ?thesis by blast
qed

text \<open>
  C4: The central node accepts evidence only if its claims are the expected ones, the whole report
  was written to the temporary file, and snpguest verified the certificate chain and then this file
  with the report data that binds it to the enrolment, each in a child process that ended with
  status 0. However the verification goes, the temporary file and then its directory are removed
  last, and nothing is called when the claims are wrong.
\<close>

theorem evidence_verified:
  "on_return (\<lambda>result (l, e').
     if report \<noteq> [] \<and> verify_expected_snp_claims (os_getenv S) report = 0
     then \<exists>t. evidence_outcome t report expected_report_data result l
     else result = - 1 \<and> l = [])
    (verify_sev_snp_report fuel C (os_logged S) report expected_report_data ([], e))"
proof (cases "report = [] \<or> verify_expected_snp_claims (os_getenv S) report \<noteq> 0")
  case True
  then show ?thesis by (auto simp: on_return_def verify_sev_snp_report_def)
next
  case False
  show ?thesis
  proof (rule on_returnI)
    fix result w'
    assume run: "verify_sev_snp_report fuel C (os_logged S) report expected_report_data ([], e) = Done result w'"
    obtain l e' where w': "w' = (l, e')" by (cases w')
    obtain t e1 where t: "os_do S (Mkdtemp ''/tmp/ppdpc-snp-verify-XXXXXX'') e = (t, e1)" by fastforce
    have "evidence_outcome t report expected_report_data result l"
    proof (cases "os_failed t")
      case True
      with run t False show ?thesis by (auto simp: verify_sev_snp_report_def w' evidence_outcome_def)
    next
      case nf: False
      have f: "(report = []) = False" "(verify_expected_snp_claims (os_getenv S) report \<noteq> 0) = False"
        "os_failed t = False" using False nf by auto
      from verification_cleans_up [OF run [unfolded verify_sev_snp_report_def Let_def os_logged_getenv f if_False
            bindP_sys_logged [OF t] append_Nil w']]
      show ?thesis unfolding evidence_outcome_def Let_def using nf by simp
    qed
    with False show "case w' of (l, e') \<Rightarrow>
        if report \<noteq> [] \<and> verify_expected_snp_claims (os_getenv S) report = 0
        then \<exists>t. evidence_outcome t report expected_report_data result l
        else result = - 1 \<and> l = []"
      by (auto simp: w')
  qed
qed

end
