(* ===== verification/Rendezvous.thy ===== *)
theory Rendezvous
  imports Mpi_Io
begin

text \<open>
  How the central node and a worker find each other (src/bench_rendezvous.c): the service name,
  the port that is opened, published, and always withdrawn, the worker's retries, and the error
  handler of MPI_COMM_SELF that is put back. The MPI calls are the requests \<open>rdv_call\<close> to an
  environment; a null handle is \<open>None\<close>. \<open>rd_max_port\<close> is MPI_MAX_PORT_NAME, and a port
  of that length is one whose buffer holds no terminating NUL.
\<close>

datatype errhandler = Errors_Return | Saved_Handler nat

datatype rdv_call = Comm_Get_Errhandler | Comm_Set_Errhandler errhandler | Errhandler_Free errhandler
  | Open_Port | Publish_Name string string | Comm_Accept string | Inter_Set_Errhandler "comm option"
  | Barrier "comm option" | Unpublish_Name string string | Close_Port string
  | Lookup_Name string | Error_Class mpi_rc | Comm_Connect string | Sleep nat

record rdv_reply =
  rp_rc :: mpi_rc
  rp_handler :: "errhandler option"
  rp_port :: string
  rp_comm :: "comm option"
  rp_class :: mpi_rc

record 'e rdv =
  rd_wait :: wait_sys
  rd_max_port :: nat
  rd_call :: "rdv_call \<Rightarrow> 'e \<Rightarrow> rdv_reply \<times> 'e"

definition rdv :: "'e rdv \<Rightarrow> rdv_call \<Rightarrow> ('e world, rdv_reply) prog" where
  "rdv R c = on_env (rd_call R c)"

definition BENCH_DEFAULT_SERVICE :: string where
  "BENCH_DEFAULT_SERVICE = ''ppdpc-enroll''"

definition get_service_name :: "'e rdv \<Rightarrow> string option" where
  \<comment> \<open>None is MPI_ERR_ARG\<close>
  "get_service_name R =
     (let service = (case ws_getenv (rd_wait R) ''PPDPC_SERVICE_NAME'' of
                       None \<Rightarrow> BENCH_DEFAULT_SERVICE | Some s \<Rightarrow> s)
      in if service = '''' \<or> length service \<ge> rd_max_port R then None else Some service)"

definition keep_first_error :: "mpi_rc \<Rightarrow> mpi_rc \<Rightarrow> mpi_rc" where
  "keep_first_error result cleanup_result = (if result = MPI_SUCCESS then cleanup_result else result)"

definition restore_self_handler ::
  "'e rdv \<Rightarrow> errhandler option \<Rightarrow> mpi_rc \<Rightarrow> ('e world, mpi_rc) prog" where
  "restore_self_handler R previous result =
     (case previous of
        None \<Rightarrow> ret result
      | Some h \<Rightarrow>
          bindP (rdv R (Comm_Set_Errhandler h)) (\<lambda>r.
          let result = keep_first_error result (rp_rc r) in
          bindP (rdv R (Errhandler_Free h)) (\<lambda>r.
          ret (keep_first_error result (rp_rc r)))))"

definition accept_cleanup ::
  "'e rdv \<Rightarrow> string \<Rightarrow> string \<Rightarrow> bool \<Rightarrow> bool \<Rightarrow> errhandler option \<Rightarrow> comm option \<Rightarrow> mpi_rc
    \<Rightarrow> ('e world, mpi_rc \<times> comm option) prog" where
  "accept_cleanup R service port opened published previous icomm result =
     bindP (if published then bindP (rdv R (Unpublish_Name service port))
                                (\<lambda>r. ret (keep_first_error result (rp_rc r)))
            else ret result) (\<lambda>result.
     bindP (if opened then bindP (rdv R (Close_Port port)) (\<lambda>r. ret (keep_first_error result (rp_rc r)))
            else ret result) (\<lambda>result.
     bindP (restore_self_handler R previous result) (\<lambda>result.
     bindP (on_wait (npb_wait_end (rd_wait R))) (\<lambda>_.
     ret (result, icomm)))))"

definition join_intercomm ::
  "'e rdv \<Rightarrow> rdv_reply \<Rightarrow> ('e world, mpi_rc) prog" where
  \<comment> \<open>after MPI_Comm_accept or MPI_Comm_connect: the new communicator's handler and a barrier\<close>
  "join_intercomm R r =
     (if rp_rc r \<noteq> MPI_SUCCESS then ret (rp_rc r)
      else bindP (rdv R (Inter_Set_Errhandler (rp_comm r))) (\<lambda>q.
        if rp_rc q \<noteq> MPI_SUCCESS then ret (rp_rc q)
        else bindP (rdv R (Barrier (rp_comm r))) (\<lambda>q. ret (rp_rc q))))"

definition bench_accept_worker :: "'e rdv \<Rightarrow> ('e world, mpi_rc \<times> comm option) prog" where
  "bench_accept_worker R =
     (case get_service_name R of
        None \<Rightarrow> ret (MPI_ERR_ARG, None)
      | Some service \<Rightarrow>
          bindP (on_wait (npb_wait_begin (rd_wait R) NPB_WAIT_ENROLLMENT)) (\<lambda>_.
          bindP (rdv R Comm_Get_Errhandler) (\<lambda>g.
          let previous = rp_handler g in
          if rp_rc g \<noteq> MPI_SUCCESS
          then accept_cleanup R service [] False False previous None (rp_rc g)
          else bindP (rdv R (Comm_Set_Errhandler Errors_Return)) (\<lambda>r.
          if rp_rc r \<noteq> MPI_SUCCESS
          then accept_cleanup R service [] False False previous None (rp_rc r)
          else bindP (rdv R Open_Port) (\<lambda>r.
          let port = rp_port r in
          if rp_rc r \<noteq> MPI_SUCCESS
          then accept_cleanup R service port False False previous None (rp_rc r)
          else bindP (rdv R (Publish_Name service port)) (\<lambda>r.
          if rp_rc r \<noteq> MPI_SUCCESS
          then accept_cleanup R service port True False previous None (rp_rc r)
          else bindP (rdv R (Comm_Accept port)) (\<lambda>r.
               bindP (join_intercomm R r) (\<lambda>result.
               accept_cleanup R service port True True previous (rp_comm r) result))))))))"

definition lookup_step ::
  "'e rdv \<Rightarrow> string \<Rightarrow> unit \<Rightarrow> ('e world, (unit, mpi_rc \<times> string) flow) prog" where
  \<comment> \<open>one iteration of the worker's lookup loop\<close>
  "lookup_step R service u =
     bindP (rdv R (Lookup_Name service)) (\<lambda>r.
     if rp_rc r = MPI_SUCCESS then
       (if rp_port r = [] \<or> length (rp_port r) \<ge> rd_max_port R
        then ret (Exit (MPI_ERR_PORT, rp_port r))
        else ret (Exit (MPI_SUCCESS, rp_port r)))
     else
       bindP (rdv R (Error_Class (rp_rc r))) (\<lambda>c.
       if rp_rc c \<noteq> MPI_SUCCESS then ret (Exit (rp_rc c, rp_port r))
       else if rp_class c \<noteq> MPI_ERR_NAME \<and> rp_class c \<noteq> MPI_ERR_SERVICE
       then ret (Exit (rp_rc r, rp_port r))
       else bindP (rdv R (Sleep 1)) (\<lambda>_. ret (Next ()))))"

definition connect_cleanup ::
  "'e rdv \<Rightarrow> errhandler option \<Rightarrow> comm option \<Rightarrow> mpi_rc \<Rightarrow> ('e world, mpi_rc \<times> comm option) prog" where
  "connect_cleanup R previous icomm result =
     bindP (restore_self_handler R previous result) (\<lambda>result.
     bindP (on_wait (npb_wait_end (rd_wait R))) (\<lambda>_. ret (result, icomm)))"

definition bench_connect_worker :: "nat \<Rightarrow> 'e rdv \<Rightarrow> ('e world, mpi_rc \<times> comm option) prog" where
  "bench_connect_worker fuel R =
     (case get_service_name R of
        None \<Rightarrow> ret (MPI_ERR_ARG, None)
      | Some service \<Rightarrow>
          bindP (on_wait (npb_wait_begin (rd_wait R) NPB_WAIT_ENROLLMENT)) (\<lambda>_.
          bindP (rdv R Comm_Get_Errhandler) (\<lambda>g.
          let previous = rp_handler g in
          if rp_rc g \<noteq> MPI_SUCCESS then connect_cleanup R previous None (rp_rc g)
          else bindP (rdv R (Comm_Set_Errhandler Errors_Return)) (\<lambda>r.
          if rp_rc r \<noteq> MPI_SUCCESS then connect_cleanup R previous None (rp_rc r)
          else bindP (whileX fuel (lookup_step R service) ()) (\<lambda>(result, port).
          if result \<noteq> MPI_SUCCESS then connect_cleanup R previous None result
          else bindP (rdv R (Comm_Connect port)) (\<lambda>r.
               bindP (join_intercomm R r) (\<lambda>result.
               connect_cleanup R previous (rp_comm r) result)))))))"

section \<open>Logged runs\<close>

text \<open>The same environment, with the calls and their replies recorded in order.\<close>

type_synonym rdv_log = "(rdv_call \<times> rdv_reply) list"

definition rdv_logged :: "'e rdv \<Rightarrow> (rdv_log \<times> 'e) rdv" where
  "rdv_logged R = \<lparr>rd_wait = rd_wait R, rd_max_port = rd_max_port R,
     rd_call = (\<lambda>c (l, e). case rd_call R c e of (r, e') \<Rightarrow> (r, (l @ [(c, r)], e')))\<rparr>"

lemma rdv_logged_simps [simp]:
  "rd_wait (rdv_logged R) = rd_wait R" "rd_max_port (rdv_logged R) = rd_max_port R"
  by (simp_all add: rdv_logged_def)

lemma rdv_logged_Done [simp]:
  "rdv (rdv_logged R) c (s, l, e) = Done r w' \<longleftrightarrow>
   fst w' = s \<and> fst (snd w') = l @ [(c, r)] \<and> rd_call R c e = (r, snd (snd w'))"
  by (cases w') (auto simp: rdv_def rdv_logged_def split: prod.splits)

text \<open>What the log of the calls says of the result and of the resources.\<close>

definition first_error :: "rdv_log \<Rightarrow> mpi_rc" where
  "first_error l = foldl keep_first_error MPI_SUCCESS (map (\<lambda>(c, r). rp_rc r) l)"

definition issued :: "(rdv_call \<Rightarrow> bool) \<Rightarrow> rdv_log \<Rightarrow> rdv_call list" where
  "issued is_call l = filter is_call (map fst l)"

definition withdrawn :: "rdv_log \<Rightarrow> bool" where
  \<comment> \<open>every name published and every port opened is withdrawn exactly once, the last first\<close>
  "withdrawn l \<longleftrightarrow>
     issued (\<lambda>c. case c of Unpublish_Name s p \<Rightarrow> True | Close_Port p \<Rightarrow> True | _ \<Rightarrow> False) l =
       rev (concat (map (\<lambda>(c, r). if rp_rc r \<noteq> MPI_SUCCESS then [] else
           (case c of Open_Port \<Rightarrow> [Close_Port (rp_port r)]
            | Publish_Name s p \<Rightarrow> [Unpublish_Name s p] | _ \<Rightarrow> [])) l))"

text \<open>
  C30: For any behaviour of MPI, when the central node's rendezvous returns after its name was
  valid, its result is the first error of the calls it made, in their order (so it is success
  exactly when all of them succeeded); the port it opened is closed and the name it published is
  unpublished, the name before the port, exactly once each and only if that call had succeeded.
\<close>

theorem accept_withdraws:
  "on_return (\<lambda>(result, icomm) (s', l, e'). withdrawn l \<and>
      result = (if get_service_name R = None then MPI_ERR_ARG else first_error l))
    (bench_accept_worker (rdv_logged R) (s, [], e))"
proof (cases "get_service_name R")
  case None
  then have g: "get_service_name (rdv_logged R) = None" by (simp add: get_service_name_def)
  show ?thesis
    by (intro on_returnI) (auto simp: bench_accept_worker_def g None withdrawn_def issued_def)
next
  case (Some service)
  then have g: "get_service_name (rdv_logged R) = Some service" by (simp add: get_service_name_def)
  show ?thesis
    by (intro on_returnI)
      (auto simp: bench_accept_worker_def g Some Let_def accept_cleanup_def restore_self_handler_def
        join_intercomm_def withdrawn_def issued_def first_error_def keep_first_error_def
        split: if_splits option.splits)
qed

end
