(* ===== verification/Enrollment.thy ===== *)
theory Enrollment
  imports Snp_Report Rendezvous Master_State
begin

text \<open>
  The enrolment of a worker by the central node (src/master_npb.c, src/worker_npb.c): the
  attestation binding (\<open>ea_*\<close>), the key-exchange transcript, the keys derived from it and their
  confirmation, one round of the central node's enrolment loop, and the worker's side of it.
  Packed structs are the concatenation of their fields. The record \<open>node\<close> collects what the
  programs call outside the repository.
\<close>

record 'e node =
  nd_mpi :: "'e mpi"
  nd_rdv :: "'e rdv"
  nd_os :: "'e os"
  nd_crypto :: crypto
  nd_sodium_init :: "'e \<Rightarrow> bool \<times> 'e"
  nd_randombytes :: "nat \<Rightarrow> 'e \<Rightarrow> bytes \<times> 'e"
  nd_kx_keypair :: "'e \<Rightarrow> (bytes \<times> bytes) \<times> 'e"
  nd_skip_attestation :: bool

definition on_os :: "('e, 'a) prog \<Rightarrow> ('e world, 'a) prog" where
  "on_os m w = (case m (snd w) of Done x e \<Rightarrow> Done x (fst w, e) | Halt c e \<Rightarrow> Halt c (fst w, e)
     | Spin e \<Rightarrow> Spin (fst w, e))"

lemma on_os_Done [simp]: "on_os m (s, e) = Done x w' \<longleftrightarrow> m e = Done x (snd w') \<and> s = fst w'"
  by (cases w') (auto simp: on_os_def split: outcome.splits)

section \<open>Messages\<close>

abbreviation EA_CONTEXT_LEN :: nat where "EA_CONTEXT_LEN \<equiv> 32"
abbreviation BINDING_LEN :: nat where "BINDING_LEN \<equiv> 64"
abbreviation PUBLICKEYBYTES :: nat where "PUBLICKEYBYTES \<equiv> 32"
abbreviation EA_PAYLOAD_VERSION :: u32 where "EA_PAYLOAD_VERSION \<equiv> 2"

definition ascii :: "string \<Rightarrow> bytes" where
  "ascii s = map of_char s"

definition EA_MEDIA_TYPE :: bytes where "EA_MEDIA_TYPE = ascii ''application/eat+cwt''"
definition EA_EXPORTER_LABEL :: bytes where "EA_EXPORTER_LABEL = ascii ''Attestation''"

definition char_field :: "nat \<Rightarrow> bytes \<Rightarrow> bytes" where
  \<comment> \<open>a zeroed char array after strncpy of at most all but its last element\<close>
  "char_field n text = take (n - 1) text @ replicate (n - min (n - 1) (length text)) 0"

definition strncmp_eq :: "nat \<Rightarrow> bytes \<Rightarrow> bytes \<Rightarrow> bool" where
  \<comment> \<open>strncmp(field, text, n) == 0\<close>
  "strncmp_eq n field text \<longleftrightarrow>
     takeWhile (\<lambda>c. c \<noteq> 0) (take n field) = takeWhile (\<lambda>c. c \<noteq> 0) (take n text)"

record ea_binder =
  aik_pub_hash :: bytes
  eb_binding :: bytes
  exporter_label :: bytes

record ea_payload_hdr =
  ph_version :: u32
  media_type :: bytes
  ph_evidence_len :: u32
  ph_binder :: ea_binder

record ea_request =
  eq_context :: bytes
  attestation_offer :: u8

record ea_auth_hdr =
  ah_client_pk :: bytes
  ah_payload_hdr :: ea_payload_hdr

record kx_server_auth =
  sa_server_pk :: bytes
  sa_signature :: bytes

definition encode_ea_request :: "ea_request \<Rightarrow> bytes" where
  "encode_ea_request r = eq_context r @ [attestation_offer r]"

definition decode_ea_request :: "bytes \<Rightarrow> ea_request" where
  "decode_ea_request bs = \<lparr>eq_context = take 32 bs, attestation_offer = bs ! 32\<rparr>"

definition encode_ea_auth_hdr :: "ea_auth_hdr \<Rightarrow> bytes" where
  "encode_ea_auth_hdr h =
     (let p = ah_payload_hdr h; b = ph_binder p in
      ah_client_pk h @ le_enc 4 (ph_version p) @ media_type p @ le_enc 4 (ph_evidence_len p)
      @ aik_pub_hash b @ eb_binding b @ exporter_label b)"

definition decode_ea_auth_hdr :: "bytes \<Rightarrow> ea_auth_hdr" where
  "decode_ea_auth_hdr bs =
     \<lparr>ah_client_pk = take 32 bs,
      ah_payload_hdr = \<lparr>ph_version = field32 32 bs, media_type = take 64 (drop 36 bs),
        ph_evidence_len = field32 100 bs,
        ph_binder = \<lparr>aik_pub_hash = take 32 (drop 104 bs), eb_binding = take 64 (drop 136 bs),
          exporter_label = take 64 (drop 200 bs)\<rparr>\<rparr>\<rparr>"

definition encode_kx_server_auth :: "kx_server_auth \<Rightarrow> bytes" where
  "encode_kx_server_auth a = sa_server_pk a @ sa_signature a"

definition decode_kx_server_auth :: "bytes \<Rightarrow> kx_server_auth" where
  "decode_kx_server_auth bs = \<lparr>sa_server_pk = take 32 bs, sa_signature = take 64 (drop 32 bs)\<rparr>"

section \<open>Hashes\<close>

definition hash_evidence :: "crypto \<Rightarrow> bytes \<Rightarrow> bytes" where
  "hash_evidence C evidence = generichash C HASH_LEN [] evidence"

definition kx_transcript_input :: "bytes \<Rightarrow> bytes \<Rightarrow> bytes \<Rightarrow> bytes \<Rightarrow> bytes \<Rightarrow> bytes" where
  "kx_transcript_input context client_pk server_pk binding evidence_hash =
     ascii ''PPDPC-OPENMPI-KX-V3'' @ context @ client_pk @ server_pk @ binding @ evidence_hash"

definition compute_kx_transcript ::
  "crypto \<Rightarrow> bytes \<Rightarrow> bytes \<Rightarrow> bytes \<Rightarrow> bytes \<Rightarrow> bytes \<Rightarrow> bytes" where
  "compute_kx_transcript C context client_pk server_pk binding evidence_hash =
     generichash C HASH_LEN [] (kx_transcript_input context client_pk server_pk binding evidence_hash)"

definition derive_bound_key :: "crypto \<Rightarrow> bytes \<Rightarrow> bytes \<Rightarrow> string \<Rightarrow> bytes" where
  "derive_bound_key C raw_key transcript_hash label =
     generichash C KEYB raw_key (ascii ''PPDPC-OPENMPI-KDF-V2'' @ ascii label @ transcript_hash)"

definition compute_key_confirmation :: "crypto \<Rightarrow> bytes \<Rightarrow> bytes \<Rightarrow> string \<Rightarrow> bytes" where
  "compute_key_confirmation C key transcript_hash role =
     generichash C HASH_LEN key (ascii ''PPDPC-OPENMPI-FINISHED-V2'' @ ascii role @ transcript_hash)"

definition ea_aik_pub_hash :: "crypto \<Rightarrow> bytes \<Rightarrow> bytes" where
  "ea_aik_pub_hash C pub_key = generichash C HASH_LEN [] pub_key"

definition ea_binding_value :: "crypto \<Rightarrow> bytes \<Rightarrow> bytes \<Rightarrow> bytes" where
  "ea_binding_value C pub_key context = generichash C BINDING_LEN [] (pub_key @ context)"

definition ea_compute_binding :: "crypto \<Rightarrow> bytes \<Rightarrow> bytes \<Rightarrow> bytes \<times> bytes" where
  "ea_compute_binding C context pub_key = (ea_aik_pub_hash C pub_key, ea_binding_value C pub_key context)"

definition ea_verify_payload :: "crypto \<Rightarrow> ea_payload_hdr \<Rightarrow> bytes \<Rightarrow> bytes \<Rightarrow> int" where
  "ea_verify_payload C hdr context pub_key =
     (if ph_version hdr \<noteq> EA_PAYLOAD_VERSION then - 1
      else if \<not> strncmp_eq 64 (media_type hdr) EA_MEDIA_TYPE then - 1
      else if \<not> strncmp_eq 64 (exporter_label (ph_binder hdr)) EA_EXPORTER_LABEL then - 1
      else
        let (expected_aik, expected_binding) = ea_compute_binding C context pub_key in
        if expected_aik \<noteq> aik_pub_hash (ph_binder hdr) then - 1
        else if expected_binding \<noteq> eb_binding (ph_binder hdr) then - 1
        else 0)"

section \<open>The session keys\<close>

record session_keys =
  traffic_rx :: bytes
  traffic_tx :: bytes
  confirm_rx :: bytes
  confirm_tx :: bytes

definition server_session :: "crypto \<Rightarrow> bytes \<Rightarrow> bytes \<Rightarrow> bytes \<Rightarrow> session_keys" where
  "server_session C raw_rx raw_tx transcript_hash =
     \<lparr>traffic_rx = derive_bound_key C raw_rx transcript_hash ''traffic:w2c'',
      traffic_tx = derive_bound_key C raw_tx transcript_hash ''traffic:c2w'',
      confirm_rx = derive_bound_key C raw_rx transcript_hash ''confirm:w2c'',
      confirm_tx = derive_bound_key C raw_tx transcript_hash ''confirm:c2w''\<rparr>"

definition client_session :: "crypto \<Rightarrow> bytes \<Rightarrow> bytes \<Rightarrow> bytes \<Rightarrow> session_keys" where
  "client_session C raw_rx raw_tx transcript_hash =
     \<lparr>traffic_rx = derive_bound_key C raw_rx transcript_hash ''traffic:c2w'',
      traffic_tx = derive_bound_key C raw_tx transcript_hash ''traffic:w2c'',
      confirm_rx = derive_bound_key C raw_rx transcript_hash ''confirm:c2w'',
      confirm_tx = derive_bound_key C raw_tx transcript_hash ''confirm:w2c''\<rparr>"

section \<open>The central node's round\<close>

text \<open>The workers enrolled so far, with the time that each took.\<close>

record enrolled =
  en_links :: links
  en_ms :: "dbl list"

definition verify_evidence ::
  "nat \<Rightarrow> 'e node \<Rightarrow> ea_request \<Rightarrow> ea_auth_hdr \<Rightarrow> bytes \<Rightarrow> ('e world, bool) prog" where
  \<comment> \<open>attest_ok, as it is sent to the worker\<close>
  "verify_evidence fuel N ea_req auth_hdr evidence =
     (let hdr = ah_payload_hdr auth_hdr;
          attest_ok = (ea_verify_payload (nd_crypto N) hdr (eq_context ea_req) (ah_client_pk auth_hdr) = 0) in
      bindP (if attest_ok \<and> evidence \<noteq> [] then
               bindP (on_os (verify_sev_snp_report fuel (nd_crypto N) (nd_os N) evidence
                        (eb_binding (ph_binder hdr)))) (\<lambda>rc. ret (rc = 0))
             else ret attest_ok) (\<lambda>attest_ok.
      let attest_ok = (if \<not> nd_skip_attestation N \<and> evidence = [] then False else attest_ok) in
      ret (if nd_skip_attestation N then True else attest_ok)))"

definition attest_worker ::
  "nat \<Rightarrow> 'e node \<Rightarrow> comm \<Rightarrow> ea_request \<Rightarrow> ('e world, (ea_auth_hdr \<times> bytes \<times> bool) option) prog" where
  \<comment> \<open>None when the announced evidence is too large\<close>
  "attest_worker fuel N icomm ea_req =
     bindP (mpi_send_f (nd_mpi N) (encode_ea_request ea_req) TAG_EA_REQUEST icomm) (\<lambda>_.
     bindP (mpi_recv_f (nd_mpi N) 264 TAG_EA_AUTH_HDR icomm) (\<lambda>bs.
     let auth_hdr = decode_ea_auth_hdr bs;
         evidence_len = unat (ph_evidence_len (ah_payload_hdr auth_hdr)) in
     if evidence_len > MAX_REPORT_LEN then ret None
     else
       bindP (if evidence_len > 0 then
                bindP (on_env (m_malloc (nd_mpi N) evidence_len)) (\<lambda>ok.
                if \<not> ok then halt 1
                else mpi_recv_f (nd_mpi N) (int evidence_len) TAG_EA_EVIDENCE_DATA icomm)
              else ret []) (\<lambda>evidence.
       bindP (verify_evidence fuel N ea_req auth_hdr evidence) (\<lambda>attest_ok.
       bindP (mpi_send_f (nd_mpi N) (le_enc 4 ((if attest_ok then 1 else 0) :: u32)) TAG_EA_RESULT icomm) (\<lambda>_.
       ret (Some (auth_hdr, hash_evidence (nd_crypto N) evidence, attest_ok)))))))"

definition server_key_exchange ::
  "'e node \<Rightarrow> bytes \<Rightarrow> comm \<Rightarrow> ea_request \<Rightarrow> ea_auth_hdr \<Rightarrow> bytes
    \<Rightarrow> ('e world, (session_keys \<times> bytes) option) prog" where
  \<comment> \<open>the owner's signature, the key exchange, and the confirmations; None rejects the worker\<close>
  "server_key_exchange N owner_sign_sk icomm ea_req auth_hdr evidence_hash =
     (let C = nd_crypto N in
      bindP (on_env (nd_kx_keypair N)) (\<lambda>(server_pk, server_sk).
      let transcript_hash = compute_kx_transcript C (eq_context ea_req) (ah_client_pk auth_hdr) server_pk
                              (eb_binding (ph_binder (ah_payload_hdr auth_hdr))) evidence_hash in
      case sign_detached C transcript_hash owner_sign_sk of
        None \<Rightarrow> ret None
      | Some signature \<Rightarrow>
          bindP (mpi_send_f (nd_mpi N)
                   (encode_kx_server_auth \<lparr>sa_server_pk = server_pk, sa_signature = signature\<rparr>)
                   TAG_KX_SERVER_AUTH icomm) (\<lambda>_.
          case kx_server C server_pk server_sk (ah_client_pk auth_hdr) of
            None \<Rightarrow> ret None
          | Some (raw_rx, raw_tx) \<Rightarrow>
              let keys = server_session C raw_rx raw_tx transcript_hash in
              bindP (mpi_recv_f (nd_mpi N) (int HASH_LEN) TAG_KX_CLIENT_FINISH icomm) (\<lambda>client_finish.
              if client_finish \<noteq> compute_key_confirmation C (confirm_rx keys) transcript_hash ''worker''
              then ret None
              else
                bindP (mpi_send_f (nd_mpi N)
                         (compute_key_confirmation C (confirm_tx keys) transcript_hash ''central-node'')
                         TAG_KX_SERVER_FINISH icomm) (\<lambda>_.
                ret (Some (keys, transcript_hash)))))))"

definition add_worker :: "comm \<Rightarrow> session_keys \<Rightarrow> bytes \<Rightarrow> dbl \<Rightarrow> enrolled \<Rightarrow> enrolled" where
  "add_worker icomm keys transcript_hash ms s =
     (let L = en_links s in
      s\<lparr>en_links := \<lparr>lk_workers = lk_workers L @ [icomm], lk_tx_keys = lk_tx_keys L @ [traffic_tx keys],
                     lk_rx_keys = lk_rx_keys L @ [traffic_rx keys],
                     lk_bindings = lk_bindings L @ [transcript_hash]\<rparr>,
        en_ms := en_ms s @ [ms]\<rparr>)"

definition enroll_round ::
  "nat \<Rightarrow> 'e node \<Rightarrow> bytes \<Rightarrow> nat \<Rightarrow> enrolled \<Rightarrow> ('e world, enrolled) prog" where
  "enroll_round fuel N owner_sign_sk rnd s =
     bindP (on_wait (npb_wait_begin (m_wait (nd_mpi N)) NPB_WAIT_ENROLLMENT)) (\<lambda>_.
     bindP (mpi_wtime (nd_mpi N)) (\<lambda>t_worker_start.
     bindP (bench_accept_worker (nd_rdv N)) (\<lambda>(rc, accepted).
     if rc \<noteq> MPI_SUCCESS then die_mpi (nd_mpi N) rc
     else
       let icomm = (case accepted of None \<Rightarrow> 0 | Some c \<Rightarrow> c);
           reject = bindP (npb_mpi_disconnect (nd_mpi N) icomm) (\<lambda>_.
                    bindP (on_wait (npb_wait_end (m_wait (nd_mpi N)))) (\<lambda>_. ret s)) in
       bindP (on_env (nd_randombytes N EA_CONTEXT_LEN)) (\<lambda>context.
       let ea_req = \<lparr>eq_context = context, attestation_offer = 1\<rparr> in
       bindP (attest_worker fuel N icomm ea_req) (\<lambda>attested.
       case attested of
         None \<Rightarrow> reject
       | Some (auth_hdr, evidence_hash, attest_ok) \<Rightarrow>
           if \<not> attest_ok then reject
           else
             bindP (server_key_exchange N owner_sign_sk icomm ea_req auth_hdr evidence_hash) (\<lambda>kx.
             case kx of
               None \<Rightarrow> reject
             | Some (keys, transcript_hash) \<Rightarrow>
                 bindP (mpi_wtime (nd_mpi N)) (\<lambda>finished.
                 bindP (on_wait (npb_wait_end (m_wait (nd_mpi N)))) (\<lambda>_.
                 ret (add_worker icomm keys transcript_hash (elapsed_ms t_worker_start finished) s)))))))))"

definition enroll_workers ::
  "nat \<Rightarrow> 'e node \<Rightarrow> bytes \<Rightarrow> nat \<Rightarrow> ('e world, enrolled) prog" where
  "enroll_workers fuel N owner_sign_sk target =
     loopP (enroll_round fuel N owner_sign_sk) [1..<target + 1]
       \<lparr>en_links = \<lparr>lk_workers = [], lk_tx_keys = [], lk_rx_keys = [], lk_bindings = []\<rparr>, en_ms = []\<rparr>"

section \<open>The worker's side\<close>

definition worker_evidence ::
  "nat \<Rightarrow> 'e node \<Rightarrow> ea_request \<Rightarrow> bytes \<Rightarrow> ('e world, bytes) prog" where
  "worker_evidence fuel N ea_req binding =
     (if \<not> nd_skip_attestation N \<and> attestation_offer ea_req \<noteq> 0 then
        bindP (on_os (get_sev_snp_report fuel (nd_os N) binding)) (\<lambda>r.
        case r of None \<Rightarrow> halt 1 | Some evidence \<Rightarrow> ret evidence)
      else ret [])"

definition worker_auth_hdr :: "bytes \<Rightarrow> bytes \<Rightarrow> bytes \<Rightarrow> nat \<Rightarrow> ea_auth_hdr" where
  "worker_auth_hdr client_pk aik_hash binding evidence_len =
     \<lparr>ah_client_pk = client_pk,
      ah_payload_hdr = \<lparr>ph_version = EA_PAYLOAD_VERSION, media_type = char_field 64 EA_MEDIA_TYPE,
        ph_evidence_len = of_nat evidence_len,
        ph_binder = \<lparr>aik_pub_hash = aik_hash, eb_binding = binding,
          exporter_label = char_field 64 EA_EXPORTER_LABEL\<rparr>\<rparr>\<rparr>"

definition worker_leave :: "'e node \<Rightarrow> comm \<Rightarrow> ('e world, worker_chan option) prog" where
  \<comment> \<open>disconnect, finalize and return 1\<close>
  "worker_leave N icomm =
     bindP (npb_mpi_disconnect (nd_mpi N) icomm) (\<lambda>_.
     bindP (npb_mpi_finalize (nd_mpi N)) (\<lambda>_. ret None))"

definition client_key_exchange ::
  "'e node \<Rightarrow> bytes \<Rightarrow> comm \<Rightarrow> ea_request \<Rightarrow> bytes \<Rightarrow> bytes \<Rightarrow> bytes \<Rightarrow> bytes
    \<Rightarrow> ('e world, worker_chan option) prog" where
  "client_key_exchange N owner_sign_pk icomm ea_req client_pk client_sk binding evidence_hash =
     (let C = nd_crypto N in
      bindP (mpi_recv_f (nd_mpi N) 96 TAG_KX_SERVER_AUTH icomm) (\<lambda>bs.
      let server_auth = decode_kx_server_auth bs;
          transcript_hash = compute_kx_transcript C (eq_context ea_req) client_pk
                              (sa_server_pk server_auth) binding evidence_hash in
      if \<not> sign_verify C (sa_signature server_auth) transcript_hash owner_sign_pk
      then worker_leave N icomm
      else case kx_client C client_pk client_sk (sa_server_pk server_auth) of
        None \<Rightarrow> worker_leave N icomm
      | Some (raw_rx, raw_tx) \<Rightarrow>
          let keys = client_session C raw_rx raw_tx transcript_hash in
          bindP (mpi_send_f (nd_mpi N)
                   (compute_key_confirmation C (confirm_tx keys) transcript_hash ''worker'')
                   TAG_KX_CLIENT_FINISH icomm) (\<lambda>_.
          bindP (mpi_recv_f (nd_mpi N) (int HASH_LEN) TAG_KX_SERVER_FINISH icomm) (\<lambda>server_finish.
          if server_finish \<noteq> compute_key_confirmation C (confirm_rx keys) transcript_hash ''central-node''
          then worker_leave N icomm
          else
            bindP (on_wait (npb_wait_end (m_wait (nd_mpi N)))) (\<lambda>_.
            ret (Some \<lparr>g_session_key = traffic_tx keys, g_recv_key = traffic_rx keys,
                       g_channel_binding = transcript_hash, send_nonce_ctr = 0, recv_nonce_ctr = 0\<rparr>))))))"

definition worker_enroll ::
  "nat \<Rightarrow> 'e node \<Rightarrow> bytes \<Rightarrow> comm \<Rightarrow> ('e world, worker_chan option) prog" where
  \<comment> \<open>from the request of the central node to the session keys; None is an exit with status 1\<close>
  "worker_enroll fuel N owner_sign_pk icomm =
     (let C = nd_crypto N in
      bindP (mpi_recv_f (nd_mpi N) 33 TAG_EA_REQUEST icomm) (\<lambda>bs.
      let ea_req = decode_ea_request bs in
      bindP (on_env (nd_kx_keypair N)) (\<lambda>(client_pk, client_sk).
      let (aik_hash, binding) = ea_compute_binding C (eq_context ea_req) client_pk in
      bindP (worker_evidence fuel N ea_req binding) (\<lambda>evidence.
      bindP (mpi_send_f (nd_mpi N)
               (encode_ea_auth_hdr (worker_auth_hdr client_pk aik_hash binding (length evidence)))
               TAG_EA_AUTH_HDR icomm) (\<lambda>_.
      bindP (if evidence \<noteq> [] then mpi_send_f (nd_mpi N) evidence TAG_EA_EVIDENCE_DATA icomm
             else ret ()) (\<lambda>_.
      bindP (mpi_recv_f (nd_mpi N) 4 TAG_EA_RESULT icomm) (\<lambda>res.
      if (le_dec res :: u32) = 0 then worker_leave N icomm
      else client_key_exchange N owner_sign_pk icomm ea_req client_pk client_sk binding
             (hash_evidence C evidence))))))))"

section \<open>An honest worker\<close>

definition hash_documented :: "crypto \<Rightarrow> bool" where
  "hash_documented C \<longleftrightarrow> (\<forall>n k x. length (generichash C n k x) = n)"

lemma hash_length [simp]: "hash_documented C \<Longrightarrow> length (generichash C n k x) = n"
  by (simp add: hash_documented_def)

lemma length_ascii [simp]: "length (ascii s) = length s"
  by (simp add: ascii_def)

lemma char_field_length [simp]: "0 < n \<Longrightarrow> length (char_field n text) = n"
  by (simp add: char_field_def)

lemma char_field_eq:
  assumes "length text < n" and "0 \<notin> set text"
  shows "strncmp_eq n (char_field n text) text"
proof -
  have t: "takeWhile (\<lambda>c. c \<noteq> 0) (text @ replicate (n - length text) 0) = text"
  proof -
    have "takeWhile (\<lambda>c. c \<noteq> 0) (replicate k (0 :: u8)) = []" for k by (cases k) simp_all
    moreover have "\<forall>c\<in>set text. c \<noteq> 0" using assms(2) by auto
    ultimately show ?thesis by (simp add: takeWhile_append2)
  qed
  have "char_field n text = text @ replicate (n - length text) 0" using assms(1) by (simp add: char_field_def)
  moreover have u: "takeWhile (\<lambda>c. c \<noteq> 0) text = text" using assms(2) by (auto simp: takeWhile_eq_all_conv)
  ultimately show ?thesis using assms(1) by (simp add: strncmp_eq_def t u)
qed

lemma ea_texts:
  "length EA_MEDIA_TYPE = 19" "0 \<notin> set EA_MEDIA_TYPE" "length EA_EXPORTER_LABEL = 11" "0 \<notin> set EA_EXPORTER_LABEL"
  by (simp_all add: EA_MEDIA_TYPE_def EA_EXPORTER_LABEL_def ascii_def)

lemma decode_encode_auth_hdr:
  assumes "length (ah_client_pk h) = 32" and "length (media_type (ah_payload_hdr h)) = 64"
    and "length (aik_pub_hash (ph_binder (ah_payload_hdr h))) = 32"
    and "length (eb_binding (ph_binder (ah_payload_hdr h))) = 64"
    and "length (exporter_label (ph_binder (ah_payload_hdr h))) = 64"
  shows "decode_ea_auth_hdr (encode_ea_auth_hdr h) = h" and "length (encode_ea_auth_hdr h) = 264"
  using assms by (simp_all add: decode_ea_auth_hdr_def encode_ea_auth_hdr_def Let_def field_defs)

lemma decode_encode_server_auth:
  "length (sa_server_pk a) = 32 \<Longrightarrow> length (sa_signature a) = 64 \<Longrightarrow>
   decode_kx_server_auth (encode_kx_server_auth a) = a"
  by (simp add: decode_kx_server_auth_def encode_kx_server_auth_def)

text \<open>
  C34: The header that a worker builds survives the wire, and the central node's check of it passes:
  the version, both texts and both hashes of the key and the request's context agree. When the key
  exchange gives both sides the same secrets, the worker's receive key is the central node's send key
  and the other way round, both sides have the same channel binding, and each side's confirmation is
  the one the other expects.
\<close>

theorem honest_enrolment_agrees:
  assumes "hash_documented C" and "length client_pk = PUBLICKEYBYTES" and "evidence_len \<le> MAX_REPORT_LEN"
    and "ea_compute_binding C context client_pk = (aik_hash, binding)"
    and "decode_ea_auth_hdr (encode_ea_auth_hdr (worker_auth_hdr client_pk aik_hash binding evidence_len)) = h"
    and "kx_server C server_pk server_sk (ah_client_pk h) = Some (raw_rx, raw_tx)"
    and "kx_client C client_pk client_sk server_pk = Some (raw_tx, raw_rx)"
  shows "let hdr = ah_payload_hdr h;
      server_transcript = compute_kx_transcript C context (ah_client_pk h) server_pk
        (eb_binding (ph_binder hdr)) evidence_hash;
      client_transcript = compute_kx_transcript C context client_pk server_pk binding evidence_hash;
      server = server_session C raw_rx raw_tx server_transcript;
      client = client_session C raw_tx raw_rx client_transcript in
    ea_verify_payload C hdr context (ah_client_pk h) = 0 \<and>
    unat (ph_evidence_len hdr) = evidence_len \<and> server_transcript = client_transcript \<and>
    traffic_tx server = traffic_rx client \<and> traffic_rx server = traffic_tx client \<and>
    confirm_tx server = confirm_rx client \<and> confirm_rx server = confirm_tx client"
proof -
  have b: "aik_hash = ea_aik_pub_hash C client_pk" "binding = ea_binding_value C client_pk context"
    using assms(4) by (auto simp: ea_compute_binding_def)
  then have l: "length aik_hash = 32" "length binding = 64"
    using assms(1) by (simp_all add: ea_aik_pub_hash_def ea_binding_value_def HASH_LEN_def)
  have h: "h = worker_auth_hdr client_pk aik_hash binding evidence_len"
    unfolding assms(5) [symmetric]
    by (rule decode_encode_auth_hdr(1)) (simp_all add: worker_auth_hdr_def assms(2) l)
  have e: "unat (of_nat evidence_len :: u32) = evidence_len" using assms(3) by simp
  have s: "strncmp_eq 64 (char_field 64 EA_MEDIA_TYPE) EA_MEDIA_TYPE"
    "strncmp_eq 64 (char_field 64 EA_EXPORTER_LABEL) EA_EXPORTER_LABEL"
    using ea_texts by (simp_all add: char_field_eq)
  show ?thesis
    by (simp add: h worker_auth_hdr_def ea_verify_payload_def ea_compute_binding_def b s e Let_def
        server_session_def client_session_def)
qed

section \<open>What the hashes bind\<close>

text \<open>Two different inputs, each a key and a text, with the same hash.\<close>

definition collides :: "crypto \<Rightarrow> nat \<Rightarrow> bytes \<times> bytes \<Rightarrow> bytes \<times> bytes \<Rightarrow> bool" where
  "collides C n p q \<longleftrightarrow> p \<noteq> q \<and> generichash C n (fst p) (snd p) = generichash C n (fst q) (snd q)"

text \<open>
  C11: The transcript hash, which both sides use as channel binding and the owner signs, determines
  the context, both public keys, the attestation binding and the evidence hash; and a binding accepted
  for one key and context is accepted for no other. The only exceptions are collisions of the hash on
  the two inputs given here.
\<close>

theorem transcript_binds_all:
  assumes "length context = EA_CONTEXT_LEN" and "length context' = EA_CONTEXT_LEN"
    and "length client_pk = PUBLICKEYBYTES" and "length client_pk' = PUBLICKEYBYTES"
    and "length server_pk = PUBLICKEYBYTES" and "length server_pk' = PUBLICKEYBYTES"
    and "length binding = BINDING_LEN" and "length binding' = BINDING_LEN"
  shows "(compute_kx_transcript C context client_pk server_pk binding evidence_hash =
       compute_kx_transcript C context' client_pk' server_pk' binding' evidence_hash' \<longleftrightarrow>
     context = context' \<and> client_pk = client_pk' \<and> server_pk = server_pk' \<and> binding = binding' \<and>
       evidence_hash = evidence_hash' \<or>
     collides C HASH_LEN ([], kx_transcript_input context client_pk server_pk binding evidence_hash)
       ([], kx_transcript_input context' client_pk' server_pk' binding' evidence_hash')) \<and>
    (ea_verify_payload C hdr context client_pk = 0 \<and> ea_verify_payload C hdr context' client_pk' = 0 \<longrightarrow>
     context = context' \<and> client_pk = client_pk' \<or>
     collides C BINDING_LEN ([], client_pk @ context) ([], client_pk' @ context'))"
proof
  have i: "kx_transcript_input context client_pk server_pk binding evidence_hash =
      kx_transcript_input context' client_pk' server_pk' binding' evidence_hash' \<longleftrightarrow>
    context = context' \<and> client_pk = client_pk' \<and> server_pk = server_pk' \<and> binding = binding' \<and>
      evidence_hash = evidence_hash'"
    using assms by (simp add: kx_transcript_input_def)
  show "compute_kx_transcript C context client_pk server_pk binding evidence_hash =
       compute_kx_transcript C context' client_pk' server_pk' binding' evidence_hash' \<longleftrightarrow>
     context = context' \<and> client_pk = client_pk' \<and> server_pk = server_pk' \<and> binding = binding' \<and>
       evidence_hash = evidence_hash' \<or>
     collides C HASH_LEN ([], kx_transcript_input context client_pk server_pk binding evidence_hash)
       ([], kx_transcript_input context' client_pk' server_pk' binding' evidence_hash')"
    unfolding i [symmetric] by (auto simp: compute_kx_transcript_def collides_def)
next
  have "client_pk @ context = client_pk' @ context' \<longleftrightarrow> context = context' \<and> client_pk = client_pk'"
    using assms by auto
  then show "ea_verify_payload C hdr context client_pk = 0 \<and> ea_verify_payload C hdr context' client_pk' = 0 \<longrightarrow>
     context = context' \<and> client_pk = client_pk' \<or>
     collides C BINDING_LEN ([], client_pk @ context) ([], client_pk' @ context')"
    by (auto simp: ea_verify_payload_def ea_compute_binding_def ea_binding_value_def collides_def Let_def
        split: if_splits)
qed

theorem transcript_binds_all_witness:
  "compute_kx_transcript (demo_crypto\<lparr>generichash := \<lambda>n k x. take n x\<rparr>) (replicate 32 1) (replicate 32 2)
     (replicate 32 3) (replicate 64 4) [5] =
   compute_kx_transcript (demo_crypto\<lparr>generichash := \<lambda>n k x. take n x\<rparr>) (replicate 32 1) (replicate 32 2)
     (replicate 32 3) (replicate 64 4) [6] \<and>
   collides (demo_crypto\<lparr>generichash := \<lambda>n k x. take n x\<rparr>) HASH_LEN
     ([], kx_transcript_input (replicate 32 1) (replicate 32 2) (replicate 32 3) (replicate 64 4) [5])
     ([], kx_transcript_input (replicate 32 1) (replicate 32 2) (replicate 32 3) (replicate 64 4) [6])"
proof -
  let ?C = "demo_crypto\<lparr>generichash := \<lambda>n k x. take n x\<rparr>"
  have "compute_kx_transcript ?C (replicate 32 1) (replicate 32 2) (replicate 32 3) (replicate 64 4) [5] =
   compute_kx_transcript ?C (replicate 32 1) (replicate 32 2) (replicate 32 3) (replicate 64 4) [6]"
    by (simp add: compute_kx_transcript_def kx_transcript_input_def HASH_LEN_def ascii_def)
  with transcript_binds_all [of "replicate 32 1" "replicate 32 1" "replicate 32 2" "replicate 32 2"
      "replicate 32 3" "replicate 32 3" "replicate 64 4" "replicate 64 4" ?C "[5]" "[6]"]
  show ?thesis by simp
qed

text \<open>The inputs of the hash in a session of the central node: four key derivations, two confirmations.\<close>

definition session_inputs :: "bytes \<Rightarrow> bytes \<Rightarrow> bytes \<Rightarrow> session_keys \<Rightarrow> (bytes \<times> bytes) list" where
  "session_inputs raw_rx raw_tx transcript_hash keys =
     [(raw_rx, ascii ''PPDPC-OPENMPI-KDF-V2'' @ ascii ''traffic:w2c'' @ transcript_hash),
      (raw_tx, ascii ''PPDPC-OPENMPI-KDF-V2'' @ ascii ''traffic:c2w'' @ transcript_hash),
      (raw_rx, ascii ''PPDPC-OPENMPI-KDF-V2'' @ ascii ''confirm:w2c'' @ transcript_hash),
      (raw_tx, ascii ''PPDPC-OPENMPI-KDF-V2'' @ ascii ''confirm:c2w'' @ transcript_hash),
      (confirm_rx keys, ascii ''PPDPC-OPENMPI-FINISHED-V2'' @ ascii ''worker'' @ transcript_hash),
      (confirm_tx keys, ascii ''PPDPC-OPENMPI-FINISHED-V2'' @ ascii ''central-node'' @ transcript_hash)]"

text \<open>
  C12: The four keys derived in a session and its two confirmations are computed from different
  inputs, so unless two of these six inputs collide the session has different traffic keys for the
  two directions (a counter can be used in both), no traffic key is a confirmation key, and a
  confirmation cannot be reflected, even if the key exchange gave the same secret twice.
\<close>

theorem session_keys_separated:
  assumes "server_session C raw_rx raw_tx transcript_hash = keys"
    and "\<forall>p\<in>set (session_inputs raw_rx raw_tx transcript_hash keys).
      \<forall>q\<in>set (session_inputs raw_rx raw_tx transcript_hash keys). \<not> collides C 32 p q"
  shows "distinct [traffic_rx keys, traffic_tx keys, confirm_rx keys, confirm_tx keys] \<and>
    compute_key_confirmation C (confirm_rx keys) transcript_hash ''worker'' \<noteq>
    compute_key_confirmation C (confirm_tx keys) transcript_hash ''central-node''"
proof -
  let ?ps = "session_inputs raw_rx raw_tx transcript_hash keys"
  have d: "distinct (map snd ?ps)"
    by (simp add: session_inputs_def ascii_def append_eq_append_conv2)
  have "inj_on (\<lambda>p. generichash C 32 (fst p) (snd p)) (set ?ps)"
    using assms(2) unfolding inj_on_def collides_def by blast
  moreover have "distinct ?ps" using d by (simp only: distinct_map)
  ultimately have "distinct (map (\<lambda>p. generichash C 32 (fst p) (snd p)) ?ps)"
    by (simp only: distinct_map)
  moreover have "map (\<lambda>p. generichash C 32 (fst p) (snd p)) ?ps =
    [traffic_rx keys, traffic_tx keys, confirm_rx keys, confirm_tx keys,
     compute_key_confirmation C (confirm_rx keys) transcript_hash ''worker'',
     compute_key_confirmation C (confirm_tx keys) transcript_hash ''central-node'']"
    using assms(1) by (auto simp: session_inputs_def server_session_def derive_bound_key_def
        compute_key_confirmation_def KEYB_def HASH_LEN_def)
  ultimately show ?thesis by simp
qed

theorem session_keys_separated_witness:
  "let C = demo_crypto\<lparr>generichash := \<lambda>n k x. k @ x\<rparr>; keys = server_session C [7] [7] [9] in
   traffic_rx keys \<noteq> traffic_tx keys"
proof -
  let ?C = "demo_crypto\<lparr>generichash := \<lambda>n k x. k @ x\<rparr>"
  let ?k = "server_session ?C [7] [7] [9]"
  have "\<forall>p\<in>set (session_inputs [7] [7] [9] ?k). \<forall>q\<in>set (session_inputs [7] [7] [9] ?k). \<not> collides ?C 32 p q"
    by (simp add: session_inputs_def collides_def server_session_def derive_bound_key_def ascii_def)
  from session_keys_separated [OF refl this] show ?thesis by (simp add: Let_def)
qed

theorem honest_enrolment_agrees_witness:
  "\<exists>h. ea_verify_payload demo_crypto (ah_payload_hdr h) (replicate 32 5) (ah_client_pk h) = 0 \<and>
     h = decode_ea_auth_hdr (encode_ea_auth_hdr (worker_auth_hdr (replicate 32 1)
       (ea_aik_pub_hash demo_crypto (replicate 32 1))
       (ea_binding_value demo_crypto (replicate 32 1) (replicate 32 5)) 1184))"
proof -
  let ?h = "decode_ea_auth_hdr (encode_ea_auth_hdr (worker_auth_hdr (replicate 32 1)
       (ea_aik_pub_hash demo_crypto (replicate 32 1))
       (ea_binding_value demo_crypto (replicate 32 1) (replicate 32 5)) 1184))"
  have d: "hash_documented demo_crypto" by (auto simp: hash_documented_def demo_crypto_def min_def)
  have c: "ah_client_pk ?h = replicate 32 1"
    by (subst decode_encode_auth_hdr(1)) (simp_all add: worker_auth_hdr_def ea_aik_pub_hash_def
        ea_binding_value_def d HASH_LEN_def)
  have "kx_server demo_crypto a b c' = Some (c', a)" "kx_client demo_crypto a b c' = Some (c', a)" for a b c'
    by (simp_all add: demo_crypto_def)
  then have "kx_server demo_crypto (replicate 32 2) [] (ah_client_pk ?h) = Some (replicate 32 1, replicate 32 2)"
    "kx_client demo_crypto (replicate 32 1) [] (replicate 32 2) = Some (replicate 32 2, replicate 32 1)"
    by (simp_all only: c)
  from honest_enrolment_agrees [of demo_crypto "replicate 32 1" 1184 "replicate 32 5", OF d _ _ _ refl this] show ?thesis
    by (auto simp: ea_compute_binding_def Let_def)
qed

section \<open>Who is admitted\<close>

text \<open>
  What the central node has checked about a worker with the given keys and channel binding: a signed
  transcript over the context it chose, and evidence that passed, unless the build skips attestation.
\<close>

definition evidence_passed :: "nat \<Rightarrow> 'e node \<Rightarrow> bytes \<Rightarrow> ea_auth_hdr \<Rightarrow> bytes \<Rightarrow> bool" where
  "evidence_passed fuel N ctx hdr evidence \<longleftrightarrow>
     ea_verify_payload (nd_crypto N) (ah_payload_hdr hdr) ctx (ah_client_pk hdr) = 0 \<and> evidence \<noteq> [] \<and>
     verify_expected_snp_claims (os_getenv (nd_os N)) evidence = 0 \<and>
     (\<exists>e e'. verify_sev_snp_report fuel (nd_crypto N) (nd_os N) evidence
        (eb_binding (ph_binder (ah_payload_hdr hdr))) e = Done 0 e')"

definition admitted :: "nat \<Rightarrow> 'e node \<Rightarrow> bytes \<Rightarrow> bytes \<Rightarrow> bytes \<Rightarrow> bytes \<Rightarrow> bool" where
  "admitted fuel N owner_sign_sk tx rx transcript \<longleftrightarrow> (\<exists>ctx hdr evidence server_pk server_sk raw_rx raw_tx sg.
     transcript = compute_kx_transcript (nd_crypto N) ctx (ah_client_pk hdr) server_pk
       (eb_binding (ph_binder (ah_payload_hdr hdr))) (hash_evidence (nd_crypto N) evidence) \<and>
     sign_detached (nd_crypto N) transcript owner_sign_sk = Some sg \<and>
     kx_server (nd_crypto N) server_pk server_sk (ah_client_pk hdr) = Some (raw_rx, raw_tx) \<and>
     tx = traffic_tx (server_session (nd_crypto N) raw_rx raw_tx transcript) \<and>
     rx = traffic_rx (server_session (nd_crypto N) raw_rx raw_tx transcript) \<and>
     (nd_skip_attestation N \<or> evidence_passed fuel N ctx hdr evidence))"

lemma verify_report_claims:
  "verify_sev_snp_report fuel C S report rd e = Done 0 e' \<Longrightarrow> verify_expected_snp_claims (os_getenv S) report = 0"
  by (auto simp: verify_sev_snp_report_def split: if_splits)

lemma attest_worker_passed:
  assumes "attest_worker fuel N icomm ea_req w = Done (Some (hdr, evidence_hash, True)) w'"
  shows "\<exists>evidence. evidence_hash = hash_evidence (nd_crypto N) evidence \<and>
    (nd_skip_attestation N \<or> evidence_passed fuel N (eq_context ea_req) hdr evidence)"
proof -
  from assms obtain evidence v v' where e: "evidence_hash = hash_evidence (nd_crypto N) evidence"
    and v: "verify_evidence fuel N ea_req hdr evidence v = Done True v'"
    by (auto simp: attest_worker_def Let_def split: if_splits)
  show ?thesis
  proof (cases "nd_skip_attestation N")
    case False
    with v obtain e e' where "ea_verify_payload (nd_crypto N) (ah_payload_hdr hdr) (eq_context ea_req)
        (ah_client_pk hdr) = 0" "evidence \<noteq> []"
      and r: "verify_sev_snp_report fuel (nd_crypto N) (nd_os N) evidence
        (eb_binding (ph_binder (ah_payload_hdr hdr))) e = Done 0 e'"
      by (cases v) (auto simp: verify_evidence_def Let_def split: if_splits)
    then have "evidence_passed fuel N (eq_context ea_req) hdr evidence"
      using verify_report_claims [OF r] unfolding evidence_passed_def by blast
    with e show ?thesis by blast
  qed (use e in blast)
qed

lemma server_key_exchange_admits:
  assumes "server_key_exchange N owner_sign_sk icomm ea_req hdr (hash_evidence (nd_crypto N) evidence) w
      = Done (Some (keys, transcript)) w'"
    and "nd_skip_attestation N \<or> evidence_passed fuel N (eq_context ea_req) hdr evidence"
  shows "admitted fuel N owner_sign_sk (traffic_tx keys) (traffic_rx keys) transcript"
proof -
  from assms(1) obtain server_pk server_sk sg raw_rx raw_tx where
    t: "transcript = compute_kx_transcript (nd_crypto N) (eq_context ea_req) (ah_client_pk hdr) server_pk
       (eb_binding (ph_binder (ah_payload_hdr hdr))) (hash_evidence (nd_crypto N) evidence)" and
    k: "sign_detached (nd_crypto N) transcript owner_sign_sk = Some sg"
      "kx_server (nd_crypto N) server_pk server_sk (ah_client_pk hdr) = Some (raw_rx, raw_tx)"
      "keys = server_session (nd_crypto N) raw_rx raw_tx transcript"
    by (auto simp: server_key_exchange_def Let_def split: prod.splits option.splits if_splits)
  show ?thesis unfolding admitted_def using t k assms(2) by blast
qed

definition enrolled_ok :: "nat \<Rightarrow> 'e node \<Rightarrow> bytes \<Rightarrow> nat \<Rightarrow> enrolled \<Rightarrow> bool" where
  "enrolled_ok fuel N owner_sign_sk rounds s \<longleftrightarrow>
     (let L = en_links s; n = length (lk_workers L) in
      n \<le> rounds \<and> length (lk_tx_keys L) = n \<and> length (lk_rx_keys L) = n \<and> length (lk_bindings L) = n \<and>
      length (en_ms s) = n \<and>
      list_all (\<lambda>i. admitted fuel N owner_sign_sk (lk_tx_keys L ! i) (lk_rx_keys L ! i) (lk_bindings L ! i))
        [0..<n])"

lemma enrolled_mono: "enrolled_ok fuel N sk r s \<Longrightarrow> enrolled_ok fuel N sk (Suc r) s"
  by (auto simp: enrolled_ok_def Let_def)

lemma add_worker_ok:
  assumes "enrolled_ok fuel N sk r s" and "admitted fuel N sk (traffic_tx keys) (traffic_rx keys) transcript"
  shows "enrolled_ok fuel N sk (Suc r) (add_worker icomm keys transcript ms s)"
  using assms by (auto simp: enrolled_ok_def add_worker_def Let_def list_all_iff nth_append less_Suc_eq)

lemma enroll_round_ok:
  assumes "enroll_round fuel N sk i s w = Done s' w'" and "enrolled_ok fuel N sk r s"
  shows "enrolled_ok fuel N sk (Suc r) s'"
proof -
  consider "s' = s"
    | req hdr evidence_hash v u icomm keys transcript v' u' ms where
      "attest_worker fuel N icomm req v = Done (Some (hdr, evidence_hash, True)) u"
      "server_key_exchange N sk icomm req hdr evidence_hash v' = Done (Some (keys, transcript)) u'"
      "s' = add_worker icomm keys transcript ms s"
    using assms(1)
    by (auto simp: enroll_round_def Let_def split: prod.splits option.splits if_splits)
  then show ?thesis
  proof cases
    case 1
    with assms(2) show ?thesis by (simp add: enrolled_mono)
  next
    case 2
    from attest_worker_passed [OF 2(1)] 2(2) have "admitted fuel N sk (traffic_tx keys) (traffic_rx keys) transcript"
      using server_key_exchange_admits by blast
    with assms(2) 2(3) show ?thesis by (simp add: add_worker_ok)
  qed
qed

text \<open>
  C1: Whatever connects, the central node ends its enrolment with at most as many workers as rounds,
  the arrays of communicators, keys, bindings and times have one entry for each, and each entry comes
  from a key exchange whose transcript the owner signed; in a build with attestation that transcript
  covers non-empty evidence with the expected claims that passed the report verification for the binding
  of this worker's key to the context of its round.
\<close>

theorem enrolment_admits_attested:
  "on_done (enrolled_ok fuel N owner_sign_sk target) (enroll_workers fuel N owner_sign_sk target w)"
proof (rule on_doneI)
  fix s w'
  assume run: "enroll_workers fuel N owner_sign_sk target w = Done s w'"
  then have l: "loopP (enroll_round fuel N owner_sign_sk) [1..<Suc target]
      \<lparr>en_links = \<lparr>lk_workers = [], lk_tx_keys = [], lk_rx_keys = [], lk_bindings = []\<rparr>, en_ms = []\<rparr> w = Done s w'"
    by (simp add: enroll_workers_def)
  have "enrolled_ok fuel N owner_sign_sk (Suc target - 1) s"
    by (rule loopP_upt [OF l, of "\<lambda>i. enrolled_ok fuel N owner_sign_sk (i - 1)"])
      (auto simp: enrolled_ok_def Suc_diff_le dest: enroll_round_ok)
  then show "enrolled_ok fuel N owner_sign_sk target s" by simp
qed

definition owner_authenticated :: "'e node \<Rightarrow> bytes \<Rightarrow> worker_chan \<Rightarrow> bool" where
  "owner_authenticated N owner_sign_pk g \<longleftrightarrow> (\<exists>ctx client_pk client_sk server_pk sg evidence raw_rx raw_tx.
     sign_verify (nd_crypto N) sg (g_channel_binding g) owner_sign_pk \<and>
     g_channel_binding g = compute_kx_transcript (nd_crypto N) ctx client_pk server_pk
       (ea_binding_value (nd_crypto N) client_pk ctx) (hash_evidence (nd_crypto N) evidence) \<and>
     kx_client (nd_crypto N) client_pk client_sk server_pk = Some (raw_rx, raw_tx) \<and>
     g_session_key g = traffic_tx (client_session (nd_crypto N) raw_rx raw_tx (g_channel_binding g)) \<and>
     g_recv_key g = traffic_rx (client_session (nd_crypto N) raw_rx raw_tx (g_channel_binding g)) \<and>
     send_nonce_ctr g = 0 \<and> recv_nonce_ctr g = 0)"

lemma worker_leave_None [simp]: "worker_leave N icomm v \<noteq> Done (Some x) v'"
  by (auto simp: worker_leave_def)

lemma client_key_exchange_auth:
  assumes "client_key_exchange N owner_sign_pk icomm ea_req client_pk client_sk
      (ea_binding_value (nd_crypto N) client_pk (eq_context ea_req)) (hash_evidence (nd_crypto N) evidence) v
    = Done (Some g) v'"
  shows "owner_authenticated N owner_sign_pk g"
proof -
  let ?tr = "\<lambda>bs. compute_kx_transcript (nd_crypto N) (eq_context ea_req) client_pk
       (sa_server_pk (decode_kx_server_auth bs)) (ea_binding_value (nd_crypto N) client_pk (eq_context ea_req))
       (hash_evidence (nd_crypto N) evidence)"
  have "\<exists>bs raw_rx raw_tx. sign_verify (nd_crypto N) (sa_signature (decode_kx_server_auth bs)) (?tr bs) owner_sign_pk \<and>
    kx_client (nd_crypto N) client_pk client_sk (sa_server_pk (decode_kx_server_auth bs)) = Some (raw_rx, raw_tx) \<and>
    g = \<lparr>g_session_key = traffic_tx (client_session (nd_crypto N) raw_rx raw_tx (?tr bs)),
         g_recv_key = traffic_rx (client_session (nd_crypto N) raw_rx raw_tx (?tr bs)),
         g_channel_binding = ?tr bs, send_nonce_ctr = 0, recv_nonce_ctr = 0\<rparr>"
    using assms
    by (auto simp: client_key_exchange_def Let_def split: option.splits prod.splits if_splits) blast
  then obtain bs raw_rx raw_tx where
    "sign_verify (nd_crypto N) (sa_signature (decode_kx_server_auth bs)) (?tr bs) owner_sign_pk"
    "kx_client (nd_crypto N) client_pk client_sk (sa_server_pk (decode_kx_server_auth bs)) = Some (raw_rx, raw_tx)"
    "g = \<lparr>g_session_key = traffic_tx (client_session (nd_crypto N) raw_rx raw_tx (?tr bs)),
         g_recv_key = traffic_rx (client_session (nd_crypto N) raw_rx raw_tx (?tr bs)),
         g_channel_binding = ?tr bs, send_nonce_ctr = 0, recv_nonce_ctr = 0\<rparr>"
    by blast
  then show ?thesis unfolding owner_authenticated_def by (auto intro!: exI)
qed

text \<open>
  C2: A worker ends its enrolment with session keys only if the pinned owner key verified a
  signature over the transcript of exactly this session (the context it was sent, its own public key,
  the server key of the message, its own binding and its own evidence), and the central node confirmed
  its key; the channel is then bound to this transcript and both counters start at zero.
\<close>

theorem worker_authenticates_owner:
  "on_done (\<lambda>r. case r of None \<Rightarrow> True | Some g \<Rightarrow> owner_authenticated N owner_sign_pk g)
     (worker_enroll fuel N owner_sign_pk icomm w)"
proof (rule on_doneI)
  fix r w'
  assume run: "worker_enroll fuel N owner_sign_pk icomm w = Done r w'"
  show "case r of None \<Rightarrow> True | Some g \<Rightarrow> owner_authenticated N owner_sign_pk g"
  proof (cases r)
    case (Some g)
    with run obtain ea_req client_pk client_sk evidence v where
      k: "client_key_exchange N owner_sign_pk icomm ea_req client_pk client_sk
        (ea_binding_value (nd_crypto N) client_pk (eq_context ea_req))
        (hash_evidence (nd_crypto N) evidence) v = Done (Some g) w'"
      by (auto simp: worker_enroll_def ea_compute_binding_def Let_def split: prod.splits if_splits)
    with Some show ?thesis by (simp add: client_key_exchange_auth)
  qed simp
qed

end
