(* ===== verification/Npb_Kernels.thy ===== *)
theory Npb_Kernels
  imports Npb_Defs
begin

text \<open>
  The numerical kernels of the EP and CG workloads: the NPB random numbers and \<open>ep_compute\<close>
  (src/worker_npb.c), the sparse matrix-vector product \<open>spmv_kernel\<close> (src/worker_npb.c), and
  the matrix that \<open>generate_sparse_matrix\<close> builds (src/master_npb.c). The mathematical functions
  and the random numbers of the C library, whose results the C standard leaves to the
  implementation, are the records \<open>libm\<close> and \<open>libc_rand\<close>.
\<close>

record libm =
  m_sqrt :: "dbl \<Rightarrow> dbl"
  m_log :: "dbl \<Rightarrow> dbl"
  m_cos :: "dbl \<Rightarrow> dbl"
  m_sin :: "dbl \<Rightarrow> dbl"

text \<open>The k-th result of \<open>rand\<close> after \<open>srand\<close> with a seed, and the greatest result.\<close>

record libc_rand =
  rand_after :: "u32 \<Rightarrow> nat \<Rightarrow> nat"
  RAND_MAX :: nat

section \<open>Random numbers\<close>

definition NPB_MASK :: u64 where "NPB_MASK = 2 ^ 46 - 1"
definition NPB_R46 :: dbl where "NPB_R46 = d_of_nat (2 ^ 46)"
definition NPB_A :: u64 where "NPB_A = 1220703125"

definition NPB_TWO_PI :: dbl where
  \<comment> \<open>6.283185307179586\<close>
  "NPB_TWO_PI = 0x401921FB54442D18"

definition npb_rand :: "u64 \<Rightarrow> u64 \<times> dbl" where
  "npb_rand state = (let state = NPB_A * state AND NPB_MASK in (state, d_div (d_of_nat (unat state)) NPB_R46))"

definition ep_initial_state :: "u64 \<Rightarrow> u64" where
  \<comment> \<open>the argument is the bit pattern of the int64_t seed\<close>
  "ep_initial_state seed_val =
     (let state = (if sint seed_val > 0 then seed_val AND NPB_MASK else 0)
      in if state = 0 then 271828183 else state)"

section \<open>EP\<close>

definition d_to_int :: "dbl \<Rightarrow> int option" where
  \<comment> \<open>the conversion of a double to int; undefined outside the range of int\<close>
  "d_to_int x =
     (if \<not> d_isfinite x then None
      else let v = (if d_sign x then - \<lfloor>- d_val x\<rfloor> else \<lfloor>d_val x\<rfloor>)
           in if - (2 ^ 31) \<le> v \<and> v < 2 ^ 31 then Some v else None)"

definition EP_MIN_U :: dbl where
  \<comment> \<open>1.0e-15\<close>
  "EP_MIN_U = 0x3CD203AF9EE75616"

definition ep_pair :: "libm \<Rightarrow> u64 \<Rightarrow> u64 \<times> dbl \<times> dbl" where
  \<comment> \<open>the next state and the deviates x and y\<close>
  "ep_pair B state =
     (let (state, u1) = npb_rand state;
          (state, u2) = npb_rand state;
          u1 = (if d_lt u1 EP_MIN_U then EP_MIN_U else u1);
          t = m_sqrt B (d_mul (d_neg (d_of_nat 2)) (m_log B u1))
      in (state, d_mul t (m_cos B (d_mul NPB_TWO_PI u2)), d_mul t (m_sin B (d_mul NPB_TWO_PI u2))))"

definition ep_bin :: "dbl \<Rightarrow> dbl \<Rightarrow> nat option" where
  "ep_bin x y =
     (let lmax = (if d_lt (d_abs y) (d_abs x) then d_abs x else d_abs y)
      in case d_to_int lmax of
           None \<Rightarrow> None
         | Some bin \<Rightarrow> Some (if bin \<ge> int EP_BINS then EP_BINS - 1 else nat bin))"

definition ep_step :: "libm \<Rightarrow> u64 \<times> ep_result \<Rightarrow> (u64 \<times> ep_result) option" where
  "ep_step B s =
     (case s of (state, result) \<Rightarrow> case ep_pair B state of (state, x, y) \<Rightarrow>
      case ep_bin x y of
        None \<Rightarrow> None
      | Some bin \<Rightarrow>
          Some (state, \<lparr>er_counts = (er_counts result)[bin := er_counts result ! bin + 1],
                        er_sx = d_add (er_sx result) x, er_sy = d_add (er_sy result) y\<rparr>))"

fun ep_loop :: "libm \<Rightarrow> nat \<Rightarrow> u64 \<times> ep_result \<Rightarrow> (u64 \<times> ep_result) option" where
  "ep_loop B 0 s = Some s"
| "ep_loop B (Suc n) s = (case ep_step B s of None \<Rightarrow> None | Some s' \<Rightarrow> ep_loop B n s')"

definition ep_compute :: "libm \<Rightarrow> u64 \<Rightarrow> u64 \<Rightarrow> ep_result option" where
  "ep_compute B num_pairs seed_val =
     map_option snd (ep_loop B (nat (sint num_pairs))
       (ep_initial_state seed_val, \<lparr>er_counts = replicate EP_BINS 0, er_sx = 0, er_sy = 0\<rparr>))"

section \<open>CG\<close>

text \<open>Array indices of the kernels are C ints that the programs keep non-negative.\<close>

definition spmv_row :: "nat list \<Rightarrow> nat list \<Rightarrow> dbl list \<Rightarrow> dbl list \<Rightarrow> nat \<Rightarrow> dbl" where
  "spmv_row row_ptr col_idx val x i =
     fold (\<lambda>j sum. d_add sum (d_mul (val ! j) (x ! (col_idx ! j)))) [row_ptr ! i..<row_ptr ! Suc i] 0"

definition spmv_kernel :: "nat \<Rightarrow> nat list \<Rightarrow> nat list \<Rightarrow> dbl list \<Rightarrow> dbl list \<Rightarrow> dbl list" where
  "spmv_kernel nrows row_ptr col_idx val x = map (spmv_row row_ptr col_idx val x) [0..<nrows]"

record csr_matrix =
  row_ptr :: "nat list"
  col_idx :: "nat list"
  csr_val :: "dbl list"

definition random_value :: "libc_rand \<Rightarrow> nat \<Rightarrow> dbl" where
  \<comment> \<open>(double)rand() / RAND_MAX * 2.0 - 1.0\<close>
  "random_value R r = d_sub (d_mul (d_div (d_of_nat r) (d_of_nat (RAND_MAX R))) (d_of_nat 2)) (d_of_nat 1)"

definition sparse_matrix :: "libc_rand \<Rightarrow> nat \<Rightarrow> nat \<Rightarrow> u32 \<Rightarrow> csr_matrix" where
  "sparse_matrix R n nzpc seed =
     \<lparr>row_ptr = map (\<lambda>i. i * nzpc) [0..<n + 1],
      col_idx = map (\<lambda>k. rand_after R seed (2 * k) mod n) [0..<n * nzpc],
      csr_val = map (\<lambda>k. random_value R (rand_after R seed (2 * k + 1))) [0..<n * nzpc]\<rparr>"

definition generate_sparse_matrix ::
  "libc_rand \<Rightarrow> 'e mpi \<Rightarrow> int \<Rightarrow> int \<Rightarrow> u32 \<Rightarrow> ('e world, csr_matrix option) prog" where
  "generate_sparse_matrix R M n nzpc seed =
     (if n \<le> 0 \<or> nzpc \<le> 0 \<or> n > int INT_MAX div nzpc \<or> nat n + 1 > SIZE_MAX div 4 then ret None
      else let nnz = nat (n * nzpc) in
        if nnz > SIZE_MAX div 8 then ret None
        else
          bindP (on_env (m_malloc M ((nat n + 1) * 4))) (\<lambda>ok_ptr.
          bindP (on_env (m_malloc M (nnz * 4))) (\<lambda>ok_idx.
          bindP (on_env (m_malloc M (nnz * 8))) (\<lambda>ok_val.
          if \<not> ok_ptr \<or> \<not> ok_idx \<or> \<not> ok_val then ret None
          else ret (Some (sparse_matrix R (nat n) (nat nzpc) seed))))))"

section \<open>The generator never leaves its range\<close>

lemma mask46: "unat (x AND NPB_MASK) = unat x mod 2 ^ 46"
proof -
  have "NPB_MASK = mask 46" by (simp add: NPB_MASK_def mask_eq_exp_minus_1)
  then have "x AND NPB_MASK = take_bit 46 x" by (simp add: take_bit_eq_mask)
  then have "unat (x AND NPB_MASK) = take_bit 46 (unat x)" by (simp only: unsigned_take_bit_eq)
  then show ?thesis by (simp only: take_bit_eq_mod)
qed

lemma npb_rand_state: "unat (fst (npb_rand s)) = (1220703125 * unat s) mod 2 ^ 46"
proof -
  have "unat (NPB_A * s AND NPB_MASK) = unat (NPB_A * s) mod 2 ^ 46" by (rule mask46)
  also have "unat (NPB_A * s) = (1220703125 * unat s) mod 2 ^ 64"
    by (simp add: unat_word_ariths NPB_A_def)
  also have "(1220703125 * unat s) mod 2 ^ 64 mod 2 ^ 46 = (1220703125 * unat s) mod 2 ^ 46"
    by (rule mod_mod_cancel) (simp add: le_imp_power_dvd)
  finally show ?thesis by (simp add: npb_rand_def Let_def)
qed

lemma npb_rand_nonzero:
  assumes "0 < unat s" and "unat s < 2 ^ 46"
  shows "0 < unat (fst (npb_rand s)) \<and> unat (fst (npb_rand s)) < 2 ^ 46"
proof -
  have "(1220703125 * unat s) mod 2 ^ 46 \<noteq> 0"
  proof
    assume "(1220703125 * unat s) mod 2 ^ 46 = 0"
    then have "2 ^ 46 dvd 1220703125 * unat s" by (simp add: mod_eq_0_iff_dvd)
    moreover have "coprime (2 ^ 46 :: nat) 1220703125"
      by (simp only: coprime_power_left_iff coprime_left_2_iff_odd) simp
    ultimately have "2 ^ 46 dvd unat s" by (simp only: coprime_dvd_mult_right_iff)
    with assms show False by (auto dest: dvd_imp_le)
  qed
  moreover have "(1220703125 * unat s) mod 2 ^ 46 < 2 ^ 46" by (rule mod_less_divisor) simp
  ultimately show ?thesis by (simp only: npb_rand_state) simp
qed

lemma d_exact_46: "n < 2 ^ 53 \<Longrightarrow> d_exact (of_nat n / 2 ^ 46)"
  unfolding d_exact_def
  by (rule exI [of _ "int n"], rule exI [of _ "- 46"]) (simp add: power_int_def field_simps)

lemma div_R46:
  assumes "0 < k" and "k < 2 ^ 46"
  shows "d_isfinite (d_div (d_of_nat k) NPB_R46) \<and> d_val (d_div (d_of_nat k) NPB_R46) = of_nat k / 2 ^ 46"
proof -
  have k: "k < 2 ^ 53" by (rule less_trans [OF assms(2)]) simp
  have r: "(2 ^ 46 :: nat) < 2 ^ 53" by simp
  note p = d_of_nat_props [OF k] and q = d_of_nat_props [OF r]
  have v: "d_val (d_of_nat k) / d_val NPB_R46 = of_nat k / 2 ^ 46"
    unfolding NPB_R46_def p(1) q(1) by simp
  have "d_isfinite (d_div (d_of_nat k) NPB_R46) \<and>
    d_val (d_div (d_of_nat k) NPB_R46) = d_val (d_of_nat k) / d_val NPB_R46"
  proof (rule d_div_exact)
    show "d_isfinite (d_of_nat k)" "d_isfinite NPB_R46" using p q by (simp_all add: NPB_R46_def)
    show "d_mag (d_of_nat k) \<noteq> 0" "d_mag NPB_R46 \<noteq> 0" using p(4) q(4) assms(1) by (simp_all add: NPB_R46_def)
    show "d_val (d_of_nat k) / d_val NPB_R46 \<noteq> 0" unfolding v using assms(1) by simp
    show "d_exact (d_val (d_of_nat k) / d_val NPB_R46)" unfolding v by (rule d_exact_46 [OF k])
  qed
  then show ?thesis by (simp only: v)
qed

lemma npb_rand_value:
  assumes "0 < unat s" and "unat s < 2 ^ 46"
  shows "d_isfinite (snd (npb_rand s)) \<and> d_val (snd (npb_rand s)) = of_nat (unat (fst (npb_rand s))) / 2 ^ 46"
proof -
  have "snd (npb_rand s) = d_div (d_of_nat (unat (fst (npb_rand s)))) NPB_R46" by (simp add: npb_rand_def Let_def)
  with npb_rand_nonzero [OF assms] div_R46 show ?thesis by (simp only:)
qed

lemma clamp_value: "d_val EP_MIN_U < 1 / 2 ^ 46" "\<not> d_sign EP_MIN_U"
proof -
  have m: "d_mag EP_MIN_U = 0x3CD203AF9EE75616" by (simp add: d_mag_def EP_MIN_U_def)
  show s: "\<not> d_sign EP_MIN_U" by (simp add: d_sign_def EP_MIN_U_def bit_simps)
  show "d_val EP_MIN_U < 1 / 2 ^ 46" by (simp add: d_val_def m s Let_def power_int_def power_divide)
qed

text \<open>
  The state after n further numbers, and the next state and number.
\<close>

definition ep_state :: "u64 \<Rightarrow> nat \<Rightarrow> u64" where
  "ep_state seed n = ((\<lambda>s. fst (npb_rand s)) ^^ n) (ep_initial_state seed)"

lemma ep_initial_range: "0 < unat (ep_initial_state seed) \<and> unat (ep_initial_state seed) < 2 ^ 46"
proof (cases "sint seed > 0 \<and> seed AND NPB_MASK \<noteq> 0")
  case True
  moreover have "unat (seed AND NPB_MASK) < 2 ^ 46" by (simp only: mask46) simp
  ultimately show ?thesis by (simp add: ep_initial_state_def Let_def unat_gt_0)
next
  case False
  then have "ep_initial_state seed = 271828183" by (auto simp: ep_initial_state_def Let_def)
  then show ?thesis by simp
qed

lemma ep_state_range: "0 < unat (ep_state seed n) \<and> unat (ep_state seed n) < 2 ^ 46"
proof (induction n)
  case 0
  then show ?case using ep_initial_range by (simp add: ep_state_def)
next
  case (Suc n)
  then have "0 < unat (fst (npb_rand (ep_state seed n))) \<and> unat (fst (npb_rand (ep_state seed n))) < 2 ^ 46"
    using npb_rand_nonzero by blast
  then show ?case by (simp only: ep_state_def funpow.simps comp_apply)
qed

text \<open>
  From every seed, every number of the EP generator is exactly the 46-bit state divided by 2^46
  (the division never rounds), the state is never zero, so every number lies strictly between 0 and
  1, the logarithm is never taken of zero, and the clamp at 1e-15 is never needed.
\<close>

theorem npb_rand_uniform:
  "case npb_rand (ep_state seed n) of (s, u) \<Rightarrow>
     0 < unat s \<and> unat s < 2 ^ 46 \<and> unat s = 5 ^ 13 * unat (ep_state seed n) mod 2 ^ 46 \<and>
     d_isfinite u \<and> d_val u = of_nat (unat s) / 2 ^ 46 \<and> 0 < d_val u \<and> d_val u < 1 \<and> \<not> d_lt u EP_MIN_U"
proof -
  obtain s u where su: "npb_rand (ep_state seed n) = (s, u)" by (cases "npb_rand (ep_state seed n)")
  note r = ep_state_range [of seed n]
  have s: "0 < unat s" "unat s < 2 ^ 46" "unat s = 1220703125 * unat (ep_state seed n) mod 2 ^ 46"
    using npb_rand_nonzero [of "ep_state seed n"] npb_rand_state [of "ep_state seed n"] r
    by (simp_all only: su fst_conv)
  have u: "d_isfinite u" "d_val u = of_nat (unat s) / 2 ^ 46"
    using npb_rand_value [of "ep_state seed n"] r by (simp_all only: su fst_conv snd_conv)
  obtain k where k: "k = unat s" by simp
  have p: "0 < d_val u" "d_val u < 1" "1 / 2 ^ 46 \<le> d_val u"
    using s(1,2) unfolding u(2) k [symmetric] by (simp_all add: field_simps)
  have sg: "\<not> d_sign u" using p(1) mag_val_nonneg [of "d_mag u"] by (auto simp: d_val_mag not_less [symmetric])
  have "\<not> d_lt u EP_MIN_U" using d_lt_val [OF sg clamp_value(2)] clamp_value(1) p(3) by auto
  with s u p show ?thesis by (simp only: su prod.case) simp
qed

section \<open>The counts\<close>

definition counts_sum :: "u64 list \<Rightarrow> nat" where
  "counts_sum cs = sum_list (map unat cs)"

lemma ep_bin_range: "ep_bin x y = Some b \<Longrightarrow> b < EP_BINS"
  by (auto simp: ep_bin_def EP_BINS_def Let_def split: option.splits if_splits)

lemma counts_incr:
  assumes "counts_sum cs < 2 ^ 63" and "b < length cs"
  shows "counts_sum (cs[b := cs ! b + 1]) = Suc (counts_sum cs)"
proof -
  have "unat (cs ! b) \<le> counts_sum cs"
    unfolding counts_sum_def by (rule member_le_sum_list) (use assms(2) in auto)
  then have l: "unat (cs ! b) < 2 ^ 63" using assms(1) by linarith
  then have "cs ! b \<noteq> - 1" by (auto simp: unsigned_minus_1_eq_mask mask_eq_exp_minus_1)
  then have u: "unat (cs ! b + 1) = Suc (unat (cs ! b))" by (rule unat_succ)
  have "sum_list (map unat (cs[b := cs ! b + 1])) = sum_list ((map unat cs)[b := Suc (map unat cs ! b)])"
    using assms(2) by (simp only: map_update u nth_map)
  also have "\<dots> = sum_list (map unat cs) + Suc (map unat cs ! b) - map unat cs ! b"
    by (rule sum_list_update) (use assms(2) in simp)
  finally show ?thesis by (simp add: counts_sum_def)
qed

lemma ep_loop_counts:
  assumes "ep_loop B n (s, r) = Some (s', r')" and "length (er_counts r) = EP_BINS"
    and "counts_sum (er_counts r) + n < 2 ^ 63"
  shows "length (er_counts r') = EP_BINS \<and> counts_sum (er_counts r') = counts_sum (er_counts r) + n"
  using assms
proof (induction n arbitrary: s r)
  case (Suc n)
  from Suc.prems(1) obtain t q where st: "ep_step B (s, r) = Some (t, q)" and l: "ep_loop B n (t, q) = Some (s', r')"
    by (auto split: option.splits)
  from st obtain b x y where b: "b < EP_BINS" and q: "er_counts q = (er_counts r)[b := er_counts r ! b + 1]"
    by (auto simp: ep_step_def split: prod.splits option.splits dest: ep_bin_range)
  have c: "counts_sum (er_counts q) = Suc (counts_sum (er_counts r))"
    unfolding q using Suc.prems(2,3) b by (intro counts_incr) auto
  then have "length (er_counts q) = EP_BINS" "counts_sum (er_counts q) + n < 2 ^ 63"
    using Suc.prems(2,3) q by auto
  from Suc.IH [OF l this] c show ?case by simp
qed simp

section \<open>The worker's result\<close>

text \<open>
  What the kernel relies on in the C mathematics library: the logarithm of a number from 2^-46 to 1
  is negative and at most 32 in size, the square root of a number up to 4^k is at most 2^k and not
  negative, and the sine and cosine are at most 1 in size.
\<close>

definition libm_documented :: "libm \<Rightarrow> bool" where
  "libm_documented B \<longleftrightarrow>
     (\<forall>u. d_isfinite u \<longrightarrow> 1 / 2 ^ 46 \<le> d_val u \<longrightarrow> d_val u < 1 \<longrightarrow>
        d_sign (m_log B u) \<and> d_bounded 5 (m_log B u)) \<and>
     (\<forall>x k. \<not> d_sign x \<longrightarrow> d_bounded (2 * k) x \<longrightarrow> \<not> d_sign (m_sqrt B x) \<and> d_bounded k (m_sqrt B x)) \<and>
     (\<forall>x. d_isfinite x \<longrightarrow> d_bounded 0 (m_cos B x) \<and> d_bounded 0 (m_sin B x))"

lemma d_bounded_simps [simp]:
  "d_bounded k (d_neg x) = d_bounded k x" "d_bounded k (d_abs x) = d_bounded k x"
  by (simp_all add: d_bounded_def d_neg_props d_abs_props)

lemma small_of_nat: "n \<le> 2 ^ k \<Longrightarrow> k \<le> 52 \<Longrightarrow> d_bounded k (d_of_nat n)"
proof (cases "n = 0")
  case False
  assume n: "n \<le> 2 ^ k" and k: "k \<le> 52"
  have "of_nat n \<le> (2 ^ k :: rat)" using n by (metis of_nat_le_iff of_nat_numeral of_nat_power)
  also have "\<dots> < 2 ^ k * (1 + 1 / 2 ^ 53)" by simp
  finally show ?thesis using False k by (simp only: d_of_nat_def if_False) (intro d_round_bounded, auto)
qed (simp add: d_bounded_def d_zero)

lemma ep_pair_bounded:
  assumes "libm_documented B" and "0 < unat s" and "unat s < 2 ^ 46" and "ep_pair B s = (s', x, y)"
  shows "0 < unat s' \<and> unat s' < 2 ^ 46 \<and> d_bounded 3 x \<and> d_bounded 3 y"
proof -
  obtain s1 u1 where 1: "npb_rand s = (s1, u1)" by (cases "npb_rand s")
  have r1: "0 < unat s1" "unat s1 < 2 ^ 46" and v1: "d_isfinite u1" "d_val u1 = of_nat (unat s1) / 2 ^ 46"
    using npb_rand_nonzero [OF assms(2,3)] npb_rand_value [OF assms(2,3)] by (simp_all add: 1)
  obtain s2 u2 where 2: "npb_rand s1 = (s2, u2)" by (cases "npb_rand s1")
  have r2: "0 < unat s2" "unat s2 < 2 ^ 46" and v2: "d_isfinite u2" "d_val u2 = of_nat (unat s2) / 2 ^ 46"
    using npb_rand_nonzero [OF r1] npb_rand_value [OF r1] by (simp_all add: 2)
  have val: "1 / 2 ^ 46 \<le> d_val u" "d_val u < 1" "\<not> d_sign u"
    if "0 < k" "k < 2 ^ 46" "d_val u = of_nat k / 2 ^ 46" for u k
  proof -
    show l: "1 / 2 ^ 46 \<le> d_val u" and "d_val u < 1" using that by (simp_all add: field_simps)
    then have "0 < d_val u" by (meson less_le_trans zero_less_divide_1_iff zero_less_numeral zero_less_power)
    then show "\<not> d_sign u" using mag_val_nonneg [of "d_mag u"] by (auto simp: d_val_mag not_less [symmetric])
  qed
  note w1 = val [OF r1 v1(2)] and w2 = val [OF r2 v2(2)]
  have nc: "\<not> d_lt u1 EP_MIN_U" using d_lt_val [OF w1(3) clamp_value(2)] clamp_value(1) w1(1) by auto
  let ?l = "d_mul (d_neg (d_of_nat 2)) (m_log B u1)" and ?a = "d_mul NPB_TWO_PI u2"
  have l: "d_sign (m_log B u1)" "d_bounded 5 (m_log B u1)"
    using assms(1) v1(1) w1 by (auto simp: libm_documented_def)
  have b6: "d_bounded (1 + 5) ?l" by (rule d_mul_bounded) (use l small_of_nat [of 2 1] in simp_all)
  have "\<not> d_sign ?l"
    using l d_mul_sign [of "d_of_nat 2" "d_neg (m_log B u1)"] d_of_nat_props(3) [of 2]
    by (simp add: d_mul_neg d_neg_props)
  with assms(1) b6 have t: "d_bounded 3 (m_sqrt B ?l)"
    unfolding libm_documented_def by (elim conjE allE [of _ ?l] allE [of _ "3::nat"]) simp
  have "d_bounded 3 NPB_TWO_PI" by (simp add: d_bounded_def d_mag_def NPB_TWO_PI_def)
  moreover have "d_bounded 0 u2"
  proof (rule ccontr)
    assume "\<not> d_bounded 0 u2"
    then have "mag_val ((0 + 1023) * 2 ^ 52) < mag_val (d_mag u2)"
      by (intro mag_val_less) (simp add: d_bounded_def)
    with w2 show False unfolding mag_val_pow by (simp add: d_val_mag)
  qed
  ultimately have "d_bounded (3 + 0) ?a" by (rule d_mul_bounded) simp
  then have "d_isfinite ?a" by (rule d_bounded_finite) simp
  with assms(1) have c: "d_bounded 0 (m_cos B ?a)" "d_bounded 0 (m_sin B ?a)"
    by (auto simp: libm_documented_def)
  have "s' = s2" "x = d_mul (m_sqrt B ?l) (m_cos B ?a)" "y = d_mul (m_sqrt B ?l) (m_sin B ?a)"
    using assms(4) nc by (auto simp: ep_pair_def 1 2 Let_def)
  with d_mul_bounded [OF t c(1)] d_mul_bounded [OF t c(2)] r2 show ?thesis by simp
qed

lemma ep_bin_defined:
  assumes "d_bounded 3 x" and "d_bounded 3 y"
  shows "\<exists>b. ep_bin x y = Some b \<and> b < EP_BINS"
proof -
  define l where "l = (if d_lt (d_abs y) (d_abs x) then d_abs x else d_abs y)"
  have l: "d_bounded 3 l" "\<not> d_sign l" using assms by (simp_all add: l_def d_abs_props)
  have f: "d_isfinite l" using d_bounded_finite [OF l(1)] by simp
  have v: "0 \<le> d_val l" "d_val l \<le> 2 ^ 3" using d_bounded_val [OF l(1)] d_val_nonneg [OF l(2)] by auto
  then have "0 \<le> \<lfloor>d_val l\<rfloor>" "\<lfloor>d_val l\<rfloor> \<le> 8" by (simp_all add: floor_le_iff)
  then have "d_to_int l = Some \<lfloor>d_val l\<rfloor>" using f l(2) by (simp add: d_to_int_def Let_def)
  then have "\<exists>b. ep_bin x y = Some b" unfolding ep_bin_def l_def [symmetric] Let_def by simp
  then show ?thesis using ep_bin_range by blast
qed

lemma ep_loop_total:
  assumes "libm_documented B" and "0 < unat s" and "unat s < 2 ^ 46"
    and "d_bounded 60 (er_sx r)" and "d_bounded 60 (er_sy r)"
  shows "\<exists>s' r'. ep_loop B n (s, r) = Some (s', r') \<and> d_bounded 60 (er_sx r') \<and> d_bounded 60 (er_sy r')"
  using assms(2-)
proof (induction n arbitrary: s r)
  case (Suc n)
  obtain s2 x y where p: "ep_pair B s = (s2, x, y)" by (cases "ep_pair B s") auto
  note b = ep_pair_bounded [OF assms(1) Suc.prems(1,2) p]
  obtain i where i: "ep_bin x y = Some i" using ep_bin_defined b by blast
  let ?q = "\<lparr>er_counts = (er_counts r)[i := er_counts r ! i + 1],
             er_sx = d_add (er_sx r) x, er_sy = d_add (er_sy r) y\<rparr>"
  have "d_bounded 60 (er_sx ?q)" "d_bounded 60 (er_sy ?q)"
    using d_add_bounded [of 60 _ 3] Suc.prems(3,4) b by simp_all
  then show ?case using Suc.IH [of s2 ?q] b by (simp add: ep_step_def p i)
qed simp


definition demo_libm :: libm where
  "demo_libm = \<lparr>m_sqrt = \<lambda>x. 0x3FF0000000000000, m_log = \<lambda>x. 0xBFF0000000000000,
     m_cos = \<lambda>x. 0x3FF0000000000000, m_sin = \<lambda>x. 0\<rparr>"

lemma demo_libm_documented: "libm_documented demo_libm"
  by (simp add: libm_documented_def demo_libm_def d_bounded_def d_mag_def d_sign_def bit_simps)


end
