(* ===== verification/Ep_Workload.thy ===== *)
theory Ep_Workload
  imports Npb_Kernels Master_Rounds
begin

text \<open>
  The EP workload: the central node's phase in \<open>main\<close> of src/master_npb.c, which sends every
  worker a seed per run and checks and adds the bin counts it gets back, and the worker's phase in
  \<open>main\<close> of src/worker_npb.c. A failed check of the central node aborts the MPI program.
\<close>

section \<open>Central node\<close>

definition ep_seed :: "int \<Rightarrow> nat \<Rightarrow> nat \<Rightarrow> u64" where
  \<comment> \<open>(int64_t)run * nworkers + w\<close>
  "ep_seed run nworkers w = word_of_int (run * int nworkers + int w)"

definition ep_check_bin :: "int \<Rightarrow> u64 list \<Rightarrow> nat \<Rightarrow> int \<times> u64 list \<Rightarrow> ('w, int \<times> u64 list) prog" where
  "ep_check_bin ep_n counts b s =
     (case s of (worker_pairs, totals) \<Rightarrow>
      if sint (counts ! b) < 0 \<or> sint (counts ! b) > ep_n - worker_pairs then halt 1
      else ret (worker_pairs + sint (counts ! b), totals[b := totals ! b + counts ! b]))"

definition ep_collect ::
  "crypto \<Rightarrow> 'e mpi \<Rightarrow> links \<Rightarrow> bool \<Rightarrow> int \<Rightarrow> nat \<Rightarrow> master_state \<times> ep_result \<times> dbl
    \<Rightarrow> ('e world, master_state \<times> ep_result \<times> dbl) prog" where
  "ep_collect C M L encrypt ep_n w s =
     (case s of (m, totals, t_compute_max) \<Rightarrow>
      bindP (small_from C M L encrypt TAG_NPB_EP_RESULT 96 w m) (\<lambda>r.
      case r of
        None \<Rightarrow> halt 1
      | Some (bs, m) \<Rightarrow>
          let wr = decode_ep_result bs in
          bindP (loopP (ep_check_bin ep_n (er_counts wr)) [0..<EP_BINS] (0, er_counts totals)) (\<lambda>(worker_pairs, counts).
          if worker_pairs \<noteq> ep_n \<or> \<not> d_isfinite (er_sx wr) \<or> \<not> d_isfinite (er_sy wr) then halt 1
          else
            bindP (small_from C M L encrypt TAG_NPB_TIME 8 w m) (\<lambda>r.
            case r of
              None \<Rightarrow> halt 1
            | Some (bs, m) \<Rightarrow>
                let tw = le_dec bs :: dbl in
                if \<not> d_isfinite tw \<or> d_lt tw 0 then halt 1
                else ret (m, \<lparr>er_counts = counts, er_sx = d_add (er_sx totals) (er_sx wr),
                             er_sy = d_add (er_sy totals) (er_sy wr)\<rparr>,
                          if d_lt t_compute_max tw then tw else t_compute_max)))))"

definition record_ep_result ::
  "nat \<Rightarrow> bool \<Rightarrow> int \<Rightarrow> int \<Rightarrow> dbl \<Rightarrow> dbl \<Rightarrow> dbl \<Rightarrow> dbl \<Rightarrow> master_state \<Rightarrow> master_state" where
  "record_ep_result nworkers encrypt run ep_n scatter_ms compute_max_ms gather_ms round_ms m =
     (if length (ms_results m) < MAX_RESULTS
      then m\<lparr>ms_results := ms_results m @
        [npb_result_zero\<lparr>r_workload := WORKLOAD_EP, r_num_workers := nworkers, r_encrypted := encrypt,
           r_run := run, r_t_scatter_ms := scatter_ms, r_t_compute_max_ms := compute_max_ms,
           r_t_gather_ms := gather_ms, r_t_round_ms := round_ms,
           r_ep_pairs_total := word_of_int (ep_n * int nworkers)\<rparr>]\<rparr>
      else m)"

definition ep_send_seed ::
  "crypto \<Rightarrow> 'e mpi \<Rightarrow> links \<Rightarrow> nat \<Rightarrow> bool \<Rightarrow> int \<Rightarrow> nat \<Rightarrow> master_state \<Rightarrow> ('e world, master_state) prog" where
  "ep_send_seed C M L nworkers encrypt run w =
     small_to C M L encrypt TAG_NPB_CMD (le_enc 8 (ep_seed run nworkers w)) w"

definition ep_master_run ::
  "crypto \<Rightarrow> 'e mpi \<Rightarrow> links \<Rightarrow> nat \<Rightarrow> bool \<Rightarrow> int \<Rightarrow> int \<Rightarrow> master_state \<Rightarrow> ('e world, master_state) prog" where
  "ep_master_run C M L nworkers encrypt ep_n run m =
     bindP (mpi_wtime M) (\<lambda>t0.
     bindP (loopP (ep_send_seed C M L nworkers encrypt run) [0..<nworkers] m) (\<lambda>m.
     bindP (mpi_wtime M) (\<lambda>t1.
     bindP (loopP (ep_collect C M L encrypt ep_n) [0..<nworkers]
              (m, \<lparr>er_counts = replicate EP_BINS 0, er_sx = 0, er_sy = 0\<rparr>, 0)) (\<lambda>(m, totals, t_compute_max).
     bindP (mpi_wtime M) (\<lambda>t2.
     ret (record_ep_result nworkers encrypt run ep_n (elapsed_ms t0 t1) t_compute_max
            (elapsed_ms t1 t2) (elapsed_ms t0 t2) m))))))"

definition run_ep_master ::
  "crypto \<Rightarrow> 'e mpi \<Rightarrow> links \<Rightarrow> nat \<Rightarrow> bool \<Rightarrow> int \<Rightarrow> int \<Rightarrow> master_state \<Rightarrow> ('e world, master_state) prog" where
  "run_ep_master C M L nworkers encrypt num_runs ep_n m =
     bindP (send_command C M L nworkers
              ((start_cmd WORKLOAD_EP encrypt num_runs)\<lparr>c_ep_pairs := word_of_int ep_n\<rparr>) m) (\<lambda>m.
     loopP (ep_master_run C M L nworkers encrypt ep_n) [1..num_runs] m)"

section \<open>Worker\<close>

definition ep_worker_run ::
  "crypto \<Rightarrow> 'e mpi \<Rightarrow> libm \<Rightarrow> comm \<Rightarrow> npb_cmd \<Rightarrow> int \<Rightarrow> worker_chan
    \<Rightarrow> ('e world, (worker_chan, worker_chan) flow) prog" where
  \<comment> \<open>a run whose kernel has no defined result ends the process\<close>
  "ep_worker_run C M B icomm cmd run g =
     bindP (worker_workload_recv_small C M icomm g 8 TAG_NPB_CMD (c_encrypt_data cmd \<noteq> 0)) (\<lambda>r.
     case r of
       None \<Rightarrow> ret (Exit g)
     | Some (bs, g) \<Rightarrow>
         bindP (mpi_wtime M) (\<lambda>t0.
         case ep_compute B (c_ep_pairs cmd) (le_dec bs) of
           None \<Rightarrow> halt 134
         | Some result \<Rightarrow>
             bindP (mpi_wtime M) (\<lambda>t1.
             bindP (worker_workload_send_small C M icomm g (encode_ep_result result)
                      TAG_NPB_EP_RESULT (c_encrypt_data cmd \<noteq> 0)) (\<lambda>g.
             bindP (worker_workload_send_small C M icomm g (le_enc 8 (elapsed_ms t0 t1))
                      TAG_NPB_TIME (c_encrypt_data cmd \<noteq> 0)) (\<lambda>g.
             ret (Next g))))))"

definition run_ep_worker ::
  "crypto \<Rightarrow> 'e mpi \<Rightarrow> libm \<Rightarrow> comm \<Rightarrow> worker_chan \<Rightarrow> npb_cmd \<Rightarrow> ('e world, worker_chan) prog" where
  \<comment> \<open>a failed receive leaves the run loop only\<close>
  "run_ep_worker C M B icomm g cmd =
     bindP (loopX (ep_worker_run C M B icomm cmd) [1..sint (c_num_runs cmd)] g)
       (\<lambda>f. ret (case f of Next g \<Rightarrow> g | Exit g \<Rightarrow> g))"

section \<open>Seeds\<close>

lemma ep_seed_int:
  assumes "1 \<le> run" and "run \<le> int MAX_RUNS" and "w < nworkers" and "nworkers \<le> MAX_WORKERS"
  shows "sint (ep_seed run nworkers w) = run * int nworkers + int w" and "0 < run * int nworkers + int w"
    and "run * int nworkers + int w < 2 ^ 46"
proof -
  have "run * int nworkers \<le> 1000 * 128" using assms by (intro mult_mono) auto
  then have le: "run * int nworkers + int w < 2 ^ 46" using assms by simp
  have "1 * int nworkers \<le> run * int nworkers" using assms by (intro mult_right_mono) auto
  then have pos: "0 < run * int nworkers + int w" using assms(3) by linarith
  have "uint (ep_seed run nworkers w) = run * int nworkers + int w"
    unfolding ep_seed_def by (rule uint_u64_of_int) (use le pos in simp_all)
  with le pos show "sint (ep_seed run nworkers w) = run * int nworkers + int w" "0 < run * int nworkers + int w"
    "run * int nworkers + int w < 2 ^ 46"
    by (simp_all add: sint_small)
qed

text \<open>
  C15: For every number of workers and runs the command line admits, each worker starts its generator
  in each run at exactly the seed the central node computed for it (no wrap-around, no masking, never
  the default seed), and two different pairs of run and worker start at different states.
\<close>

theorem ep_streams_distinct:
  assumes "nworkers \<le> MAX_WORKERS" and "run \<in> {1..int MAX_RUNS}" and "run' \<in> {1..int MAX_RUNS}"
    and "w < nworkers" and "w' < nworkers"
  shows "int (unat (ep_initial_state (ep_seed run nworkers w))) = run * int nworkers + int w \<and>
    (ep_initial_state (ep_seed run nworkers w) = ep_initial_state (ep_seed run' nworkers w') \<longleftrightarrow>
     run = run' \<and> w = w')"
proof -
  have st: "int (unat (ep_initial_state (ep_seed r nworkers v))) = r * int nworkers + int v"
    if "r \<in> {1..int MAX_RUNS}" "v < nworkers" for r v
  proof -
    let ?s = "ep_seed r nworkers v"
    have s: "sint ?s = r * int nworkers + int v" "0 < r * int nworkers + int v" "r * int nworkers + int v < 2 ^ 46"
      using ep_seed_int [of r v nworkers] that assms(1) by auto
    have u: "uint ?s = r * int nworkers + int v"
      unfolding ep_seed_def by (rule uint_u64_of_int) (use s(2,3) in simp_all)
    then have n: "unat ?s = nat (r * int nworkers + int v)" by (simp only: unat_eq_nat_uint)
    then have "unat ?s < 2 ^ 46" using s(3) by (simp only: nat_less_iff) simp
    then have m: "?s AND NPB_MASK = ?s" by (simp only: word_unat_eq_iff mask46 mod_less)
    have "?s \<noteq> 0" using s(1,2) by auto
    then have "ep_initial_state ?s = ?s" using s(1,2) by (simp add: ep_initial_state_def m)
    with n s(2) show ?thesis by simp
  qed
  have "(run * int nworkers + int w) div int nworkers = run" "(run * int nworkers + int w) mod int nworkers = int w"
    "(run' * int nworkers + int w') div int nworkers = run'" "(run' * int nworkers + int w') mod int nworkers = int w'"
    using assms(4,5) by simp_all
  then have "run * int nworkers + int w = run' * int nworkers + int w' \<longleftrightarrow> run = run' \<and> w = w'"
    by (metis of_nat_eq_iff)
  moreover have "ep_initial_state (ep_seed run nworkers w) = ep_initial_state (ep_seed run' nworkers w') \<longleftrightarrow>
      run * int nworkers + int w = run' * int nworkers + int w'"
    using st assms(2-5) by (metis word_unat_eq_iff of_nat_eq_iff)
  ultimately show ?thesis using st assms(2,4) by blast
qed

theorem ep_streams_distinct_witness:
  "ep_initial_state (ep_seed 2 3 0) \<noteq> ep_initial_state (ep_seed 1 3 2)"
  using ep_streams_distinct [of 3 2 1 0 2] by simp

section \<open>The central node's check of the counts\<close>

definition counts_valid :: "int \<Rightarrow> u64 list \<Rightarrow> bool" where
  "counts_valid ep_n counts \<longleftrightarrow> list_all (\<lambda>c. 0 \<le> sint c) counts \<and> int (counts_sum counts) \<le> ep_n"

lemma sint_nonneg_unat: "0 \<le> sint (c :: u64) \<Longrightarrow> sint c = int (unat c)"
proof -
  assume "0 \<le> sint c"
  have "uint c < 2 ^ 64" using uint_range_size [of c] by (simp add: word_size)
  have "uint c < 2 ^ (LENGTH(64) - Suc 0)"
  proof (rule ccontr)
    assume "\<not> uint c < 2 ^ (LENGTH(64) - Suc 0)"
    then have "uint c div 2 ^ 63 = 1"
      using \<open>uint c < 2 ^ 64\<close> by (intro int_div_pos_eq [of _ _ _ "uint c - 2 ^ 63"]) simp_all
    then have "bit (uint c) 63" by (simp add: bit_iff_odd)
    then have "sint c < 0" by (simp add: sint_uint signed_take_bit_negative_iff)
    with \<open>0 \<le> sint c\<close> show False by simp
  qed
  then show ?thesis by (simp add: sint_small)
qed

lemma counts_sum_snoc [simp]: "counts_sum (cs @ [c]) = counts_sum cs + unat c"
  by (simp add: counts_sum_def)

lemma ep_check_prefix:
  assumes "length counts = EP_BINS" and "length tot = EP_BINS" and "i \<le> EP_BINS"
  shows "loopP (ep_check_bin ep_n counts) [0..<i] (0, tot) w =
    (if i = 0 \<or> counts_valid ep_n (take i counts)
     then Done (int (counts_sum (take i counts)), map2 (+) (take i tot) (take i counts) @ drop i tot) w
     else Halt 1 w)"
  using assms(3)
proof (induction i)
  case 0
  then show ?case by (simp add: counts_sum_def)
next
  case (Suc i)
  then have i: "i < length counts" "i < length tot" using assms by simp_all
  let ?c = "counts ! i"
  have t: "take (Suc i) counts = take i counts @ [?c]" "take (Suc i) tot = take i tot @ [tot ! i]"
    using i by (simp_all add: take_Suc_conv_app_nth)
  have d: "(map2 (+) (take i tot) (take i counts) @ drop i tot)[i := tot ! i + ?c] =
      map2 (+) (take (Suc i) tot) (take (Suc i) counts) @ drop (Suc i) tot"
    "(map2 (+) (take i tot) (take i counts) @ drop i tot) ! i = tot ! i"
    using i by (simp_all add: t list_update_append nth_append Cons_nth_drop_Suc [symmetric])
  have v: "counts_valid ep_n (take (Suc i) counts) \<longleftrightarrow>
      (i = 0 \<or> counts_valid ep_n (take i counts)) \<and> 0 \<le> sint ?c \<and> sint ?c \<le> ep_n - int (counts_sum (take i counts))"
  proof (cases "0 \<le> sint ?c")
    case True
    then have "int (counts_sum (take i counts @ [?c])) = int (counts_sum (take i counts)) + sint ?c"
      using sint_nonneg_unat [of ?c] by (simp only: counts_sum_snoc of_nat_add)
    with True show ?thesis by (auto simp: counts_valid_def t counts_sum_def simp del: counts_sum_snoc)
  qed (simp add: counts_valid_def t)
  have "loopP (ep_check_bin ep_n counts) [0..<Suc i] (0, tot) w =
      bindP (loopP (ep_check_bin ep_n counts) [0..<i] (0, tot)) (loopP (ep_check_bin ep_n counts) [i]) w"
    by (simp add: loopP_append)
  also have "\<dots> = (if counts_valid ep_n (take (Suc i) counts)
     then Done (int (counts_sum (take (Suc i) counts)),
       map2 (+) (take (Suc i) tot) (take (Suc i) counts) @ drop (Suc i) tot) w
     else Halt 1 w)"
  proof (cases "i = 0 \<or> counts_valid ep_n (take i counts)")
    case True
    with Suc have "loopP (ep_check_bin ep_n counts) [0..<i] (0, tot) w =
      Done (int (counts_sum (take i counts)), map2 (+) (take i tot) (take i counts) @ drop i tot) w" by simp
    then show ?thesis using v True sint_nonneg_unat [of ?c] d
      by (auto simp: bindP_def ep_check_bin_def t(1) not_le not_less)
  next
    case False
    with Suc have "loopP (ep_check_bin ep_n counts) [0..<i] (0, tot) w = Halt 1 w" by simp
    with False v show ?thesis by (auto simp: bindP_def)
  qed
  finally show ?case by simp
qed

text \<open>
  C14: The central node's loop over the bins of a worker's result aborts unless no count is negative
  and the counts add up to at most the number of pairs; otherwise it gives their exact sum and adds
  them to the totals. So a result whose sum it finds equal to the number of pairs is one, and the result
  of an honest worker always is.
\<close>

theorem ep_counts_checked:
  assumes "length (er_counts wr) = EP_BINS" and "length tot = EP_BINS"
  shows "loopP (ep_check_bin ep_n (er_counts wr)) [0..<EP_BINS] (0, tot) w =
      (if counts_valid ep_n (er_counts wr)
       then Done (int (counts_sum (er_counts wr)), map2 (+) tot (er_counts wr)) w else Halt 1 w) \<and>
    (ep_compute B num_pairs seed = Some wr \<and> 0 \<le> sint num_pairs \<longrightarrow>
       counts_valid (sint num_pairs) (er_counts (decode_ep_result (encode_ep_result wr))) \<and>
       int (counts_sum (er_counts wr)) = sint num_pairs)"
proof
  have "EP_BINS \<noteq> 0" by (simp add: EP_BINS_def)
  with ep_check_prefix [OF assms, of EP_BINS ep_n w] assms
  show "loopP (ep_check_bin ep_n (er_counts wr)) [0..<EP_BINS] (0, tot) w =
      (if counts_valid ep_n (er_counts wr)
       then Done (int (counts_sum (er_counts wr)), map2 (+) tot (er_counts wr)) w else Halt 1 w)" by simp
  show "ep_compute B num_pairs seed = Some wr \<and> 0 \<le> sint num_pairs \<longrightarrow>
       counts_valid (sint num_pairs) (er_counts (decode_ep_result (encode_ep_result wr))) \<and>
       int (counts_sum (er_counts wr)) = sint num_pairs"
  proof (intro impI; elim conjE)
    assume c: "ep_compute B num_pairs seed = Some wr" and n: "0 \<le> sint num_pairs"
    have b: "sint num_pairs < 2 ^ 63" using sint_range_size [of num_pairs] by (simp add: word_size)
    from c obtain s' where l: "ep_loop B (nat (sint num_pairs)) (ep_initial_state seed,
        \<lparr>er_counts = replicate EP_BINS 0, er_sx = 0, er_sy = 0\<rparr>) = Some (s', wr)"
      by (auto simp: ep_compute_def)
    have z: "counts_sum (replicate EP_BINS 0) = 0" by (simp add: counts_sum_def sum_list_replicate)
    have s: "counts_sum (er_counts wr) = nat (sint num_pairs)"
      using ep_loop_counts [OF l] b n z by (simp add: nat_less_iff)
    have "sint x \<ge> 0" if "x \<in> set (er_counts wr)" for x
    proof -
      have "unat x \<le> counts_sum (er_counts wr)"
        unfolding counts_sum_def by (rule member_le_sum_list) (use that in auto)
      then have "int (unat x) < 2 ^ 63" using s b n by linarith
      then have "uint x < 2 ^ (LENGTH(64) - Suc 0)" by simp
      then have "sint x = uint x" by (rule sint_small)
      then show ?thesis by simp
    qed
    with s n show "counts_valid (sint num_pairs) (er_counts (decode_ep_result (encode_ep_result wr))) \<and>
       int (counts_sum (er_counts wr)) = sint num_pairs"
      by (simp add: counts_valid_def decode_encode_ep_result(1) [OF assms(1)] list_all_iff)
  qed
qed

theorem ep_counts_checked_witness:
  "loopP (ep_check_bin 3 [0, 3, 0, 0, 0, 0, 0, 0, 0, 0]) [0..<EP_BINS] (0, [1, 1, 1, 1, 1, 1, 1, 1, 1, 1]) () =
     Done (3, [1, 4, 1, 1, 1, 1, 1, 1, 1, 1]) ()"
  using ep_counts_checked [of "\<lparr>er_counts = [0, 3, 0, 0, 0, 0, 0, 0, 0, 0], er_sx = 0, er_sy = 0\<rparr>"
      "[1, 1, 1, 1, 1, 1, 1, 1, 1, 1]" 3 "()"]
  by (simp add: counts_valid_def counts_sum_def EP_BINS_def)

section \<open>The runs of the central node\<close>

lemma ep_collect_quiet:
  assumes "ep_collect C M L encrypt ep_n i s w = Done s' w'"
  shows "quiet (fst s) (fst s')"
  using assms by (auto simp: ep_collect_def Let_def split: option.splits if_splits prod.splits
      dest!: from_quietD) (blast intro: quiet_trans)+

lemma record_ep:
  "quiet m m1 \<Longrightarrow> ms_le m (record_ep_result n encrypt run ep_n a b c d m1) \<and>
   (length (ms_results m) < MAX_RESULTS \<longrightarrow> (\<exists>r. ms_results (record_ep_result n encrypt run ep_n a b c d m1) =
      ms_results m @ [r] \<and> r_run r = run \<and> run_good WORKLOAD_EP n encrypt r))"
  by (auto simp: record_ep_result_def quiet_def ms_le_def run_good_def npb_result_zero_def)

interpretation ep_runs: recorded_runs "ep_master_run C M L n encrypt ep_n" "\<lambda>m. m" "run_good WORKLOAD_EP n encrypt"
  for C M L n encrypt ep_n
proof unfold_locales
  fix i m w m' w'
  assume "ep_master_run C M L n encrypt ep_n i m w = Done m' w'"
  then obtain m1 v1 v2 m2 tot tm v3 v4 a b c where
    1: "loopP (ep_send_seed C M L n encrypt i) [0..<n] m v1 = Done m1 v2" and
    2: "loopP (ep_collect C M L encrypt ep_n) [0..<n]
          (m1, \<lparr>er_counts = replicate EP_BINS 0, er_sx = 0, er_sy = 0\<rparr>, 0) v3 = Done (m2, tot, tm) v4" and
    3: "m' = record_ep_result n encrypt i ep_n a tm b c m2"
    by (auto simp: ep_master_run_def split: prod.splits)
  have "quiet m m1" using 1 by (rule loopP_quiet) (auto simp: ep_send_seed_def dest: to_quietD)
  moreover have "quiet m1 m2" using loopP_quiet_fst [OF 2 ep_collect_quiet] by simp
  ultimately have "quiet m m2" by (rule quiet_trans)
  then show "ms_le m m' \<and> (length (ms_results m) < MAX_RESULTS \<longrightarrow>
      (\<exists>r. ms_results m' = ms_results m @ [r] \<and> r_run r = i \<and> run_good WORKLOAD_EP n encrypt r))"
    unfolding 3 by (rule record_ep)
qed

lemma ep_reported:
  assumes "run_ep_master C M L n encrypt num_runs ep_n m w = Done m' w'"
    and "length (ms_results m) + nat num_runs \<le> MAX_RESULTS"
  shows "ms_le m m' \<and> (\<exists>rs. ms_results m' = ms_results m @ rs \<and> map r_run rs = [1..num_runs] \<and>
    list_all (run_good WORKLOAD_EP n encrypt) rs)"
proof -
  from assms(1) obtain m1 v where q: "quiet m m1"
    and l: "loopP (ep_master_run C M L n encrypt ep_n) [1..num_runs] m1 v = Done m' w'"
    by (auto simp: run_ep_master_def dest: send_command_quiet)
  have "length (ms_results m1) + nat (num_runs - 1 + 1) \<le> MAX_RESULTS" using q assms(2) by (simp add: quiet_def)
  from ep_runs.runs_from [OF l this] q show ?thesis by (auto simp: quiet_def intro: ms_le_trans)
qed

end
