(* ===== verification/Cg_Workload.thy ===== *)
theory Cg_Workload
  imports Npb_Kernels Master_Rounds
begin

text \<open>
  The CG workload: the central node's phase in \<open>main\<close> of src/master_npb.c, which gives every
  worker a block of rows of a sparse matrix and in each iteration sends the vector x, gathers the
  blocks of y = A x and normalises, and the worker's phase in \<open>main\<close> of src/worker_npb.c.
  A failed check of the central node aborts the MPI program; a status of -1 of the worker's phase leaves
  its command loop.
\<close>

section \<open>The matrix on the wire\<close>

definition bytes_of_ints :: "nat list \<Rightarrow> bytes" where
  "bytes_of_ints xs = concat (map (\<lambda>i. le_enc 4 (of_nat i :: u32)) xs)"

definition ints_of_bytes :: "bytes \<Rightarrow> nat list" where
  \<comment> \<open>as array indices; the kernels have no defined result on negative ones\<close>
  "ints_of_bytes bs = map (\<lambda>i. nat (sint (field32 (4 * i) bs))) [0..<length bs div 4]"

definition cg_row_start :: "nat \<Rightarrow> nat \<Rightarrow> nat \<Rightarrow> nat" where
  "cg_row_start cg_n nworkers w = w * (cg_n div nworkers)"

definition cg_row_count :: "nat \<Rightarrow> nat \<Rightarrow> nat \<Rightarrow> nat" where
  "cg_row_count cg_n nworkers w =
     (if w = nworkers - 1 then cg_n - w * (cg_n div nworkers) else cg_n div nworkers)"

definition cg_slice :: "csr_matrix \<Rightarrow> nat \<Rightarrow> nat \<Rightarrow> csr_matrix" where
  "cg_slice A rs rc_w =
     (let nnz_w = row_ptr A ! (rs + rc_w) - row_ptr A ! rs in
      \<lparr>row_ptr = map (\<lambda>r. row_ptr A ! (rs + r) - row_ptr A ! rs) [0..<rc_w + 1],
       col_idx = take nnz_w (drop (row_ptr A ! rs) (col_idx A)),
       csr_val = take nnz_w (drop (row_ptr A ! rs) (csr_val A))\<rparr>)"

section \<open>Central node\<close>

definition cg_send_matrix ::
  "crypto \<Rightarrow> 'e mpi \<Rightarrow> links \<Rightarrow> nat \<Rightarrow> bool \<Rightarrow> int \<Rightarrow> nat \<Rightarrow> nat \<Rightarrow> int \<Rightarrow> csr_matrix \<Rightarrow> nat \<Rightarrow> master_state
    \<Rightarrow> ('e world, master_state) prog" where
  "cg_send_matrix C M L nworkers encrypt num_runs cg_n cg_nzpc cg_iters A w m =
     (let rs = cg_row_start cg_n nworkers w; rc_w = cg_row_count cg_n nworkers w;
          cmd = (start_cmd WORKLOAD_CG encrypt num_runs)
            \<lparr>c_cg_rows := of_nat cg_n, c_cg_row_start := of_nat rs, c_cg_row_count := of_nat rc_w,
             c_cg_n := of_nat cg_n, c_cg_nzpc := of_nat cg_nzpc, c_cg_iters := i32 cg_iters\<rparr>;
          S = cg_slice A rs rc_w in
      bindP (secure_to C M L TAG_NPB_CMD (encode_npb_cmd cmd) w m) (\<lambda>m.
      bindP (on_env (m_malloc M ((rc_w + 1) * 4))) (\<lambda>ok.
      if \<not> ok then halt 1
      else
        bindP (bulk_to C M L encrypt TAG_NPB_CG_MATRIX (bytes_of_ints (row_ptr S)) w m) (\<lambda>m.
        bindP (bulk_to C M L encrypt TAG_NPB_CG_MATRIX (bytes_of_ints (col_idx S)) w m) (\<lambda>m.
        bulk_to C M L encrypt TAG_NPB_CG_MATRIX (bytes_of_dbls (csr_val S)) w m)))))"

definition cg_store :: "nat \<Rightarrow> nat \<Rightarrow> nat \<Rightarrow> dbl list \<Rightarrow> dbl list \<Rightarrow> dbl list" where
  \<comment> \<open>y with a worker's block of rows at its place\<close>
  "cg_store cg_n nworkers w part y =
     (let rs = cg_row_start cg_n nworkers w; rc_w = cg_row_count cg_n nworkers w
      in take rs y @ part @ drop (rs + rc_w) y)"

definition cg_collect ::
  "crypto \<Rightarrow> 'e mpi \<Rightarrow> links \<Rightarrow> nat \<Rightarrow> bool \<Rightarrow> nat \<Rightarrow> nat \<Rightarrow> master_state \<times> dbl list \<times> dbl
    \<Rightarrow> ('e world, master_state \<times> dbl list \<times> dbl) prog" where
  "cg_collect C M L nworkers encrypt cg_n w s =
     (case s of (m, y, t_compute_max) \<Rightarrow>
      bindP (bulk_from C M L encrypt TAG_NPB_CG_Y (cg_row_count cg_n nworkers w * 8) w m) (\<lambda>r.
      case r of
        None \<Rightarrow> halt 1
      | Some (bs, m) \<Rightarrow>
          let y = cg_store cg_n nworkers w (dbls_of_bytes bs) y in
          bindP (small_from C M L encrypt TAG_NPB_TIME 8 w m) (\<lambda>r.
          case r of
            None \<Rightarrow> halt 1
          | Some (bs, m) \<Rightarrow>
              let tw = le_dec bs :: dbl in
              if \<not> d_isfinite tw \<or> d_lt tw 0 then halt 1
              else ret (m, y, if d_lt t_compute_max tw then tw else t_compute_max))))"

definition cg_normalise :: "libm \<Rightarrow> dbl list \<Rightarrow> dbl list \<Rightarrow> dbl list" where
  \<comment> \<open>x = y / ||y||, or x unless the norm is positive\<close>
  "cg_normalise B x y =
     (let norm = m_sqrt B (fold (\<lambda>v norm. d_add norm (d_mul v v)) y 0)
      in if d_lt 0 norm then map (\<lambda>v. d_div v norm) y else x)"

record cg_loop =
  cg_ms :: master_state
  cg_x :: "dbl list"
  cg_y :: "dbl list"
  cg_scatter :: dbl
  cg_gather :: dbl
  cg_compute :: dbl

definition cg_iteration ::
  "crypto \<Rightarrow> 'e mpi \<Rightarrow> libm \<Rightarrow> links \<Rightarrow> nat \<Rightarrow> bool \<Rightarrow> nat \<Rightarrow> int \<Rightarrow> cg_loop \<Rightarrow> ('e world, cg_loop) prog" where
  "cg_iteration C M B L nworkers encrypt cg_n iter s =
     bindP (mpi_wtime M) (\<lambda>t0.
     bindP (loopP (bulk_to C M L encrypt TAG_NPB_CG_X (bytes_of_dbls (cg_x s))) [0..<nworkers] (cg_ms s)) (\<lambda>m.
     bindP (mpi_wtime M) (\<lambda>t1.
     bindP (loopP (cg_collect C M L nworkers encrypt cg_n) [0..<nworkers] (m, cg_y s, 0)) (\<lambda>(m, y, t_compute_max).
     bindP (mpi_wtime M) (\<lambda>t2.
     ret \<lparr>cg_ms = m, cg_x = cg_normalise B (cg_x s) y, cg_y = y,
          cg_scatter = d_add (cg_scatter s) (elapsed_ms t0 t1),
          cg_gather = d_add (cg_gather s) (elapsed_ms t1 t2),
          cg_compute = d_add (cg_compute s) t_compute_max\<rparr>)))))"

definition record_cg_result ::
  "nat \<Rightarrow> bool \<Rightarrow> int \<Rightarrow> nat \<Rightarrow> int \<Rightarrow> cg_loop \<Rightarrow> master_state" where
  "record_cg_result nworkers encrypt run cg_n cg_iters s =
     (let m = cg_ms s in
      if length (ms_results m) < MAX_RESULTS
      then m\<lparr>ms_results := ms_results m @
        [npb_result_zero\<lparr>r_workload := WORKLOAD_CG, r_num_workers := nworkers, r_encrypted := encrypt,
           r_run := run, r_t_scatter_ms := cg_scatter s, r_t_compute_max_ms := cg_compute s,
           r_t_gather_ms := cg_gather s, r_t_round_ms := d_add (cg_scatter s) (cg_gather s),
           r_cg_n := int cg_n, r_cg_iters := cg_iters\<rparr>]\<rparr>
      else m)"

definition cg_initial_x :: "nat \<Rightarrow> dbl list" where
  "cg_initial_x cg_n = replicate cg_n (d_div (d_of_nat 1) (d_of_nat cg_n))"

definition cg_master_run ::
  "crypto \<Rightarrow> 'e mpi \<Rightarrow> libm \<Rightarrow> links \<Rightarrow> nat \<Rightarrow> bool \<Rightarrow> nat \<Rightarrow> int \<Rightarrow> int \<Rightarrow> master_state \<times> dbl list
    \<Rightarrow> ('e world, master_state \<times> dbl list) prog" where
  "cg_master_run C M B L nworkers encrypt cg_n cg_iters run s =
     (case s of (m, y) \<Rightarrow>
      bindP (loopP (cg_iteration C M B L nworkers encrypt cg_n) [0..cg_iters - 1]
               \<lparr>cg_ms = m, cg_x = cg_initial_x cg_n, cg_y = y, cg_scatter = 0, cg_gather = 0, cg_compute = 0\<rparr>) (\<lambda>s.
      ret (record_cg_result nworkers encrypt run cg_n cg_iters s, cg_y s)))"

definition run_cg_master ::
  "crypto \<Rightarrow> 'e mpi \<Rightarrow> libm \<Rightarrow> libc_rand \<Rightarrow> links \<Rightarrow> nat \<Rightarrow> bool \<Rightarrow> int \<Rightarrow> int \<Rightarrow> int \<Rightarrow> int \<Rightarrow> master_state
    \<Rightarrow> ('e world, master_state) prog" where
  \<comment> \<open>every element of y is written before it is read, so its first content does not matter\<close>
  "run_cg_master C M B R L nworkers encrypt num_runs cg_n cg_nzpc cg_iters m =
     bindP (generate_sparse_matrix R M cg_n cg_nzpc 42) (\<lambda>matrix.
     case matrix of
       None \<Rightarrow> halt 1
     | Some A \<Rightarrow>
         bindP (loopP (cg_send_matrix C M L nworkers encrypt num_runs (nat cg_n) (nat cg_nzpc) cg_iters A)
                  [0..<nworkers] m) (\<lambda>m.
         bindP (on_env (m_malloc M (nat cg_n * 8))) (\<lambda>ok_x.
         bindP (on_env (m_malloc M (nat cg_n * 8))) (\<lambda>ok_y.
         if \<not> ok_x \<or> \<not> ok_y then halt 1
         else
           bindP (loopP (cg_master_run C M B L nworkers encrypt (nat cg_n) cg_iters) [1..num_runs]
                    (m, replicate (nat cg_n) 0)) (\<lambda>(m, y).
           ret m)))))"

section \<open>Worker\<close>

definition cg_worker_iteration ::
  "crypto \<Rightarrow> 'e mpi \<Rightarrow> comm \<Rightarrow> bool \<Rightarrow> nat \<Rightarrow> nat \<Rightarrow> csr_matrix \<Rightarrow> int \<Rightarrow> worker_chan
    \<Rightarrow> ('e world, (worker_chan, int \<times> worker_chan) flow) prog" where
  "cg_worker_iteration C M icomm enc nrows cg_n A iter g =
     bindP (worker_recv_bulk C M icomm g (cg_n * 8) TAG_NPB_CG_X enc) (\<lambda>r.
     case r of
       None \<Rightarrow> ret (Exit (- 1, g))
     | Some (bs, g) \<Rightarrow>
         bindP (mpi_wtime M) (\<lambda>t0.
         let y = spmv_kernel nrows (row_ptr A) (col_idx A) (csr_val A) (dbls_of_bytes bs) in
         bindP (mpi_wtime M) (\<lambda>t1.
         bindP (worker_send_bulk C M icomm g (bytes_of_dbls y) TAG_NPB_CG_Y enc) (\<lambda>g.
         bindP (worker_workload_send_small C M icomm g (le_enc 8 (elapsed_ms t0 t1)) TAG_NPB_TIME enc) (\<lambda>g.
         ret (Next g))))))"

definition cg_worker_run ::
  "crypto \<Rightarrow> 'e mpi \<Rightarrow> comm \<Rightarrow> bool \<Rightarrow> nat \<Rightarrow> nat \<Rightarrow> int \<Rightarrow> csr_matrix \<Rightarrow> int \<Rightarrow> worker_chan
    \<Rightarrow> ('e world, (worker_chan, int \<times> worker_chan) flow) prog" where
  "cg_worker_run C M icomm enc nrows cg_n cg_iters A run g =
     loopX (cg_worker_iteration C M icomm enc nrows cg_n A) [0..cg_iters - 1] g"

definition cg_receive_matrix ::
  "crypto \<Rightarrow> 'e mpi \<Rightarrow> comm \<Rightarrow> bool \<Rightarrow> nat \<Rightarrow> worker_chan
    \<Rightarrow> ('e world, (csr_matrix \<times> worker_chan) option) prog" where
  \<comment> \<open>the last entry of row_ptr is the number of the following entries\<close>
  "cg_receive_matrix C M icomm enc nrows g =
     bindP (on_env (m_malloc M ((nrows + 1) * 4))) (\<lambda>ok.
     if \<not> ok then ret None
     else
       bindP (worker_recv_bulk C M icomm g ((nrows + 1) * 4) TAG_NPB_CG_MATRIX enc) (\<lambda>r.
       case r of
         None \<Rightarrow> ret None
       | Some (rp, g) \<Rightarrow>
           let nnz = sint (field32 (4 * nrows) rp) in
           if nnz < 0 \<or> nat nnz > SIZE_MAX div 8 then ret None
           else
             bindP (on_env (m_malloc M (if nnz > 0 then nat nnz * 4 else 1))) (\<lambda>ok_idx.
             bindP (on_env (m_malloc M (if nnz > 0 then nat nnz * 8 else 1))) (\<lambda>ok_val.
             if \<not> ok_idx \<or> \<not> ok_val then ret None
             else
               bindP (worker_recv_bulk C M icomm g (nat nnz * 4) TAG_NPB_CG_MATRIX enc) (\<lambda>r.
               case r of
                 None \<Rightarrow> ret None
               | Some (ci, g) \<Rightarrow>
                   bindP (worker_recv_bulk C M icomm g (nat nnz * 8) TAG_NPB_CG_MATRIX enc) (\<lambda>r.
                   case r of
                     None \<Rightarrow> ret None
                   | Some (vs, g) \<Rightarrow>
                       ret (Some (\<lparr>row_ptr = ints_of_bytes rp, col_idx = ints_of_bytes ci,
                                   csr_val = dbls_of_bytes vs\<rparr>, g))))))))"

definition run_cg_worker ::
  "crypto \<Rightarrow> 'e mpi \<Rightarrow> comm \<Rightarrow> worker_chan \<Rightarrow> npb_cmd \<Rightarrow> ('e world, int \<times> worker_chan) prog" where
  \<comment> \<open>the counter of a failed attempt is not used again\<close>
  "run_cg_worker C M icomm g cmd =
     (let nrows = sint (c_cg_row_count cmd); cg_n = sint (c_cg_n cmd); cg_iters = sint (c_cg_iters cmd);
          num_runs = sint (c_num_runs cmd); enc = (c_encrypt_data cmd \<noteq> 0) in
      if nrows < 0 \<or> cg_n \<le> 0 \<or> cg_iters \<le> 0 \<or> num_runs \<le> 0 \<or> nat nrows > SIZE_MAX div 8 \<or>
         nat cg_n > SIZE_MAX div 8 \<or> nat nrows + 1 > SIZE_MAX div 4
      then ret (- 1, g)
      else
        bindP (cg_receive_matrix C M icomm enc (nat nrows) g) (\<lambda>r.
        case r of
          None \<Rightarrow> ret (- 1, g)
        | Some (A, g) \<Rightarrow>
            bindP (on_env (m_malloc M (nat cg_n * 8))) (\<lambda>ok_x.
            bindP (on_env (m_malloc M (if nrows > 0 then nat nrows * 8 else 1))) (\<lambda>ok_y.
            if \<not> ok_x \<or> \<not> ok_y then ret (- 1, g)
            else
              bindP (loopX (cg_worker_run C M icomm enc (nat nrows) (nat cg_n) cg_iters A) [1..num_runs] g) (\<lambda>f.
              ret (flow_status f))))))"

section \<open>The distributed product is the sequential one\<close>

text \<open>A well-formed matrix: the row pointers ascend to the number of entries, and the columns exist.\<close>

definition csr_wf :: "nat \<Rightarrow> csr_matrix \<Rightarrow> bool" where
  "csr_wf n A \<longleftrightarrow> length (row_ptr A) = n + 1 \<and> sorted (row_ptr A) \<and> row_ptr A ! 0 = 0 \<and>
     row_ptr A ! n = length (col_idx A) \<and> length (csr_val A) = length (col_idx A) \<and>
     list_all (\<lambda>c. c < n) (col_idx A)"

lemma sparse_matrix_wf:
  assumes "0 < n"
  shows "csr_wf n (sparse_matrix R n nzpc seed)" and "length (col_idx (sparse_matrix R n nzpc seed)) = n * nzpc"
proof -
  have "sorted (map (\<lambda>i. i * nzpc) [0..<n + 1])" by (simp add: sorted_iff_nth_mono del: upt_Suc)
  then show "csr_wf n (sparse_matrix R n nzpc seed)"
    using assms by (simp add: csr_wf_def sparse_matrix_def list_all_iff nth_append del: upt_Suc)
qed (simp add: sparse_matrix_def)

lemma row_ptr_mono: "csr_wf n A \<Longrightarrow> i \<le> j \<Longrightarrow> j \<le> n \<Longrightarrow> row_ptr A ! i \<le> row_ptr A ! j"
  by (auto simp: csr_wf_def sorted_iff_nth_mono)

lemma fold_shift:
  assumes "\<And>j s. a \<le> j \<Longrightarrow> j < b \<Longrightarrow> f (j + k) s = g j s"
  shows "fold f [a + k..<b + k] s = fold g [a..<b] s"
proof -
  have "[a + k..<b + k] = map (\<lambda>j. j + k) [a..<b]" by (rule nth_equalityI) simp_all
  then have "fold f [a + k..<b + k] s = fold (f \<circ> (\<lambda>j. j + k)) [a..<b] s" by (simp only: fold_map)
  also have "\<dots> = fold g [a..<b] s" by (rule fold_cong) (use assms in \<open>auto simp: fun_eq_iff\<close>)
  finally show ?thesis .
qed

lemma slice_row:
  assumes "csr_wf n A" and "rs + rc_w \<le> n" and "i < rc_w"
  shows "spmv_row (row_ptr (cg_slice A rs rc_w)) (col_idx (cg_slice A rs rc_w)) (csr_val (cg_slice A rs rc_w)) x i =
    spmv_row (row_ptr A) (col_idx A) (csr_val A) x (rs + i)"
proof -
  let ?S = "cg_slice A rs rc_w" and ?b = "row_ptr A ! rs"
  have m: "?b \<le> row_ptr A ! (rs + i)" "?b \<le> row_ptr A ! (rs + Suc i)" "?b \<le> row_ptr A ! (rs + rc_w)"
    "row_ptr A ! (rs + Suc i) \<le> row_ptr A ! (rs + rc_w)" "row_ptr A ! (rs + rc_w) \<le> row_ptr A ! n"
    using row_ptr_mono [OF assms(1)] assms(2,3) by simp_all
  have rp: "row_ptr ?S ! i = row_ptr A ! (rs + i) - ?b" "row_ptr ?S ! Suc i = row_ptr A ! (rs + Suc i) - ?b"
    using assms(3) by (simp_all add: cg_slice_def Let_def nth_append del: upt_Suc)
  have len: "row_ptr A ! n = length (col_idx A)" "length (csr_val A) = length (col_idx A)"
    using assms(1) by (simp_all add: csr_wf_def)
  have e: "col_idx ?S ! j = col_idx A ! (j + ?b)" "csr_val ?S ! j = csr_val A ! (j + ?b)"
    if "j < row_ptr ?S ! Suc i" for j
    using that m len rp(2) by (simp_all add: cg_slice_def Let_def add.commute)
  have "spmv_row (row_ptr A) (col_idx A) (csr_val A) x (rs + i) =
      fold (\<lambda>j sum. d_add sum (d_mul (csr_val A ! j) (x ! (col_idx A ! j))))
        [row_ptr ?S ! i + ?b..<row_ptr ?S ! Suc i + ?b] 0"
    using m by (simp add: spmv_row_def rp)
  also have "\<dots> = spmv_row (row_ptr ?S) (col_idx ?S) (csr_val ?S) x i"
    unfolding spmv_row_def by (rule fold_shift) (simp add: e)
  finally show ?thesis by simp
qed

lemma slice_spmv:
  assumes "csr_wf n A" and "rs + rc_w \<le> n"
  shows "spmv_kernel rc_w (row_ptr (cg_slice A rs rc_w)) (col_idx (cg_slice A rs rc_w)) (csr_val (cg_slice A rs rc_w)) x
    = take rc_w (drop rs (spmv_kernel n (row_ptr A) (col_idx A) (csr_val A) x))"
  by (rule nth_equalityI) (use assms slice_row [OF assms] in \<open>simp_all add: spmv_kernel_def\<close>)

lemma slice_wf:
  assumes "csr_wf n A" and "rs + rc_w \<le> n" and "length (col_idx A) < 2 ^ 31" and "n < 2 ^ 31"
  shows "length (row_ptr (cg_slice A rs rc_w)) = rc_w + 1"
    and "row_ptr (cg_slice A rs rc_w) ! rc_w = length (col_idx (cg_slice A rs rc_w))"
    and "length (csr_val (cg_slice A rs rc_w)) = length (col_idx (cg_slice A rs rc_w))"
    and "list_all (\<lambda>i. i < 2 ^ 31) (row_ptr (cg_slice A rs rc_w))"
    and "list_all (\<lambda>i. i < 2 ^ 31) (col_idx (cg_slice A rs rc_w))"
proof -
  let ?b = "row_ptr A ! rs"
  have m: "?b \<le> row_ptr A ! (rs + rc_w)" "row_ptr A ! (rs + rc_w) \<le> row_ptr A ! n"
    "\<And>r. r \<le> rc_w \<Longrightarrow> row_ptr A ! (rs + r) \<le> row_ptr A ! n"
    using row_ptr_mono [OF assms(1)] assms(2) by simp_all
  have len: "row_ptr A ! n = length (col_idx A)" "length (csr_val A) = length (col_idx A)"
    using assms(1) by (simp_all add: csr_wf_def)
  show "length (row_ptr (cg_slice A rs rc_w)) = rc_w + 1" by (simp add: cg_slice_def Let_def)
  show "row_ptr (cg_slice A rs rc_w) ! rc_w = length (col_idx (cg_slice A rs rc_w))"
    using m(1) m(3) [of rc_w] len
    by (simp add: cg_slice_def Let_def nth_append min_absorb2 diff_le_mono del: upt_Suc)
  show "length (csr_val (cg_slice A rs rc_w)) = length (col_idx (cg_slice A rs rc_w))"
    using len by (simp add: cg_slice_def Let_def)
  show "list_all (\<lambda>i. i < 2 ^ 31) (row_ptr (cg_slice A rs rc_w))"
    unfolding list_all_iff
  proof
    fix i assume "i \<in> set (row_ptr (cg_slice A rs rc_w))"
    then obtain r where "r < rc_w + 1" "i = row_ptr A ! (rs + r) - ?b"
      by (auto simp: cg_slice_def Let_def simp del: upt_Suc)
    with m(3) [of r] m(2) len assms(3) show "i < 2 ^ 31" by linarith
  qed
  have "list_all (\<lambda>c. c < n) (col_idx A)" using assms(1) by (simp add: csr_wf_def)
  then show "list_all (\<lambda>i. i < 2 ^ 31) (col_idx (cg_slice A rs rc_w))"
    using assms(4) by (force simp: cg_slice_def Let_def list_all_iff dest: in_set_takeD in_set_dropD)
qed

lemma field32_concat:
  "i < length ws \<Longrightarrow> field32 (4 * i) (concat (map (le_enc 4) (ws :: u32 list))) = ws ! i"
proof (induction ws arbitrary: i)
  case (Cons w ws)
  then show ?case by (cases i) (simp_all add: field32_def)
qed simp

lemma ints_roundtrip:
  assumes "list_all (\<lambda>i. i < 2 ^ 31) xs"
  shows "ints_of_bytes (bytes_of_ints xs) = xs" and "length (bytes_of_ints xs) = 4 * length xs"
    and "i < length xs \<Longrightarrow> sint (field32 (4 * i) (bytes_of_ints xs)) = int (xs ! i)"
proof -
  have b: "bytes_of_ints xs = concat (map (le_enc 4) (map of_nat xs :: u32 list))"
    by (simp add: bytes_of_ints_def o_def)
  show l: "length (bytes_of_ints xs) = 4 * length xs" by (simp add: b del: map_map)
  have f: "sint (field32 (4 * i) (bytes_of_ints xs)) = int (xs ! i)" if "i < length xs" for i
  proof -
    have x: "xs ! i < 2 ^ 31" using assms that by (simp add: list_all_length)
    have "field32 (4 * i) (bytes_of_ints xs) = of_nat (xs ! i)"
      unfolding b using that by (subst field32_concat) simp_all
    moreover have u: "uint (of_nat (xs ! i) :: u32) = int (xs ! i)"
      using x by (simp add: unsigned_of_nat take_bit_nat_eq_self flip: of_nat_take_bit)
    moreover have "sint (of_nat (xs ! i) :: u32) = uint (of_nat (xs ! i) :: u32)"
      by (rule sint_small) (use x u in simp)
    ultimately show ?thesis by simp
  qed
  then show "i < length xs \<Longrightarrow> sint (field32 (4 * i) (bytes_of_ints xs)) = int (xs ! i)" .
  show "ints_of_bytes (bytes_of_ints xs) = xs"
    by (rule nth_equalityI) (simp_all add: ints_of_bytes_def l f)
qed

text \<open>The row blocks of the workers follow one another and end with the last row.\<close>

definition cg_row_end :: "nat \<Rightarrow> nat \<Rightarrow> nat \<Rightarrow> nat" where
  "cg_row_end cg_n nworkers k = (if k = nworkers then cg_n else cg_row_start cg_n nworkers k)"

lemma rows_le: "k \<le> nworkers \<Longrightarrow> k * (cg_n div nworkers) \<le> (cg_n :: nat)"
  by (metis div_times_less_eq_dividend le_trans mult.commute mult_le_mono1)

lemma row_block:
  assumes "w < nworkers"
  shows "cg_row_start cg_n nworkers w + cg_row_count cg_n nworkers w = cg_row_end cg_n nworkers (Suc w)"
    and "cg_row_end cg_n nworkers (Suc w) \<le> cg_n"
  using assms rows_le [of w nworkers cg_n] rows_le [of "Suc w" nworkers cg_n]
  by (auto simp: cg_row_start_def cg_row_count_def cg_row_end_def)

definition cg_place :: "nat \<Rightarrow> nat \<Rightarrow> (nat \<Rightarrow> dbl list) \<Rightarrow> nat \<Rightarrow> dbl list \<Rightarrow> dbl list" where
  \<comment> \<open>y after the results of the first k workers are stored\<close>
  "cg_place cg_n nworkers ys k y =
     foldl (\<lambda>y w. cg_store cg_n nworkers w (ys w) y) y [0..<k]"

lemma place_blocks:
  assumes "length Y = cg_n" and "length y = cg_n" and "0 < nworkers" and "k \<le> nworkers"
    and "\<And>w. w < nworkers \<Longrightarrow> ys w = take (cg_row_count cg_n nworkers w) (drop (cg_row_start cg_n nworkers w) Y)"
  shows "cg_place cg_n nworkers ys k y = take (cg_row_end cg_n nworkers k) Y @ drop (cg_row_end cg_n nworkers k) y"
  using assms(4)
proof (induction k)
  case 0
  then show ?case using assms(3) by (simp add: cg_place_def cg_row_end_def cg_row_start_def)
next
  case (Suc k)
  let ?s = "cg_row_start cg_n nworkers k" and ?c = "cg_row_count cg_n nworkers k" and ?e = "cg_row_end cg_n nworkers (Suc k)"
  have k: "k < nworkers" "cg_row_end cg_n nworkers k = ?s" using Suc.prems by (simp_all add: cg_row_end_def)
  have e: "?s + ?c = ?e" "?e \<le> cg_n" using row_block [OF k(1)] by auto
  have "cg_place cg_n nworkers ys (Suc k) y =
      take ?s (cg_place cg_n nworkers ys k y) @ ys k @ drop (?s + ?c) (cg_place cg_n nworkers ys k y)"
    by (simp add: cg_place_def cg_store_def Let_def)
  also have "\<dots> = take ?s Y @ take ?c (drop ?s Y) @ drop ?e y"
    using Suc k e assms(1,2) assms(5) [OF k(1)] by simp
  also have "\<dots> = take ?e Y @ drop ?e y" using take_add [of ?s ?c Y] e(1) by simp
  finally show ?case .
qed

text \<open>
  C8: The distributed matrix-vector product of CG is the sequential one, bit for bit: for the
  generated matrix and any number of workers, if every worker multiplies the block of rows it decodes
  from what the central node sends with the vector it decodes, then the vector the central node puts
  together from their results is \<open>spmv_kernel\<close> on the whole matrix, whatever the buffer held
  before. No block leaves the range of int on the wire and no column index leaves the vector.
\<close>

theorem cg_product_distributed:
  assumes "0 < nworkers" and "0 < n" and "0 < nzpc" and "n * nzpc < 2 ^ 31" and "length y = n"
    and "A = sparse_matrix R n nzpc seed"
    and "\<And>w. block w = cg_slice A (cg_row_start n nworkers w) (cg_row_count n nworkers w)"
    and "\<And>w. result w = spmv_kernel (cg_row_count n nworkers w) (ints_of_bytes (bytes_of_ints (row_ptr (block w))))
      (ints_of_bytes (bytes_of_ints (col_idx (block w)))) (dbls_of_bytes (bytes_of_dbls (csr_val (block w))))
      (dbls_of_bytes (bytes_of_dbls x))"
  shows "cg_place n nworkers result nworkers y = spmv_kernel n (row_ptr A) (col_idx A) (csr_val A) x \<and>
    list_all (\<lambda>c. c < n) (col_idx A) \<and>
    (\<forall>w<nworkers. sint (field32 (4 * cg_row_count n nworkers w) (bytes_of_ints (row_ptr (block w)))) =
       int (length (col_idx (block w))))"
proof -
  have wf: "csr_wf n A" "length (col_idx A) < 2 ^ 31"
    unfolding assms(6) using sparse_matrix_wf [OF assms(2)] assms(4) by simp_all
  have "n * 1 \<le> n * nzpc" using assms(3) by (intro mult_le_mono2) simp
  then have n: "n < 2 ^ 31" using assms(4) by linarith
  let ?Y = "spmv_kernel n (row_ptr A) (col_idx A) (csr_val A) x"
  have b: "cg_row_start n nworkers w + cg_row_count n nworkers w \<le> n" if "w < nworkers" for w
    using row_block [OF that, of n] by simp
  have r: "result w = take (cg_row_count n nworkers w) (drop (cg_row_start n nworkers w) ?Y)" if "w < nworkers" for w
  proof -
    note sw = slice_wf [OF wf(1) b [OF that] wf(2) n]
    show ?thesis
      unfolding assms(8) assms(7) ints_roundtrip(1) [OF sw(4)] ints_roundtrip(1) [OF sw(5)] dbls_bytes_roundtrip
      by (rule slice_spmv [OF wf(1) b [OF that]])
  qed
  have "cg_place n nworkers result nworkers y = ?Y"
    by (subst place_blocks [of ?Y n y nworkers nworkers result])
      (use assms(1,5) r in \<open>simp_all add: spmv_kernel_def cg_row_end_def\<close>)
  moreover have "sint (field32 (4 * cg_row_count n nworkers w) (bytes_of_ints (row_ptr (block w)))) =
       int (length (col_idx (block w)))" if "w < nworkers" for w
  proof -
    note sw = slice_wf [OF wf(1) b [OF that] wf(2) n]
    show ?thesis unfolding assms(7) using ints_roundtrip(3) [OF sw(4)] sw(1,2) by simp
  qed
  moreover have "list_all (\<lambda>c. c < n) (col_idx A)" using wf(1) by (simp add: csr_wf_def)
  ultimately show ?thesis by blast
qed

definition demo_rand :: libc_rand where
  "demo_rand = \<lparr>rand_after = \<lambda>seed k. (unat seed + 7 * k) mod 32768, RAND_MAX = 32767\<rparr>"

theorem cg_product_distributed_witness:
  "let A = sparse_matrix demo_rand 5 2 42; block = (\<lambda>w. cg_slice A (cg_row_start 5 2 w) (cg_row_count 5 2 w)) in
   cg_place 5 2 (\<lambda>w. spmv_kernel (cg_row_count 5 2 w) (ints_of_bytes (bytes_of_ints (row_ptr (block w))))
      (ints_of_bytes (bytes_of_ints (col_idx (block w)))) (dbls_of_bytes (bytes_of_dbls (csr_val (block w))))
      (dbls_of_bytes (bytes_of_dbls (cg_initial_x 5)))) 2 (replicate 5 0) =
   spmv_kernel 5 (row_ptr A) (col_idx A) (csr_val A) (cg_initial_x 5)"
  unfolding Let_def
  by (rule cg_product_distributed [of 2 5 2 "replicate 5 0" "sparse_matrix demo_rand 5 2 42" demo_rand 42
      "\<lambda>w. cg_slice (sparse_matrix demo_rand 5 2 42) (cg_row_start 5 2 w) (cg_row_count 5 2 w)",
      THEN conjunct1]) simp_all

section \<open>The runs of the central node\<close>

lemma cg_collect_quiet:
  assumes "cg_collect C M L n encrypt cg_n i s w = Done s' w'"
  shows "quiet (fst s) (fst s')"
  using assms by (auto simp: cg_collect_def Let_def split: option.splits if_splits prod.splits
      dest!: from_quietD) (blast intro: quiet_trans)+

lemma cg_iteration_quiet:
  assumes "cg_iteration C M B L n encrypt cg_n i s w = Done s' w'"
  shows "quiet (cg_ms s) (cg_ms s')"
proof -
  from assms obtain m1 v1 v2 m2 y t v3 v4 where
    1: "loopP (bulk_to C M L encrypt TAG_NPB_CG_X (bytes_of_dbls (cg_x s))) [0..<n] (cg_ms s) v1 = Done m1 v2" and
    2: "loopP (cg_collect C M L n encrypt cg_n) [0..<n] (m1, cg_y s, 0) v3 = Done (m2, y, t) v4" and
    3: "cg_ms s' = m2"
    by (auto simp: cg_iteration_def split: prod.splits)
  have "quiet (cg_ms s) m1" using 1 by (rule loopP_quiet) (rule to_quietD)
  moreover have "quiet m1 m2" using loopP_quiet_fst [OF 2 cg_collect_quiet] by simp
  ultimately show ?thesis unfolding 3 by (rule quiet_trans)
qed

lemma record_cg:
  "quiet m (cg_ms s) \<Longrightarrow> ms_le m (record_cg_result n encrypt run cg_n cg_iters s) \<and>
   (length (ms_results m) < MAX_RESULTS \<longrightarrow> (\<exists>r. ms_results (record_cg_result n encrypt run cg_n cg_iters s) =
      ms_results m @ [r] \<and> r_run r = run \<and> run_good WORKLOAD_CG n encrypt r))"
  by (auto simp: record_cg_result_def Let_def quiet_def ms_le_def run_good_def npb_result_zero_def)

interpretation cg_runs: recorded_runs "cg_master_run C M B L n encrypt cg_n cg_iters" fst "run_good WORKLOAD_CG n encrypt"
  for C M B L n encrypt cg_n cg_iters
proof unfold_locales
  fix i s w s' w'
  assume "cg_master_run C M B L n encrypt cg_n cg_iters i s w = Done s' w'"
  then obtain t y where
    l: "loopP (cg_iteration C M B L n encrypt cg_n) [0..cg_iters - 1]
          \<lparr>cg_ms = fst s, cg_x = cg_initial_x cg_n, cg_y = y, cg_scatter = 0, cg_gather = 0, cg_compute = 0\<rparr> w = Done t w'"
    and f: "fst s' = record_cg_result n encrypt i cg_n cg_iters t"
    by (cases s) (auto simp: cg_master_run_def)
  have "quiet (fst s) (cg_ms t)"
    by (rule loopP_inv [OF l, of "\<lambda>t w. quiet (fst s) (cg_ms t)"])
      (auto dest: cg_iteration_quiet intro: quiet_trans)
  then show "ms_le (fst s) (fst s') \<and> (length (ms_results (fst s)) < MAX_RESULTS \<longrightarrow>
      (\<exists>r. ms_results (fst s') = ms_results (fst s) @ [r] \<and> r_run r = i \<and> run_good WORKLOAD_CG n encrypt r))"
    unfolding f by (rule record_cg)
qed

lemma cg_send_matrix_quiet:
  "cg_send_matrix C M L n encrypt num_runs cg_n cg_nzpc cg_iters A i m w = Done m' w' \<Longrightarrow> quiet m m'"
  by (auto simp: cg_send_matrix_def Let_def split: if_splits dest!: to_quietD) (blast intro: quiet_trans)

lemma cg_reported:
  assumes "run_cg_master C M B R L n encrypt num_runs cg_n cg_nzpc cg_iters m w = Done m' w'"
    and "length (ms_results m) + nat num_runs \<le> MAX_RESULTS"
  shows "ms_le m m' \<and> (\<exists>rs. ms_results m' = ms_results m @ rs \<and> map r_run rs = [1..num_runs] \<and>
    list_all (run_good WORKLOAD_CG n encrypt) rs)"
proof -
  from assms(1) obtain A m1 v1 v2 y y' v3 w'' where
    1: "loopP (cg_send_matrix C M L n encrypt num_runs (nat cg_n) (nat cg_nzpc) cg_iters A) [0..<n] m v1 = Done m1 v2"
    and l: "loopP (cg_master_run C M B L n encrypt (nat cg_n) cg_iters) [1..num_runs] (m1, y) v3 = Done (m', y') w''"
    by (auto simp: run_cg_master_def split: option.splits if_splits prod.splits)
  have q: "quiet m m1" using 1 by (rule loopP_quiet) (rule cg_send_matrix_quiet)
  then have "length (ms_results (fst (m1, y))) + nat (num_runs - 1 + 1) \<le> MAX_RESULTS"
    using assms(2) by (simp add: quiet_def)
  from cg_runs.runs_from [OF l this] q show ?thesis by (auto simp: quiet_def intro: ms_le_trans)
qed

end
