(* ===== verification/Npb_Options.thy ===== *)
theory Npb_Options
  imports Wait_Deadline Master_State
begin

text \<open>
  The command line of the central node (\<open>main\<close> of src/master_npb.c): \<open>strtoull\<close> of the C
  library in base 10, the number parser \<open>parse_u64_arg\<close> around it, the option loop, and the
  checks that follow it. A refused command line is \<open>Inl\<close> with the exit status.
\<close>

section \<open>Numbers\<close>

definition c_isspace :: "char \<Rightarrow> bool" where
  "c_isspace c \<longleftrightarrow> of_char c = (32 :: nat) \<or> (9 \<le> (of_char c :: nat) \<and> of_char c \<le> (13 :: nat))"

definition strtoull10 :: "string \<Rightarrow> u64 \<times> bool \<times> string" where
  \<comment> \<open>the value, whether errno is ERANGE, and the rest of the text: all of it if there is no number\<close>
  "strtoull10 text =
     (let s = dropWhile c_isspace text;
          neg = (s \<noteq> [] \<and> hd s = CHR ''-'');
          s = (if s \<noteq> [] \<and> (hd s = CHR ''-'' \<or> hd s = CHR ''+'') then tl s else s);
          ds = takeWhile is_digit s; rest = dropWhile is_digit s
      in if ds = [] then (0, False, text)
         else if dec_value ds \<ge> 2 ^ 64 then (- 1, True, rest)
         else (if neg then - of_nat (dec_value ds) else of_nat (dec_value ds), False, rest))"

definition parse_u64_arg :: "string \<Rightarrow> u64 \<Rightarrow> u64 \<Rightarrow> u64 option" where
  "parse_u64_arg text min_value max_value =
     (if text = [] \<or> hd text = CHR ''-'' then None
      else case strtoull10 text of (value, erange, rest) \<Rightarrow>
        if erange \<or> rest \<noteq> [] \<or> value < min_value \<or> value > max_value then None else Some value)"

definition parse_next_u64 :: "string list \<Rightarrow> u64 \<Rightarrow> u64 \<Rightarrow> (u64 \<times> string list) option" where
  \<comment> \<open>the value of the next argument, and the arguments after it\<close>
  "parse_next_u64 args min_value max_value =
     (case args of
        [] \<Rightarrow> None
      | text # args' \<Rightarrow> (case parse_u64_arg text min_value max_value of None \<Rightarrow> None | Some v \<Rightarrow> Some (v, args')))"

section \<open>Options\<close>

record npb_options =
  o_target :: int
  o_num_runs :: int
  o_encrypt :: bool
  o_workload :: u32
  o_ep_n :: int
  o_cg_n :: int
  o_cg_nzpc :: int
  o_cg_iters :: int
  o_stream_array_mib :: u32
  o_stream_warmup :: u32
  o_random_mib :: u32
  o_random_accesses :: u64
  o_random_warmup_accesses :: u64
  o_vmap_mib :: u32
  o_task_count :: u64
  o_task_bytes :: u32
  o_task_iters :: u64
  o_csv_file :: string

definition default_options :: npb_options where
  "default_options =
     \<lparr>o_target = 2, o_num_runs = 10, o_encrypt = True, o_workload = WORKLOAD_EP, o_ep_n = 2 ^ 26,
      o_cg_n = 14000, o_cg_nzpc = 11, o_cg_iters = 15, o_stream_array_mib = 128, o_stream_warmup = 2,
      o_random_mib = 256, o_random_accesses = 50000000, o_random_warmup_accesses = 5000000, o_vmap_mib = 64,
      o_task_count = 0, o_task_bytes = 64, o_task_iters = 100000, o_csv_file = ''npb_results.csv''\<rparr>"

definition c_atoi :: "string \<Rightarrow> int" where
  \<comment> \<open>of the C library: strtol in base 10, cut to int\<close>
  "c_atoi text =
     (let s = dropWhile c_isspace text;
          neg = (s \<noteq> [] \<and> hd s = CHR ''-'');
          s = (if s \<noteq> [] \<and> (hd s = CHR ''-'' \<or> hd s = CHR ''+'') then tl s else s);
          v = int (dec_value (takeWhile is_digit s));
          v = (if neg then max (- v) (- (2 ^ 63)) else min v (2 ^ 63 - 1))
      in sint (word_of_int v :: u32))"

abbreviation C_INT_MAX :: int where "C_INT_MAX \<equiv> 2147483647"
abbreviation C_INT64_MAX :: int where "C_INT64_MAX \<equiv> 9223372036854775807"
abbreviation UINT64_MAX :: u64 where "UINT64_MAX \<equiv> 18446744073709551615"
abbreviation UINT32_MAX :: u64 where "UINT32_MAX \<equiv> 4294967295"

definition c_int :: "u64 \<Rightarrow> int" where
  \<comment> \<open>the cast (int) of a 64-bit unsigned\<close>
  "c_int v = sint (ucast v :: u32)"

definition number_option ::
  "string list \<Rightarrow> u64 \<Rightarrow> u64 \<Rightarrow> (u64 \<Rightarrow> npb_options) \<Rightarrow> nat + npb_options \<times> string list" where
  "number_option args lo hi store =
     (case parse_next_u64 args lo hi of None \<Rightarrow> Inl 2 | Some (v, args') \<Rightarrow> Inr (store v, args'))"

definition workload_option :: "string list \<Rightarrow> npb_options \<Rightarrow> nat + npb_options \<times> string list" where
  "workload_option args opt =
     (case args of
        [] \<Rightarrow> Inl 2
      | w # args' \<Rightarrow>
          if w = ''ep'' then Inr (opt\<lparr>o_workload := WORKLOAD_EP\<rparr>, args')
          else if w = ''cg'' then Inr (opt\<lparr>o_workload := WORKLOAD_CG\<rparr>, args')
          else if w = ''stream'' then Inr (opt\<lparr>o_workload := WORKLOAD_STREAM\<rparr>, args')
          else if w = ''random'' then Inr (opt\<lparr>o_workload := WORKLOAD_RANDOM\<rparr>, args')
          else if w = ''vmap'' then Inr (opt\<lparr>o_workload := WORKLOAD_VMAP\<rparr>, args')
          else if w = ''taskq'' then Inr (opt\<lparr>o_workload := WORKLOAD_TASKQ\<rparr>, args')
          else Inl 1)"

definition parse_option :: "string \<Rightarrow> string list \<Rightarrow> npb_options \<Rightarrow> nat + npb_options \<times> string list" where
  \<comment> \<open>one iteration of the option loop: the arguments after the option, and those after its value\<close>
  "parse_option a args opt =
     (if a = ''--master'' then
        number_option args 1 (word_of_int (int MAX_WORKERS)) (\<lambda>v. opt\<lparr>o_target := c_int v\<rparr>)
      else if a = ''--workload'' then workload_option args opt
      else if a = ''--ep-n'' then number_option args 1 (word_of_int C_INT64_MAX) (\<lambda>v. opt\<lparr>o_ep_n := sint v\<rparr>)
      else if a = ''--cg-n'' then number_option args 1 (word_of_int (C_INT_MAX - 1)) (\<lambda>v. opt\<lparr>o_cg_n := c_int v\<rparr>)
      else if a = ''--cg-nzpc'' then number_option args 1 (word_of_int C_INT_MAX) (\<lambda>v. opt\<lparr>o_cg_nzpc := c_int v\<rparr>)
      else if a = ''--cg-iters'' then number_option args 1 (word_of_int C_INT_MAX) (\<lambda>v. opt\<lparr>o_cg_iters := c_int v\<rparr>)
      else if a = ''--stream-array-mib'' then
        number_option args (ucast STREAM_MIN_MIB) (ucast STREAM_MAX_MIB) (\<lambda>v. opt\<lparr>o_stream_array_mib := ucast v\<rparr>)
      else if a = ''--stream-warmup'' then
        number_option args 0 UINT32_MAX (\<lambda>v. opt\<lparr>o_stream_warmup := ucast v\<rparr>)
      else if a = ''--random-mib'' then
        number_option args (ucast RANDOM_MIN_MIB) (ucast RANDOM_MAX_MIB) (\<lambda>v. opt\<lparr>o_random_mib := ucast v\<rparr>)
      else if a = ''--random-accesses'' then
        number_option args 1 UINT64_MAX (\<lambda>v. opt\<lparr>o_random_accesses := v\<rparr>)
      else if a = ''--random-warmup-accesses'' then
        number_option args 0 UINT64_MAX (\<lambda>v. opt\<lparr>o_random_warmup_accesses := v\<rparr>)
      else if a = ''--vmap-mib'' then
        number_option args (ucast VMAP_MIN_MIB) (ucast VMAP_MAX_MIB) (\<lambda>v. opt\<lparr>o_vmap_mib := ucast v\<rparr>)
      else if a = ''--task-count'' then number_option args 0 UINT64_MAX (\<lambda>v. opt\<lparr>o_task_count := v\<rparr>)
      else if a = ''--task-bytes'' then
        number_option args (ucast TASKQ_MIN_BYTES) (ucast TASKQ_MAX_BYTES) (\<lambda>v. opt\<lparr>o_task_bytes := ucast v\<rparr>)
      else if a = ''--task-iters'' then number_option args 1 UINT64_MAX (\<lambda>v. opt\<lparr>o_task_iters := v\<rparr>)
      else if a = ''--runs'' then number_option args 1 (word_of_int (int MAX_RUNS)) (\<lambda>v. opt\<lparr>o_num_runs := c_int v\<rparr>)
      else if a = ''--no-encrypt'' then Inr (opt\<lparr>o_encrypt := False\<rparr>, args)
      else if a = ''--output'' then
        (case args of [] \<Rightarrow> Inl 2 | f # args' \<Rightarrow> if f = [] then Inl 2 else Inr (opt\<lparr>o_csv_file := f\<rparr>, args'))
      else Inl 2)"

lemma number_option_shorter:
  "number_option args lo hi f = Inr (opt, args') \<Longrightarrow> length args' \<le> length args"
  by (auto simp: number_option_def parse_next_u64_def split: list.splits option.splits)

lemma workload_option_shorter:
  "workload_option args opt = Inr (opt', args') \<Longrightarrow> length args' \<le> length args"
  by (auto simp: workload_option_def split: list.splits if_splits)

lemma parse_option_shorter:
  "parse_option a args opt = Inr (opt', args') \<Longrightarrow> length args' \<le> length args"
  unfolding parse_option_def
  by (auto split: if_splits list.splits dest: number_option_shorter workload_option_shorter)

function parse_options :: "string list \<Rightarrow> npb_options \<Rightarrow> nat + npb_options" where
  "parse_options [] opt = Inr opt"
| "parse_options (a # args) opt =
     (case parse_option a args opt of
        Inl status \<Rightarrow> Inl status
      | Inr (opt', args') \<Rightarrow> parse_options args' opt')"
  by pat_completeness auto
termination
  by (relation "measure (\<lambda>(args, _). length args)") (auto dest: parse_option_shorter)

definition check_options :: "bool \<Rightarrow> npb_options \<Rightarrow> nat + npb_options" where
  "check_options skip_attestation opt =
     (if (word_of_int (o_cg_n opt) :: u64) * word_of_int (o_cg_nzpc opt) > word_of_int C_INT_MAX then Inl 2
      else if o_ep_n opt > C_INT64_MAX div o_target opt then Inl 2
      else if \<not> skip_attestation \<and> \<not> o_encrypt opt then Inl 2
      else Inr opt)"

definition command_line :: "bool \<Rightarrow> string list \<Rightarrow> nat + npb_options" where
  "command_line skip_attestation args =
     (case parse_options args default_options of
        Inl status \<Rightarrow> Inl status
      | Inr opt \<Rightarrow> check_options skip_attestation opt)"

section \<open>Which numbers are accepted\<close>

lemma digit_not_space: "is_digit c \<Longrightarrow> \<not> c_isspace c"
  by (auto simp: is_digit_def c_isspace_def)

lemma digit_not_sign: "\<not> is_digit (CHR ''-'')" "\<not> is_digit (CHR ''+'')" "\<not> c_isspace (CHR ''-'')" "\<not> c_isspace (CHR ''+'')"
  by (simp_all add: is_digit_def c_isspace_def)

lemma drop_spaces:
  assumes "list_all c_isspace ws" and "xs = [] \<or> \<not> c_isspace (hd xs)"
  shows "dropWhile c_isspace (ws @ xs) = xs"
  using assms by (induction ws) (auto, cases xs, auto)

lemma strtoull10_parts:
  assumes "list_all c_isspace ws" and "sign = [] \<or> sign = ''+'' \<or> sign = ''-''"
    and "ds \<noteq> []" and "list_all is_digit ds"
  shows "strtoull10 (ws @ sign @ ds) =
    (if dec_value ds \<ge> 2 ^ 64 then (- 1, True, [])
     else (if sign = ''-'' then - of_nat (dec_value ds) else of_nat (dec_value ds), False, []))"
proof -
  obtain d ds' where d: "ds = d # ds'" "is_digit d" using assms(3,4) by (cases ds) auto
  have "sign @ ds = [] \<or> \<not> c_isspace (hd (sign @ ds))"
    using assms(2) d digit_not_space digit_not_sign by auto
  then have s: "dropWhile c_isspace (ws @ sign @ ds) = sign @ ds" using assms(1) by (rule drop_spaces [rotated])
  have t: "takeWhile is_digit ds = ds" "dropWhile is_digit ds = []"
    using assms(4) by (simp_all add: list_all_iff takeWhile_eq_all_conv)
  have "hd ds \<noteq> CHR ''-''" "hd ds \<noteq> CHR ''+''" using d digit_not_sign by auto
  then have u: "(if sign @ ds \<noteq> [] \<and> (hd (sign @ ds) = CHR ''-'' \<or> hd (sign @ ds) = CHR ''+'')
        then tl (sign @ ds) else sign @ ds) = ds"
    and n: "(sign @ ds \<noteq> [] \<and> hd (sign @ ds) = CHR ''-'') = (sign = ''-'')"
    using assms(2,3) by auto
  show ?thesis unfolding strtoull10_def s Let_def u n t using assms(3) by simp
qed

lemma strtoull10_split:
  assumes "strtoull10 text = (v, False, [])" and "text \<noteq> []"
  shows "\<exists>ws sign ds. text = ws @ sign @ ds \<and> list_all c_isspace ws \<and>
    (sign = [] \<or> sign = ''+'' \<or> sign = ''-'') \<and> ds \<noteq> [] \<and> list_all is_digit ds"
proof -
  define s where "s = dropWhile c_isspace text"
  let ?b = "s \<noteq> [] \<and> (hd s = CHR ''-'' \<or> hd s = CHR ''+'')"
  define ds where "ds = (if ?b then tl s else s)"
  let ?sign = "if ?b then [hd s] else []"
  have "strtoull10 text = (if takeWhile is_digit ds = [] then (0, False, text)
     else if dec_value (takeWhile is_digit ds) \<ge> 2 ^ 64 then (- 1, True, dropWhile is_digit ds)
     else (if s \<noteq> [] \<and> hd s = CHR ''-'' then - of_nat (dec_value (takeWhile is_digit ds))
           else of_nat (dec_value (takeWhile is_digit ds)), False, dropWhile is_digit ds))"
    by (simp only: strtoull10_def Let_def s_def ds_def)
  with assms have d: "takeWhile is_digit ds \<noteq> []" "dropWhile is_digit ds = []"
    by (simp_all split: if_splits)
  then have "list_all is_digit ds" "ds \<noteq> []" by (auto simp: list_all_iff)
  moreover have "?sign @ ds = s" by (simp add: ds_def)
  then have "text = takeWhile c_isspace text @ ?sign @ ds" by (simp only: s_def takeWhile_dropWhile_id)
  moreover have "list_all c_isspace (takeWhile c_isspace text)" by (auto simp: list_all_iff dest: set_takeWhileD)
  moreover have "?sign = [] \<or> ?sign = ''+'' \<or> ?sign = ''-''" by auto
  ultimately show ?thesis by blast
qed

text \<open>
  A numeric option is accepted exactly when it is a run of white space, an optional sign and one
  or more decimal digits, its value fits 64 bits, and the value, negated modulo 2^64 after a minus
  sign, lies between the limits. The minus sign is refused only where it is the first character.
\<close>

theorem number_argument_spec:
  "parse_u64_arg text min_value max_value = Some v \<longleftrightarrow>
     (\<exists>ws sign ds. text = ws @ sign @ ds \<and> list_all c_isspace ws \<and>
        (sign = [] \<or> sign = ''+'' \<or> sign = ''-'' \<and> ws \<noteq> []) \<and> ds \<noteq> [] \<and> list_all is_digit ds \<and>
        dec_value ds < 2 ^ 64 \<and>
        v = (if sign = ''-'' then - of_nat (dec_value ds) else of_nat (dec_value ds)) \<and>
        min_value \<le> v \<and> v \<le> max_value)"
    (is "?L \<longleftrightarrow> ?R")
proof
  assume l: ?L
  then have t: "strtoull10 text = (v, False, [])" "text \<noteq> []" "hd text \<noteq> CHR ''-''"
    and v: "min_value \<le> v" "v \<le> max_value"
    by (auto simp: parse_u64_arg_def split: if_splits prod.splits)
  from strtoull10_split [OF t(1,2)] obtain ws sign ds where
    p: "text = ws @ sign @ ds" "list_all c_isspace ws" "sign = [] \<or> sign = ''+'' \<or> sign = ''-''" "ds \<noteq> []"
      "list_all is_digit ds" by blast
  from strtoull10_parts [OF p(2-5)] t(1)
  have e: "dec_value ds < 2 ^ 64" "v = (if sign = ''-'' then - of_nat (dec_value ds) else of_nat (dec_value ds))"
    by (auto simp: p(1) split: if_splits)
  have "sign = ''-'' \<Longrightarrow> ws \<noteq> []" using t(3) p(1) by auto
  with p(3) have "sign = [] \<or> sign = ''+'' \<or> sign = ''-'' \<and> ws \<noteq> []" by blast
  with p e v show ?R by blast
next
  assume ?R
  then obtain ws sign ds where
    p: "text = ws @ sign @ ds" "list_all c_isspace ws" "sign = [] \<or> sign = ''+'' \<or> sign = ''-'' \<and> ws \<noteq> []"
      "ds \<noteq> []" "list_all is_digit ds"
    and e: "dec_value ds < 2 ^ 64" "v = (if sign = ''-'' then - of_nat (dec_value ds) else of_nat (dec_value ds))"
      "min_value \<le> v" "v \<le> max_value" by blast
  have "sign = [] \<or> sign = ''+'' \<or> sign = ''-''" using p(3) by blast
  from strtoull10_parts [OF p(2) this p(4,5)] have s: "strtoull10 text = (v, False, [])"
    using e by (simp add: p(1))
  have h: "hd text \<noteq> CHR ''-''"
  proof (cases ws)
    case Nil
    with p digit_not_sign show ?thesis by (cases ds) auto
  next
    case (Cons c cs)
    with p(1,2) digit_not_sign show ?thesis by auto
  qed
  have "text \<noteq> []" using p(1,4) by simp
  with h e(3,4) show ?L by (simp add: parse_u64_arg_def s not_less)
qed

text \<open>The value of the finding: a negative number after a space is taken for a huge count.\<close>

lemma negative_count_accepted: "parse_next_u64 ['' -1''] 1 UINT64_MAX = Some (UINT64_MAX, [])"
  by (simp add: parse_next_u64_def parse_u64_arg_def strtoull10_def Let_def c_isspace_def is_digit_def dec_value_def)

section \<open>What an accepted command line guarantees\<close>

definition options_valid :: "bool \<Rightarrow> npb_options \<Rightarrow> bool" where
  "options_valid skip_attestation opt \<longleftrightarrow>
     1 \<le> o_target opt \<and> o_target opt \<le> int MAX_WORKERS \<and>
     1 \<le> o_num_runs opt \<and> o_num_runs opt \<le> int MAX_RUNS \<and>
     1 \<le> o_workload opt \<and> o_workload opt \<le> 6 \<and>
     1 \<le> o_ep_n opt \<and> o_ep_n opt * o_target opt \<le> C_INT64_MAX \<and>
     1 \<le> o_cg_n opt \<and> o_cg_n opt < C_INT_MAX \<and> 1 \<le> o_cg_nzpc opt \<and> o_cg_n opt * o_cg_nzpc opt \<le> C_INT_MAX \<and>
     1 \<le> o_cg_iters opt \<and> o_cg_iters opt \<le> C_INT_MAX \<and>
     STREAM_MIN_MIB \<le> o_stream_array_mib opt \<and> o_stream_array_mib opt \<le> STREAM_MAX_MIB \<and>
     RANDOM_MIN_MIB \<le> o_random_mib opt \<and> o_random_mib opt \<le> RANDOM_MAX_MIB \<and>
     1 \<le> o_random_accesses opt \<and>
     VMAP_MIN_MIB \<le> o_vmap_mib opt \<and> o_vmap_mib opt \<le> VMAP_MAX_MIB \<and>
     TASKQ_MIN_BYTES \<le> o_task_bytes opt \<and> o_task_bytes opt \<le> TASKQ_MAX_BYTES \<and>
     1 \<le> o_task_iters opt \<and> o_csv_file opt \<noteq> [] \<and> (skip_attestation \<or> o_encrypt opt)"

text \<open>The limits of the single options, which every step of the option loop keeps.\<close>

definition options_ok :: "npb_options \<Rightarrow> bool" where
  "options_ok opt \<longleftrightarrow>
     o_target opt \<in> {1..int MAX_WORKERS} \<and> o_num_runs opt \<in> {1..int MAX_RUNS} \<and>
     1 \<le> o_workload opt \<and> o_workload opt \<le> 6 \<and>
     o_ep_n opt \<in> {1..C_INT64_MAX} \<and> o_cg_n opt \<in> {1..C_INT_MAX - 1} \<and> o_cg_nzpc opt \<in> {1..C_INT_MAX} \<and>
     o_cg_iters opt \<in> {1..C_INT_MAX} \<and>
     STREAM_MIN_MIB \<le> o_stream_array_mib opt \<and> o_stream_array_mib opt \<le> STREAM_MAX_MIB \<and>
     RANDOM_MIN_MIB \<le> o_random_mib opt \<and> o_random_mib opt \<le> RANDOM_MAX_MIB \<and>
     1 \<le> o_random_accesses opt \<and>
     VMAP_MIN_MIB \<le> o_vmap_mib opt \<and> o_vmap_mib opt \<le> VMAP_MAX_MIB \<and>
     TASKQ_MIN_BYTES \<le> o_task_bytes opt \<and> o_task_bytes opt \<le> TASKQ_MAX_BYTES \<and>
     1 \<le> o_task_iters opt \<and> o_csv_file opt \<noteq> []"

lemma number_option_ok:
  assumes "number_option args lo hi f = Inr (opt, args')"
  shows "\<exists>v. opt = f v \<and> lo \<le> v \<and> v \<le> hi"
  using assms by (auto simp: number_option_def parse_next_u64_def parse_u64_arg_def not_less
      split: list.splits option.splits if_splits prod.splits)

lemma c_int_bounds:
  assumes "lo \<le> v" and "v \<le> hi" and "uint hi < 2 ^ 31"
  shows "uint lo \<le> c_int v \<and> c_int v \<le> uint hi"
proof -
  have v: "uint v \<le> uint hi" "uint lo \<le> uint v" using assms(1,2) by (simp_all add: word_le_def)
  then have "uint (ucast v :: u32) = uint v"
    using assms(3) by (simp add: unsigned_ucast_eq take_bit_int_eq_self)
  then show ?thesis using v assms(3) by (simp add: c_int_def sint_small)
qed

lemma c_int_range:
  assumes "1 \<le> v" and "v \<le> word_of_int k" and "k < 2 ^ 31" and "0 \<le> k"
  shows "c_int v \<in> {1..k}"
proof -
  have "uint (word_of_int k :: u64) = k" using assms(3,4) by (simp add: unsigned_of_int take_bit_int_eq_self)
  with c_int_bounds [OF assms(1,2)] assms(3) show ?thesis by simp
qed

lemma u32_bounds:
  assumes "(ucast (lo :: u32) :: u64) \<le> v" and "v \<le> ucast (hi :: u32)"
  shows "lo \<le> ucast v" and "ucast v \<le> hi"
proof -
  have c: "uint (ucast x :: u64) = uint x" for x :: u32
    using uint_range_size [of x] by (simp add: word_size unsigned_ucast_eq take_bit_int_eq_self)
  have v: "uint v \<le> uint hi" "uint lo \<le> uint v" using assms by (simp_all only: word_le_def c)
  have "uint hi < 2 ^ 32" using uint_range_size [of hi] by (simp add: word_size)
  then have "uint (ucast v :: u32) = uint v"
    using v(1) by (simp add: unsigned_ucast_eq take_bit_int_eq_self)
  with v show "lo \<le> ucast v" "ucast v \<le> hi" by (simp_all only: word_le_def)
qed

lemma sint_range:
  assumes "1 \<le> (v :: u64)" and "v \<le> word_of_int C_INT64_MAX"
  shows "sint v \<in> {1..C_INT64_MAX}"
proof -
  have "1 \<le> uint v" "uint v \<le> C_INT64_MAX" using assms by (simp_all add: word_le_def)
  then show ?thesis by (simp add: sint_small)
qed

text \<open>One rule for each option: a value within its limits keeps the options in order.\<close>

lemma options_ok_updates:
  assumes "options_ok opt"
  shows "x \<in> {1..int MAX_WORKERS} \<Longrightarrow> options_ok (opt\<lparr>o_target := x\<rparr>)"
    and "x \<in> {1..int MAX_RUNS} \<Longrightarrow> options_ok (opt\<lparr>o_num_runs := x\<rparr>)"
    and "1 \<le> w \<Longrightarrow> w \<le> 6 \<Longrightarrow> options_ok (opt\<lparr>o_workload := w\<rparr>)"
    and "x \<in> {1..C_INT64_MAX} \<Longrightarrow> options_ok (opt\<lparr>o_ep_n := x\<rparr>)"
    and "x \<in> {1..C_INT_MAX - 1} \<Longrightarrow> options_ok (opt\<lparr>o_cg_n := x\<rparr>)"
    and "x \<in> {1..C_INT_MAX} \<Longrightarrow> options_ok (opt\<lparr>o_cg_nzpc := x\<rparr>)"
    and "x \<in> {1..C_INT_MAX} \<Longrightarrow> options_ok (opt\<lparr>o_cg_iters := x\<rparr>)"
    and "STREAM_MIN_MIB \<le> w \<Longrightarrow> w \<le> STREAM_MAX_MIB \<Longrightarrow> options_ok (opt\<lparr>o_stream_array_mib := w\<rparr>)"
    and "RANDOM_MIN_MIB \<le> w \<Longrightarrow> w \<le> RANDOM_MAX_MIB \<Longrightarrow> options_ok (opt\<lparr>o_random_mib := w\<rparr>)"
    and "1 \<le> v \<Longrightarrow> options_ok (opt\<lparr>o_random_accesses := v\<rparr>)"
    and "VMAP_MIN_MIB \<le> w \<Longrightarrow> w \<le> VMAP_MAX_MIB \<Longrightarrow> options_ok (opt\<lparr>o_vmap_mib := w\<rparr>)"
    and "TASKQ_MIN_BYTES \<le> w \<Longrightarrow> w \<le> TASKQ_MAX_BYTES \<Longrightarrow> options_ok (opt\<lparr>o_task_bytes := w\<rparr>)"
    and "1 \<le> v \<Longrightarrow> options_ok (opt\<lparr>o_task_iters := v\<rparr>)"
    and "f \<noteq> [] \<Longrightarrow> options_ok (opt\<lparr>o_csv_file := f\<rparr>)"
    and "options_ok (opt\<lparr>o_stream_warmup := w\<rparr>)" and "options_ok (opt\<lparr>o_task_count := v\<rparr>)"
    and "options_ok (opt\<lparr>o_random_warmup_accesses := v\<rparr>)" and "options_ok (opt\<lparr>o_encrypt := b\<rparr>)"
  using assms by (simp_all add: options_ok_def)

lemma number_option_keeps:
  assumes "number_option args lo hi f = Inr (opt', args')"
    and "\<And>v. lo \<le> v \<Longrightarrow> v \<le> hi \<Longrightarrow> options_ok (f v)"
  shows "options_ok opt'"
  using number_option_ok [OF assms(1)] assms(2) by auto

lemma if_InrE:
  assumes "(if b then m else n) = Inr x"
  obtains "m = Inr x" | "n = Inr x"
  using assms by (cases b) auto

lemma workload_option_keeps:
  assumes "workload_option args opt = Inr (opt', args')" and "options_ok opt"
  shows "options_ok opt'"
  using assms(1) unfolding workload_option_def
  by (cases args) (auto elim!: if_InrE simp: options_ok_updates(3) [OF assms(2)])

lemma parse_option_keeps:
  assumes "parse_option a args opt = Inr (opt', args')" and "options_ok opt"
  shows "options_ok opt'"
proof -
  note upd = options_ok_updates [OF assms(2)]
  show ?thesis
    using assms(1) unfolding parse_option_def
    by - (elim if_InrE,
        ((erule number_option_keeps, rule upd(15,16,17))
         | (erule number_option_keeps, rule upd(10,13), assumption)
         | (erule number_option_keeps, rule upd(4), erule (1) sint_range)
         | (erule number_option_keeps, rule upd(8,9,11,12), erule (1) u32_bounds, erule (1) u32_bounds)
         | (erule number_option_keeps, rule upd(1,2,5,6,7), (erule (1) c_int_range; simp))
         | (erule workload_option_keeps, rule assms(2)))+,
        auto simp: upd split: list.splits if_splits)
qed

lemma parse_options_keeps:
  "parse_options args opt = Inr opt' \<Longrightarrow> options_ok opt \<Longrightarrow> options_ok opt'"
  by (induction args opt rule: parse_options.induct) (auto split: sum.splits prod.splits dest: parse_option_keeps)

lemma default_options_ok: "options_ok default_options"
  by (simp add: options_ok_def default_options_def)

lemma check_options_valid:
  assumes "options_ok opt" and "check_options skip opt = Inr opt'"
  shows "options_valid skip opt'"
proof -
  let ?n = "o_cg_n opt" and ?z = "o_cg_nzpc opt"
  have o: "opt' = opt" "\<not> (word_of_int ?n :: u64) * word_of_int ?z > word_of_int C_INT_MAX"
    "\<not> o_ep_n opt > C_INT64_MAX div o_target opt" "skip \<or> o_encrypt opt"
    using assms(2) by (auto simp: check_options_def split: if_splits)
  have b: "1 \<le> ?n" "?n \<le> C_INT_MAX" "1 \<le> ?z" "?z \<le> C_INT_MAX" "1 \<le> o_target opt"
    using assms(1) by (auto simp: options_ok_def)
  have "?n * ?z \<le> C_INT_MAX * C_INT_MAX" using b by (intro mult_mono) auto
  moreover have "0 \<le> ?n * ?z" using b by simp
  note nz = this
  ultimately have "take_bit 64 (?n * ?z) = ?n * ?z" by (intro take_bit_int_eq_self) simp_all
  then have "uint ((word_of_int ?n :: u64) * word_of_int ?z) = ?n * ?z"
    by (simp only: wi_hom_mult unsigned_of_int of_int_eq_id id_apply len_bit0 len_num1) (use nz in simp)
  with o(2) have p: "?n * ?z \<le> C_INT_MAX" by (simp add: word_less_def)
  have "o_ep_n opt * o_target opt \<le> C_INT64_MAX div o_target opt * o_target opt"
    using o(3) b by (intro mult_right_mono) auto
  also have "\<dots> \<le> C_INT64_MAX"
    using div_mult_mod_eq [of C_INT64_MAX "o_target opt"] pos_mod_sign [of "o_target opt" C_INT64_MAX] b by linarith
  finally show ?thesis using assms(1) o(1,4) p by (auto simp: options_ok_def options_valid_def)
qed

text \<open>
  C38: A command line is refused with status 1 or 2, or its options satisfy every limit the rest of
  the program relies on: between 1 and 128 workers and 1 and 1000 runs, sizes within the protocol's
  bounds, \<open>cg_n * cg_nzpc\<close> within an int and \<open>ep_n\<close> times the number of workers
  within an int64, so that neither product overflows; and outside the baseline build the data is
  encrypted.
\<close>

theorem command_line_valid:
  "case command_line skip_attestation args of
     Inl status \<Rightarrow> status = 1 \<or> status = 2
   | Inr opt \<Rightarrow> options_valid skip_attestation opt"
proof -
  have l: "parse_option a args opt = Inl st \<Longrightarrow> st = 1 \<or> st = 2" for a args opt st
    by (auto simp: parse_option_def number_option_def workload_option_def split: if_splits list.splits option.splits)
  have "parse_options args opt = Inl st \<Longrightarrow> st = 1 \<or> st = 2" for args opt st
    by (induction args opt rule: parse_options.induct) (auto split: sum.splits dest: l)
  moreover have "check_options skip_attestation opt = Inl st \<Longrightarrow> st = 1 \<or> st = 2" for opt st
    by (auto simp: check_options_def split: if_splits)
  ultimately show ?thesis
    unfolding command_line_def
    by (auto split: sum.splits dest: check_options_valid parse_options_keeps [OF _ default_options_ok])
qed

end
