(* ===== verification/Csv_Output.thy ===== *)
theory Csv_Output
  imports Npb_Options Snp_Report
begin

text \<open>
  The result file of the central node (end of \<open>main\<close> in src/master_npb.c): the text of the
  file, with the conversions \<open>%d\<close>, \<open>%u\<close> and \<open>%.3f\<close> of \<open>fprintf\<close>, and how
  it is written to a temporary file that replaces the result file only when it is complete.
\<close>

section \<open>Conversions\<close>

fun dec_nat :: "nat \<Rightarrow> string" where
  "dec_nat n = (if n < 10 then [char_of (48 + n)] else dec_nat (n div 10) @ [char_of (48 + n mod 10)])"

declare dec_nat.simps [simp del]

definition dec_int :: "int \<Rightarrow> string" where
  "dec_int i = (if i < 0 then ''-'' @ dec_nat (nat (- i)) else dec_nat (nat i))"

definition pad_zeros :: "nat \<Rightarrow> string \<Rightarrow> string" where
  "pad_zeros k s = replicate (k - length s) (CHR ''0'') @ s"

definition fixed_text :: "nat \<Rightarrow> nat \<Rightarrow> string" where
  \<comment> \<open>n / 10^k with k > 0 decimals\<close>
  "fixed_text k n = dec_nat (n div 10 ^ k) @ ''.'' @ pad_zeros k (dec_nat (n mod 10 ^ k))"

definition fixed :: "nat \<Rightarrow> dbl \<Rightarrow> string" where
  "fixed k x =
     (if d_sign x then ''-'' else '''') @
     (if d_isnan x then ''nan'' else if d_isinf x then ''inf''
      else fixed_text k (nat (round_even (\<bar>d_val x\<bar> * 10 ^ k))))"

section \<open>The text of the file\<close>

definition csv_row :: "npb_result \<Rightarrow> string" where
  "csv_row r =
     workload_name (r_workload r) @ '','' @ dec_nat (r_num_workers r) @ '','' @
     (if r_encrypted r then ''encrypted'' else ''plaintext'') @ '','' @ dec_int (r_run r) @ '','' @
     fixed 3 (r_t_scatter_ms r) @ '','' @ fixed 3 (r_t_compute_max_ms r) @ '','' @
     fixed 3 (r_t_gather_ms r) @ '','' @ fixed 3 (r_t_round_ms r)"

definition env_or :: "'e os \<Rightarrow> string \<Rightarrow> string \<Rightarrow> string" where
  "env_or S name fallback =
     (case os_getenv S name of None \<Rightarrow> fallback | Some v \<Rightarrow> if v = [] then fallback else v)"

definition csv_parameters :: "npb_options \<Rightarrow> string list" where
  "csv_parameters opt =
     (if o_workload opt = WORKLOAD_EP then [''# ep_pairs_per_worker: '' @ dec_int (o_ep_n opt)]
      else if o_workload opt = WORKLOAD_CG then
        [''# cg_n: '' @ dec_int (o_cg_n opt), ''# cg_nzpc: '' @ dec_int (o_cg_nzpc opt),
         ''# cg_iters: '' @ dec_int (o_cg_iters opt)]
      else if o_workload opt = WORKLOAD_STREAM then
        [''# stream_array_mib: '' @ dec_nat (unat (o_stream_array_mib opt)),
         ''# stream_working_set_mib: '' @ dec_nat (unat (o_stream_array_mib opt * 3)),
         ''# stream_warmup: '' @ dec_nat (unat (o_stream_warmup opt))]
      else if o_workload opt = WORKLOAD_RANDOM then
        [''# random_mib: '' @ dec_nat (unat (o_random_mib opt)),
         ''# random_accesses: '' @ dec_nat (unat (o_random_accesses opt)),
         ''# random_warmup_accesses: '' @ dec_nat (unat (o_random_warmup_accesses opt))]
      else if o_workload opt = WORKLOAD_VMAP then [''# vmap_mib: '' @ dec_nat (unat (o_vmap_mib opt))]
      else if o_workload opt = WORKLOAD_TASKQ then
        [''# task_count: '' @ dec_nat (unat (o_task_count opt)),
         ''# task_bytes: '' @ dec_nat (unat (o_task_bytes opt)),
         ''# task_iters: '' @ dec_nat (unat (o_task_iters opt))]
      else [])"

definition csv_columns :: string where
  "csv_columns = ''workload,num_workers,encryption,run,t_scatter_ms,t_compute_max_ms,t_gather_ms,t_round_ms''"

definition csv_lines ::
  "'e os \<Rightarrow> string \<Rightarrow> bool \<Rightarrow> npb_options \<Rightarrow> dbl \<Rightarrow> dbl list \<Rightarrow> npb_result list \<Rightarrow> string list" where
  \<comment> \<open>without the newlines; the dash of the title is three UTF-8 bytes\<close>
  "csv_lines S build_id skip_attestation opt t_enroll_total enroll_ms results =
     [''# MPI+SEV-SNP Star Topology '' @ [CHR 0xE2, CHR 0x80, CHR 0x94] @ '' NPB Kernel Benchmark'',
      ''# build_id: '' @ build_id,
      ''# artifact_id: '' @ env_or S ''PPDPC_ARTIFACT_ID'' ''unversioned'',
      ''# placement_id: '' @ env_or S ''PPDPC_PLACEMENT_ID'' ''unverified'',
      ''# workload: '' @ workload_name (o_workload opt),
      (if skip_attestation then ''# attestation: skipped'' else ''# attestation: enabled''),
      ''# data_encryption: '' @ (if o_encrypt opt then ''AEAD'' else ''plaintext''),
      ''# result_verification: workload-specific-every-run'',
      ''# runs: '' @ dec_int (o_num_runs opt)] @
     csv_parameters opt @
     [''# enrollment_total_ms: '' @ fixed 1 t_enroll_total] @
     map (\<lambda>(w, ms). ''# enrollment_worker'' @ dec_nat (w + 1) @ ''_ms: '' @ fixed 1 ms)
       (zip [0..<length enroll_ms] enroll_ms) @
     [''#'', csv_columns] @ map csv_row results"

section \<open>Writing it\<close>

abbreviation PATH_MAX :: nat where "PATH_MAX \<equiv> 4096"

definition bytes_of_string :: "string \<Rightarrow> bytes" where
  "bytes_of_string s = map of_char s"

definition csv_print :: "'e os \<Rightarrow> string \<Rightarrow> string \<Rightarrow> unit \<Rightarrow> ('e, unit) prog" where
  "csv_print S path line u = bindP (sys S (Fwrite path (bytes_of_string (line @ [CHR 0x0A])))) (\<lambda>_. ret ())"

definition csv_finish :: "'e os \<Rightarrow> string \<Rightarrow> string \<Rightarrow> ('e, bool) prog" where
  "csv_finish S csv_tmp csv_file =
     bindP (sys S (Ferror csv_tmp)) (\<lambda>r.
     let output_error = (o_rc r \<noteq> 0) in
     bindP (sys S (Fflush csv_tmp)) (\<lambda>r.
     let output_error = (output_error \<or> o_rc r \<noteq> 0) in
     bindP (if \<not> output_error then bindP (sys S (Fsync csv_tmp)) (\<lambda>r. ret (o_rc r \<noteq> 0))
            else ret output_error) (\<lambda>output_error.
     bindP (sys S (Fclose csv_tmp)) (\<lambda>r.
     let output_error = (output_error \<or> o_rc r \<noteq> 0) in
     bindP (if \<not> output_error then bindP (sys S (Rename csv_tmp csv_file)) (\<lambda>r. ret (o_rc r = 0))
            else ret False) (\<lambda>output_ok.
     if output_ok then ret True
     else bindP (sys S (Unlink csv_tmp)) (\<lambda>_. ret False))))))"

definition write_csv :: "'e os \<Rightarrow> string \<Rightarrow> string list \<Rightarrow> ('e, bool option) prog" where
  \<comment> \<open>output_ok; None when the path of the temporary file is too long\<close>
  "write_csv S csv_file lines =
     bindP (sys S Getpid) (\<lambda>pid.
     let csv_tmp = csv_file @ ''.tmp.'' @ dec_int (o_rc pid) in
     if length csv_tmp \<ge> PATH_MAX then ret None
     else
       bindP (sys S (Fopen csv_tmp ''w'')) (\<lambda>csv.
       if os_failed csv then ret (Some False)
       else
         bindP (loopP (csv_print S csv_tmp) lines ()) (\<lambda>_.
         bindP (csv_finish S csv_tmp csv_file) (\<lambda>output_ok. ret (Some output_ok)))))"

section \<open>Reading the numbers back\<close>

lemma dec_value_snoc: "dec_value (cs @ [c]) = 10 * dec_value cs + (of_char c - 48)"
  by (simp add: dec_value_def)

lemma is_digit_char: "k < 10 \<Longrightarrow> is_digit (char_of (48 + k :: nat)) \<and> (of_char (char_of (48 + k) :: char) :: nat) = 48 + k"
  by (simp add: is_digit_def)

lemma dec_nat_value: "dec_value (dec_nat n) = n \<and> list_all is_digit (dec_nat n) \<and> dec_nat n \<noteq> []"
proof (induction n rule: dec_nat.induct)
  case (1 n)
  show ?case
  proof (cases "n < 10")
    case True
    then show ?thesis using is_digit_char [of n] by (simp add: dec_nat.simps [of n] dec_value_def)
  next
    case False
    with 1 have i: "dec_value (dec_nat (n div 10)) = n div 10" "list_all is_digit (dec_nat (n div 10))" by simp_all
    show ?thesis using False i is_digit_char [of "n mod 10"]
      by (simp add: dec_nat.simps [of n] dec_value_snoc)
  qed
qed

lemma dec_value_pad: "dec_value (pad_zeros k s) = dec_value s"
proof -
  have "foldl (\<lambda>n c. 10 * n + (of_char c - 48)) 0 (replicate m (CHR ''0'')) = (0 :: nat)" for m
    by (induction m) simp_all
  then show ?thesis by (simp add: pad_zeros_def dec_value_def)
qed

lemma digits_pad: "list_all is_digit s \<Longrightarrow> list_all is_digit (pad_zeros k s)"
  by (auto simp: pad_zeros_def list_all_iff is_digit_def split: if_splits)

fun split_at :: "char \<Rightarrow> string \<Rightarrow> string list" where
  "split_at sep [] = [[]]"
| "split_at sep (c # cs) =
     (if c = sep then [] # split_at sep cs
      else (case split_at sep cs of [] \<Rightarrow> [[c]] | f # fs \<Rightarrow> (c # f) # fs))"

lemma split_at_nonempty: "split_at sep s \<noteq> []"
  by (cases s) (simp_all split: list.split)

lemma split_at_append:
  "sep \<notin> set s \<Longrightarrow> split_at sep (s @ sep # t) = s # split_at sep t"
  "sep \<notin> set s \<Longrightarrow> split_at sep s = [s]"
  by (induction s) auto

lemma no_comma_digits: "list_all is_digit s \<Longrightarrow> CHR '','' \<notin> set s \<and> CHR ''.'' \<notin> set s"
  by (auto simp: list_all_iff is_digit_def)

lemma no_comma:
  "CHR '','' \<notin> set (dec_nat n)" "CHR '','' \<notin> set (dec_int i)" "CHR '','' \<notin> set (fixed k x)"
  "CHR '','' \<notin> set (workload_name w)"
  using dec_nat_value no_comma_digits digits_pad
  by (auto simp: dec_int_def fixed_def fixed_text_def workload_name_def dest!: no_comma_digits)

lemma fixed_text_value:
  "\<exists>i f. fixed_text k n = i @ ''.'' @ f \<and> list_all is_digit i \<and> list_all is_digit f \<and>
     dec_value i * 10 ^ k + dec_value f = n"
  using dec_nat_value [of "n div 10 ^ k"] dec_nat_value [of "n mod 10 ^ k"] digits_pad dec_value_pad
  unfolding fixed_text_def by (metis div_mult_mod_eq)

text \<open>The number that a text without sign shows, in units of its k-th decimal.\<close>

definition decimal_value :: "nat \<Rightarrow> string \<Rightarrow> nat" where
  "decimal_value k s = (let parts = split_at (CHR ''.'') s in dec_value (parts ! 0) * 10 ^ k + dec_value (parts ! 1))"

lemma fixed_parts:
  assumes "d_isfinite x" and "\<not> d_sign x"
  obtains i r where "fixed k x = i @ CHR ''.'' # r" and "list_all is_digit i" and "list_all is_digit r"
    and "dec_value i * 10 ^ k + dec_value r = nat (round_even (\<bar>d_val x\<bar> * 10 ^ k))"
proof -
  have "fixed k x = fixed_text k (nat (round_even (\<bar>d_val x\<bar> * 10 ^ k)))"
    using assms finite_not_special by (simp add: fixed_def)
  then show ?thesis using that fixed_text_value [of k "nat (round_even (\<bar>d_val x\<bar> * 10 ^ k))"] by auto
qed

lemma fixed_decimal:
  assumes "d_isfinite x" and "\<not> d_sign x"
  shows "\<bar>of_nat (decimal_value k (fixed k x)) - 10 ^ k * d_val x\<bar> \<le> 1 / 2"
proof -
  let ?q = "\<bar>d_val x\<bar> * 10 ^ k"
  obtain i r where t: "fixed k x = i @ CHR ''.'' # r" "list_all is_digit i" "list_all is_digit r"
    "dec_value i * 10 ^ k + dec_value r = nat (round_even ?q)" by (rule fixed_parts [OF assms])
  have "split_at (CHR ''.'') (i @ CHR ''.'' # r) = [i, r]"
    using t(2,3) no_comma_digits by (simp add: split_at_append)
  then have "decimal_value k (fixed k x) = nat (round_even ?q)" using t(1,4) by (simp add: decimal_value_def Let_def)
  moreover have "of_int 0 \<le> ?q" by simp
  then have "0 \<le> round_even ?q" by (rule round_even_ge)
  ultimately have "of_nat (decimal_value k (fixed k x)) = (of_int (round_even ?q) :: rat)" by (simp add: of_nat_nat)
  moreover have "\<bar>d_val x\<bar> = d_val x" using d_val_nonneg [OF assms(2)] by simp
  ultimately show ?thesis using round_even_error [of ?q] by (simp add: mult.commute)
qed

text \<open>
  A row of the result file gives its result back: split at the commas it has the eight columns
  of the header, the worker count and the run are the numbers printed, the workload and the mode are
  named, and each time that is finite and not negative is printed to the nearest thousandth of a
  millisecond.
\<close>

theorem csv_row_reads_back:
  "\<exists>scatter compute gather whole.
     split_at (CHR '','') (csv_row r) =
       [workload_name (r_workload r), dec_nat (r_num_workers r),
        if r_encrypted r then ''encrypted'' else ''plaintext'', dec_int (r_run r), scatter, compute, gather, whole] \<and>
     length (split_at (CHR '','') (csv_row r)) = length (split_at (CHR '','') csv_columns) \<and>
     dec_value (dec_nat (r_num_workers r)) = r_num_workers r \<and>
     (0 \<le> r_run r \<longrightarrow> int (dec_value (dec_int (r_run r))) = r_run r) \<and>
     list_all (\<lambda>(t, x). d_isfinite x \<and> \<not> d_sign x \<longrightarrow> \<bar>of_nat (decimal_value 3 t) - 10 ^ 3 * d_val x\<bar> \<le> 1 / 2)
       [(scatter, r_t_scatter_ms r), (compute, r_t_compute_max_ms r), (gather, r_t_gather_ms r),
        (whole, r_t_round_ms r)]"
proof -
  have m: "CHR '','' \<notin> set (if r_encrypted r then ''encrypted'' else ''plaintext'')" by simp
  have s: "split_at (CHR '','') (csv_row r) =
       [workload_name (r_workload r), dec_nat (r_num_workers r),
        if r_encrypted r then ''encrypted'' else ''plaintext'', dec_int (r_run r), fixed 3 (r_t_scatter_ms r),
        fixed 3 (r_t_compute_max_ms r), fixed 3 (r_t_gather_ms r), fixed 3 (r_t_round_ms r)]"
    unfolding csv_row_def
    by (simp only: append_Cons append_Nil append_assoc split_at_append no_comma m simp_thms)
  moreover have "length (split_at (CHR '','') csv_columns) = 8" by (simp add: csv_columns_def)
  moreover have "0 \<le> r_run r \<longrightarrow> int (dec_value (dec_int (r_run r))) = r_run r"
    using dec_nat_value by (simp add: dec_int_def)
  ultimately show ?thesis using dec_nat_value fixed_decimal [of _ 3] by (auto intro!: exI)
qed

theorem csv_row_reads_back_witness:
  "int (dec_value (dec_int 7)) = 7"
proof -
  from csv_row_reads_back [of "npb_result_zero\<lparr>r_run := 7\<rparr>"]
  show ?thesis by auto
qed

section \<open>The result file is replaced whole\<close>

definition csv_calls :: "string \<Rightarrow> string \<Rightarrow> string list \<Rightarrow> os_call list" where
  \<comment> \<open>the calls of a run that succeeds, after the first\<close>
  "csv_calls csv_tmp csv_file lines =
     Fopen csv_tmp ''w'' # map (\<lambda>line. Fwrite csv_tmp (bytes_of_string (line @ [CHR 0x0A]))) lines @
     [Ferror csv_tmp, Fflush csv_tmp, Fsync csv_tmp, Fclose csv_tmp, Rename csv_tmp csv_file]"

definition names_file :: "string \<Rightarrow> os_call \<Rightarrow> bool" where
  "names_file f c \<longleftrightarrow> (case c of Fopen p m \<Rightarrow> p = f | Fwrite p d \<Rightarrow> p = f | Fflush p \<Rightarrow> p = f | Fsync p \<Rightarrow> p = f
     | Fclose p \<Rightarrow> p = f | Ferror p \<Rightarrow> p = f | Unlink p \<Rightarrow> p = f | Rename p q \<Rightarrow> p = f \<or> q = f | _ \<Rightarrow> False)"

lemma csv_print_step:
  "csv_print (os_logged S) csv_tmp line u (l, e) = Done v w' \<longleftrightarrow>
   (\<exists>r. os_do S (Fwrite csv_tmp (bytes_of_string (line @ [CHR 0x0A]))) e = (r, snd w') \<and>
     fst w' = l @ [(Fwrite csv_tmp (bytes_of_string (line @ [CHR 0x0A])), r)])"
  by (cases w') (auto simp: csv_print_def bindP_Done_iff)

lemma csv_finish_logged:
  assumes "csv_finish (os_logged S) csv_tmp csv_file (l, e) = Done ok w'" and "csv_tmp \<noteq> csv_file"
  shows "\<exists>suf. fst w' = l @ suf \<and>
    (if ok then map fst suf = [Ferror csv_tmp, Fflush csv_tmp, Fsync csv_tmp, Fclose csv_tmp, Rename csv_tmp csv_file] \<and>
       list_all (\<lambda>(c, r). o_rc r = 0) suf
     else list_all (\<lambda>(c, r). names_file csv_file c \<longrightarrow> c = Rename csv_tmp csv_file \<and> o_rc r \<noteq> 0) suf \<and>
       Unlink csv_tmp \<in> set (map fst suf))"
  using assms by (auto simp: csv_finish_def names_file_def Let_def split: if_splits)

lemma csv_print_logged:
  assumes "loopP (csv_print (os_logged S) csv_tmp) lines () (l, e) = Done u w'"
  shows "\<exists>rs. length rs = length lines \<and>
    fst w' = l @ zip (map (\<lambda>line. Fwrite csv_tmp (bytes_of_string (line @ [CHR 0x0A]))) lines) rs"
  using assms
proof (induction lines arbitrary: l e)
  case (Cons line lines)
  from Cons.prems obtain r e1 where
    "loopP (csv_print (os_logged S) csv_tmp) lines ()
       (l @ [(Fwrite csv_tmp (bytes_of_string (line @ [CHR 0x0A])), r)], e1) = Done u w'"
    by (auto simp: csv_print_step)
  from Cons.IH [OF this] obtain rs where "length rs = length lines"
    "fst w' = l @ [(Fwrite csv_tmp (bytes_of_string (line @ [CHR 0x0A])), r)] @
       zip (map (\<lambda>line. Fwrite csv_tmp (bytes_of_string (line @ [CHR 0x0A]))) lines) rs" by auto
  then show ?case by (intro exI [of _ "r # rs"]) simp
qed auto

definition csv_outcome :: "string \<Rightarrow> string list \<Rightarrow> bool option \<Rightarrow> os_log \<Rightarrow> bool" where
  "csv_outcome csv_file lines result l \<longleftrightarrow>
     (\<exists>csv_tmp pid rest. csv_tmp \<noteq> csv_file \<and> l = (Getpid, pid) # rest \<and>
        csv_tmp = csv_file @ ''.tmp.'' @ dec_int (o_rc pid) \<and>
        (if result = Some True
         then map fst rest = csv_calls csv_tmp csv_file lines \<and>
           list_all (\<lambda>(c, r). case c of Fopen p m \<Rightarrow> \<not> os_failed r | Fwrite p d \<Rightarrow> True | _ \<Rightarrow> o_rc r = 0) rest
         else list_all (\<lambda>(c, r). names_file csv_file c \<longrightarrow> c = Rename csv_tmp csv_file \<and> o_rc r \<noteq> 0) rest \<and>
           (list_all (\<lambda>(c, r). \<not> os_failed r \<longrightarrow> (\<forall>m. c \<noteq> Fopen csv_tmp m)) rest \<or>
            Unlink csv_tmp \<in> set (map fst rest))))"

lemma csv_lines_written:
  assumes "loopP (csv_print (os_logged S) tmp) lines () (l0 @ [(Fopen tmp ''w'', csv)], e2) = Done u (l2, e3)"
    and "csv_finish (os_logged S) tmp csv_file (l2, e3) = Done b w'" and "tmp \<noteq> csv_file" and "\<not> os_failed csv"
  shows "\<exists>rest. fst w' = l0 @ rest \<and>
    (if b then map fst rest = csv_calls tmp csv_file lines \<and>
       list_all (\<lambda>(c, r). case c of Fopen p m \<Rightarrow> \<not> os_failed r | Fwrite p d \<Rightarrow> True | _ \<Rightarrow> o_rc r = 0) rest
     else list_all (\<lambda>(c, r). names_file csv_file c \<longrightarrow> c = Rename tmp csv_file \<and> o_rc r \<noteq> 0) rest \<and>
       Unlink tmp \<in> set (map fst rest))"
proof -
  let ?ws = "map (\<lambda>line. Fwrite tmp (bytes_of_string (line @ [CHR 0x0A]))) lines"
  from csv_print_logged [OF assms(1)] obtain rs where rs: "length rs = length lines"
    "l2 = l0 @ [(Fopen tmp ''w'', csv)] @ zip ?ws rs" by auto
  from csv_finish_logged [OF assms(2,3)] obtain suf where l: "fst w' = l2 @ suf" and
    f: "if b then map fst suf = [Ferror tmp, Fflush tmp, Fsync tmp, Fclose tmp, Rename tmp csv_file] \<and>
          list_all (\<lambda>(c, r). o_rc r = 0) suf
        else list_all (\<lambda>(c, r). names_file csv_file c \<longrightarrow> c = Rename tmp csv_file \<and> o_rc r \<noteq> 0) suf \<and>
          Unlink tmp \<in> set (map fst suf)" by blast
  have zw: "\<exists>d. c = Fwrite tmp d" if "(c, r) \<in> set (zip ?ws rs)" for c r
    using set_zip_leftD [OF that] by auto
  have "fst w' = l0 @ (Fopen tmp ''w'', csv) # zip ?ws rs @ suf" using l rs(2) by simp
  moreover have "list_all (\<lambda>(c, r). case c of Fopen p m \<Rightarrow> \<not> os_failed r | Fwrite p d \<Rightarrow> True | _ \<Rightarrow> o_rc r = 0) suf" if b
    using f that by (auto simp: list_all_iff split: os_call.split)
  ultimately show ?thesis
    using f rs(1) assms(3,4) zw by (cases b) (fastforce simp: csv_calls_def names_file_def list_all_iff)+
qed

text \<open>
  C28: The result file is only ever replaced as a whole: success is reported exactly after every
  line was written to the temporary file and the checks of the stream, the flush, the sync, the close
  and the rename all succeeded, in this order; otherwise no call but a failed rename has named the
  result file, and a temporary file that was opened is removed.
\<close>

theorem csv_replaced_whole:
  "on_return (\<lambda>result w'. csv_outcome csv_file lines result (fst w'))
     (write_csv (os_logged S) csv_file lines ([], e))"
proof (rule on_returnI)
  fix result w'
  assume run: "write_csv (os_logged S) csv_file lines ([], e) = Done result w'"
  obtain pid e1 where p: "os_do S Getpid e = (pid, e1)" by fastforce
  define tmp where "tmp = csv_file @ ''.tmp.'' @ dec_int (o_rc pid)"
  obtain csv e2 where o: "os_do S (Fopen tmp ''w'') e1 = (csv, e2)" by fastforce
  have ne: "tmp \<noteq> csv_file" by (simp add: tmp_def)
  consider "length tmp \<ge> PATH_MAX" | "length tmp < PATH_MAX" "os_failed csv" | "length tmp < PATH_MAX" "\<not> os_failed csv"
    by linarith
  then show "csv_outcome csv_file lines result (fst w')"
  proof cases
    case 1
    with run p have "result = None" "fst w' = [(Getpid, pid)]" by (auto simp: write_csv_def Let_def tmp_def)
    then show ?thesis using ne unfolding csv_outcome_def tmp_def by auto
  next
    case 2
    with run p o have "result = Some False" "fst w' = [(Getpid, pid), (Fopen tmp ''w'', csv)]"
      by (auto simp: write_csv_def Let_def tmp_def)
    then show ?thesis using ne 2 unfolding csv_outcome_def tmp_def by (auto simp: names_file_def)
  next
    case 3
    with run p o obtain u l2 e3 b where
      w: "loopP (csv_print (os_logged S) tmp) lines () ([(Getpid, pid)] @ [(Fopen tmp ''w'', csv)], e2) = Done u (l2, e3)"
      and fin: "csv_finish (os_logged S) tmp csv_file (l2, e3) = Done b w'" and res: "result = Some b"
      by (auto simp: write_csv_def Let_def tmp_def)
    from csv_lines_written [OF w fin ne 3(2)] show ?thesis unfolding csv_outcome_def res
      by (elim exE) (intro exI [of _ tmp] exI [of _ pid], auto simp: ne tmp_def split: if_splits)
  qed
qed

end
