(* ===== verification/Central_Node.thy ===== *)
theory Central_Node
  imports Master_Taskq Enrollment Ep_Workload Cg_Workload Csv_Output
begin

text \<open>
  \<open>main\<close> of the central node (src/master_npb.c): the command line, the enrolment and what
  happens when it is incomplete, the choice of the workload, the shutdown of the workers and the
  result file. A failed handler aborts the MPI program with status 1.
\<close>

definition send_done ::
  "crypto \<Rightarrow> 'e mpi \<Rightarrow> links \<Rightarrow> nat \<Rightarrow> master_state \<Rightarrow> ('e world, master_state) prog" where
  "send_done C M L w m =
     bindP (secure_to C M L TAG_NPB_CMD (encode_npb_cmd (npb_cmd_zero\<lparr>c_cmd := CMD_NPB_DONE\<rparr>)) w m) (\<lambda>m.
     bindP (npb_mpi_disconnect M (lk_workers L ! w)) (\<lambda>_. ret m))"

definition workload_or_abort :: "('e world, int \<times> master_state) prog \<Rightarrow> ('e world, master_state) prog" where
  "workload_or_abort handler = bindP handler (\<lambda>(status, m). if status \<noteq> 0 then halt 1 else ret m)"

definition run_workload ::
  "nat \<Rightarrow> crypto \<Rightarrow> 'e mpi \<Rightarrow> libm \<Rightarrow> libc_rand \<Rightarrow> links \<Rightarrow> nat \<Rightarrow> npb_options \<Rightarrow> master_state
    \<Rightarrow> ('e world, master_state) prog" where
  "run_workload fuel C M B R L nworkers opt m =
     (if o_workload opt = WORKLOAD_EP then
        run_ep_master C M L nworkers (o_encrypt opt) (o_num_runs opt) (o_ep_n opt) m
      else if o_workload opt = WORKLOAD_CG then
        run_cg_master C M B R L nworkers (o_encrypt opt) (o_num_runs opt) (o_cg_n opt) (o_cg_nzpc opt)
          (o_cg_iters opt) m
      else if o_workload opt = WORKLOAD_STREAM then
        workload_or_abort (run_stream_master C M L nworkers (o_encrypt opt) (o_num_runs opt)
          (o_stream_array_mib opt) (o_stream_warmup opt) m)
      else if o_workload opt = WORKLOAD_RANDOM then
        workload_or_abort (run_random_master C M L nworkers (o_encrypt opt) (o_num_runs opt)
          (o_random_mib opt) (o_random_accesses opt) (o_random_warmup_accesses opt) m)
      else if o_workload opt = WORKLOAD_VMAP then
        workload_or_abort (run_vmap_master C M L nworkers (o_encrypt opt) (o_num_runs opt) (o_vmap_mib opt) m)
      else if o_workload opt = WORKLOAD_TASKQ then
        workload_or_abort (run_taskq_master fuel C M L nworkers (o_encrypt opt) (o_num_runs opt)
          (o_task_count opt) (o_task_bytes opt) (o_task_iters opt) m)
      else ret m)"

definition default_task_count :: "nat \<Rightarrow> npb_options \<Rightarrow> npb_options" where
  "default_task_count nworkers opt =
     (if o_workload opt = WORKLOAD_TASKQ \<and> o_task_count opt = 0
      then opt\<lparr>o_task_count := 100 * of_nat nworkers\<rparr> else opt)"

definition master_init :: master_state where
  "master_init = \<lparr>ms_send_nonce_ctr = replicate MAX_WORKERS 0, ms_recv_nonce_ctr = replicate MAX_WORKERS 0,
     ms_results = []\<rparr>"

definition central_benchmark ::
  "nat \<Rightarrow> 'e node \<Rightarrow> libm \<Rightarrow> libc_rand \<Rightarrow> string \<Rightarrow> npb_options \<Rightarrow> enrolled \<Rightarrow> dbl \<Rightarrow> ('e world, int) prog" where
  \<comment> \<open>after a complete enrolment: the workload, the shutdown and the result file\<close>
  "central_benchmark fuel N B R build_id opt s t_enroll_total =
     (let M = nd_mpi N; C = nd_crypto N; L = en_links s; nworkers = length (lk_workers L);
          opt = default_task_count nworkers opt in
      bindP (run_workload fuel C M B R L nworkers opt master_init) (\<lambda>m.
      bindP (loopP (send_done C M L) [0..<nworkers] m) (\<lambda>m.
      bindP (on_os (write_csv (nd_os N) (o_csv_file opt)
               (csv_lines (nd_os N) build_id (nd_skip_attestation N) opt t_enroll_total (en_ms s) (ms_results m))))
        (\<lambda>output_ok.
      bindP (npb_mpi_finalize M) (\<lambda>_.
      ret (if output_ok = Some True then 0 else 1))))))"

definition abort_partial_enrollment ::
  "crypto \<Rightarrow> 'e mpi \<Rightarrow> links \<Rightarrow> nat \<Rightarrow> ('e world, int) prog" where
  \<comment> \<open>the workers enrolled so far are released; the counters still have their first value\<close>
  "abort_partial_enrollment C M L nworkers =
     bindP (loopP (send_done C M L) [0..<nworkers] master_init) (\<lambda>_.
     bindP (npb_mpi_finalize M) (\<lambda>_. ret 1))"

definition central_main ::
  "nat \<Rightarrow> 'e node \<Rightarrow> libm \<Rightarrow> libc_rand \<Rightarrow> string \<Rightarrow> string list \<Rightarrow> ('e world, int) prog" where
  "central_main fuel N B R build_id args =
     (case command_line (nd_skip_attestation N) args of
        Inl status \<Rightarrow> ret (int status)
      | Inr opt \<Rightarrow>
          let M = nd_mpi N; C = nd_crypto N in
          bindP (npb_mpi_init M) (\<lambda>_.
          bindP (on_env (nd_sodium_init N)) (\<lambda>sodium_ok.
          if \<not> sodium_ok then halt 1
          else
            bindP (on_os (load_secret_key (nd_os N) ''PPDPC_OWNER_SIGN_SK_FILE'' 64)) (\<lambda>key.
            case key of
              None \<Rightarrow> halt 1
            | Some owner_sign_sk \<Rightarrow>
                bindP (mpi_wtime M) (\<lambda>t_enroll_start.
                bindP (enroll_workers fuel N owner_sign_sk (nat (o_target opt))) (\<lambda>s.
                bindP (mpi_wtime M) (\<lambda>t_enroll_end.
                let nworkers = length (lk_workers (en_links s)) in
                if nworkers \<noteq> nat (o_target opt) then abort_partial_enrollment C M (en_links s) nworkers
                else central_benchmark fuel N B R build_id opt s (elapsed_ms t_enroll_start t_enroll_end)))))))) "

section \<open>What a benchmark that succeeds has recorded\<close>

lemma rounds_succeeded:
  assumes "rounds_reported num_runs good m (0, m')" and "1 \<le> num_runs"
  shows "ms_le m m' \<and> (\<exists>rs. ms_results m' = ms_results m @ rs \<and> map r_run rs = [1..num_runs] \<and> list_all good rs)"
  using assms by (auto simp: rounds_reported_def)

lemma good_round_run_good: "good_round wl n encrypt r \<Longrightarrow> run_good wl n encrypt r"
  by (simp add: good_round_def run_good_def)

lemma taskq_good_run_good: "taskq_good n encrypt r \<Longrightarrow> run_good WORKLOAD_TASKQ n encrypt r"
  by (simp add: taskq_good_def run_good_def)

lemma list_all_weaken: "list_all P xs \<Longrightarrow> (\<And>x. P x \<Longrightarrow> Q x) \<Longrightarrow> list_all Q xs"
  by (simp add: list_all_iff)

text \<open>
  C6: Whatever the workers send, a workload of the central node that returns at all has recorded
  exactly one result for each run, in order from the first to the last, under the workload, number of
  workers and encryption mode of the command line, for each of the six workloads; anything else ends
  the program. No send counter has gone back.
\<close>

theorem workload_recorded:
  assumes "options_valid skip opt"
  shows "on_done (\<lambda>m. ms_le master_init m \<and> map r_run (ms_results m) = [1..o_num_runs opt] \<and>
       list_all (run_good (o_workload opt) nworkers (o_encrypt opt)) (ms_results m))
     (run_workload fuel C M B R L nworkers opt master_init w)"
proof (rule on_doneI)
  fix m w'
  let ?e = "o_encrypt opt" and ?n = "o_num_runs opt"
  assume run: "run_workload fuel C M B R L nworkers opt master_init w = Done m w'"
  have n: "1 \<le> ?n" "?n \<le> 1000" using assms by (simp_all add: options_valid_def)
  have z: "ms_results master_init = []" by (simp add: master_init_def)
  with n have room: "length (ms_results master_init) + nat ?n \<le> MAX_RESULTS" by simp
  have "1 \<le> o_workload opt" "o_workload opt \<le> 6" using assms by (simp_all add: options_valid_def)
  then have "unat (o_workload opt) \<in> {1..6}" by (simp add: word_le_nat_alt)
  then have wl: "o_workload opt \<in> {1, 2, 3, 4, 5, 6}"
    by (auto simp: word_unat_eq_iff atLeastAtMost_iff)
  have "ms_le master_init m \<and> (\<exists>rs. ms_results m = ms_results master_init @ rs \<and> map r_run rs = [1..?n] \<and>
      list_all (run_good (o_workload opt) nworkers ?e) rs)"
    using wl run n
    by (auto simp: run_workload_def workload_or_abort_def split: if_splits
        dest!: ep_reported [OF _ room] cg_reported [OF _ room] stream_reported random_reported vmap_reported
          taskq_reported rounds_succeeded
        elim!: list_all_weaken)
      (blast intro: good_round_run_good taskq_good_run_good)+
  with z show "ms_le master_init m \<and> map r_run (ms_results m) = [1..?n] \<and>
       list_all (run_good (o_workload opt) nworkers ?e) (ms_results m)" by auto
qed

lemma default_options_valid: "options_valid False default_options"
  by (simp add: options_valid_def default_options_def)

theorem workload_recorded_witness:
  "on_done (\<lambda>m. map r_run (ms_results m) = [1..10])
     (run_workload 0 demo_crypto fifo_mpi demo_libm demo_rand
       \<lparr>lk_workers = [0], lk_tx_keys = [[]], lk_rx_keys = [[]], lk_bindings = [[]]\<rparr> 1 default_options master_init
       (wait_init, ([], [])))"
  using workload_recorded [OF default_options_valid, of 1 0 demo_crypto fifo_mpi demo_libm demo_rand
      "\<lparr>lk_workers = [0], lk_tx_keys = [[]], lk_rx_keys = [[]], lk_bindings = [[]]\<rparr>" "(wait_init, ([], []))"]
  by (auto simp: on_done_def default_options_def split: outcome.splits)

end
