(* ===== verification/Worker_Node.thy ===== *)
theory Worker_Node
  imports Enrollment Worker_Random Worker_Taskq Ep_Workload Cg_Workload
begin

text \<open>
  \<open>main\<close> of the worker (src/worker_npb.c): the owner's key, the rendezvous, the enrolment, and
  the loop that receives commands and runs the workloads until the central node ends it or something
  fails. The links array that the RANDOM workload allocates is the parameter \<open>links0\<close>.
\<close>

definition workload_or_leave ::
  "('e world, int \<times> worker_chan) prog \<Rightarrow> ('e world, (worker_chan, worker_chan) flow) prog" where
  "workload_or_leave handler = bindP handler (\<lambda>(status, g). ret (if status \<noteq> 0 then Exit g else Next g))"

definition serve_command ::
  "nat \<Rightarrow> crypto \<Rightarrow> 'e mpi \<Rightarrow> libm \<Rightarrow> u32 list \<Rightarrow> bool \<Rightarrow> comm \<Rightarrow> npb_cmd \<Rightarrow> worker_chan
    \<Rightarrow> ('e world, (worker_chan, worker_chan) flow) prog" where
  "serve_command fuel C M B links0 skip_attestation icomm cmd g =
     (if c_cmd cmd = CMD_NPB_DONE then ret (Exit g)
      else if \<not> skip_attestation \<and> c_cmd cmd = CMD_NPB_START \<and> c_encrypt_data cmd = 0 then ret (Exit g)
      else if c_cmd cmd = CMD_NPB_START \<and> c_workload cmd = WORKLOAD_EP then
        bindP (run_ep_worker C M B icomm g cmd) (\<lambda>g. ret (Next g))
      else if c_cmd cmd = CMD_NPB_START \<and> c_workload cmd = WORKLOAD_CG then
        workload_or_leave (run_cg_worker C M icomm g cmd)
      else if c_cmd cmd = CMD_NPB_START \<and> c_workload cmd = WORKLOAD_STREAM then
        workload_or_leave (run_stream_workload C M icomm g cmd)
      else if c_cmd cmd = CMD_NPB_START \<and> c_workload cmd = WORKLOAD_RANDOM then
        workload_or_leave (run_random_workload C M icomm g cmd links0)
      else if c_cmd cmd = CMD_NPB_START \<and> c_workload cmd = WORKLOAD_VMAP then
        workload_or_leave (run_vmap_workload C M icomm g cmd)
      else if c_cmd cmd = CMD_NPB_START \<and> c_workload cmd = WORKLOAD_TASKQ then
        workload_or_leave (run_taskq_workload fuel C M icomm g cmd)
      else ret (Exit g))"

definition worker_step ::
  "nat \<Rightarrow> crypto \<Rightarrow> 'e mpi \<Rightarrow> libm \<Rightarrow> u32 list \<Rightarrow> bool \<Rightarrow> comm \<Rightarrow> worker_chan
    \<Rightarrow> ('e world, (worker_chan, worker_chan) flow) prog" where
  "worker_step fuel C M B links0 skip_attestation icomm g =
     bindP (worker_secure_recv C M icomm g 104 TAG_NPB_CMD) (\<lambda>r.
     case r of
       None \<Rightarrow> ret (Exit g)
     | Some (bs, g) \<Rightarrow> serve_command fuel C M B links0 skip_attestation icomm (decode_npb_cmd bs) g)"

definition worker_main ::
  "nat \<Rightarrow> 'e node \<Rightarrow> libm \<Rightarrow> u32 list \<Rightarrow> nat \<Rightarrow> ('e world, int) prog" where
  \<comment> \<open>fuel bounds the lookups, the waits for children and the commands served\<close>
  "worker_main fuel N B links0 argc =
     (let M = nd_mpi N; C = nd_crypto N in
      bindP (npb_mpi_init M) (\<lambda>_.
      bindP (on_env (nd_sodium_init N)) (\<lambda>sodium_ok.
      if \<not> sodium_ok then halt 1
      else
        bindP (on_os (load_public_key (nd_os N) 32)) (\<lambda>key.
        case key of
          None \<Rightarrow> halt 1
        | Some owner_sign_pk \<Rightarrow>
            bindP (on_wait (npb_wait_begin (m_wait M) NPB_WAIT_ENROLLMENT)) (\<lambda>_.
            if argc \<noteq> 1 then die_mpi M MPI_ERR_ARG
            else
              bindP (bench_connect_worker fuel (nd_rdv N)) (\<lambda>(rc, connected).
              if rc \<noteq> MPI_SUCCESS then die_mpi M rc
              else
                let icomm = (case connected of None \<Rightarrow> 0 | Some c \<Rightarrow> c) in
                bindP (worker_enroll fuel N owner_sign_pk icomm) (\<lambda>enrolled.
                case enrolled of
                  None \<Rightarrow> ret 1
                | Some g \<Rightarrow>
                    bindP (whileX fuel (worker_step fuel C M B links0 (nd_skip_attestation N) icomm) g) (\<lambda>_.
                    bindP (npb_mpi_disconnect M icomm) (\<lambda>_.
                    bindP (npb_mpi_finalize M) (\<lambda>_. ret 0))))))))))"



end
