(* ===== verification/Worker_Process.thy ===== *)
theory Worker_Process
  imports Master_State
begin

text \<open>
  Both sides of a workload over one network. A worker is a process that reads messages and writes messages,
  so it is a function from all the messages it has been sent to all the messages it has sent; the function
  is computed by running the worker's program on the messages so far, with a receive call that finds no
  message left stopping it, since a blocked call has no effect. The central node runs with an MPI whose
  receive call delivers, for each communicator, the next message of the worker behind it.
\<close>

section \<open>Conversations\<close>

type_synonym frames = "(int \<times> bytes) list"

text \<open>A message is its tag, its contents, and whether it is sealed. Only sealed ones are counted.\<close>

type_synonym item = "int \<times> bytes \<times> bool"

definition sealed_count :: "item list \<Rightarrow> nat" where
  "sealed_count xs = length (filter (\<lambda>(tag, p, sealed). sealed) xs)"

fun on_wire :: "crypto \<Rightarrow> bytes \<Rightarrow> bytes \<Rightarrow> u8 \<Rightarrow> u64 \<Rightarrow> item list \<Rightarrow> frames" where
  "on_wire C key binding dir n [] = []"
| "on_wire C key binding dir n ((tag, p, sealed) # xs) =
     (if sealed then (tag, the (seal_frame C key binding dir tag n p)) # on_wire C key binding dir (n + 1) xs
      else (tag, p) # on_wire C key binding dir n xs)"

lemma sealed_count_simps [simp]:
  "sealed_count [] = 0" "sealed_count ((tag, p, sealed) # xs) = (if sealed then Suc (sealed_count xs) else sealed_count xs)"
  "sealed_count (xs @ ys) = sealed_count xs + sealed_count ys"
  by (simp_all add: sealed_count_def)

lemma sealed_count_le: "sealed_count xs \<le> length xs"
  by (simp add: sealed_count_def)

lemma length_on_wire [simp]: "length (on_wire C key cb dir n xs) = length xs"
  by (induction C key cb dir n xs rule: on_wire.induct) simp_all

lemma on_wire_append:
  "on_wire C key cb dir n (xs @ ys) = on_wire C key cb dir n xs @ on_wire C key cb dir (n + of_nat (sealed_count xs)) ys"
  by (induction C key cb dir n xs rule: on_wire.induct) (simp_all add: add.assoc)

text \<open>libsodium documents that this encryption always succeeds.\<close>

definition aead_total :: "crypto \<Rightarrow> bool" where
  "aead_total C \<longleftrightarrow> (\<forall>k n a p. aead_enc C k n a p \<noteq> None)"

lemma seal_frame_total:
  assumes "aead_documented C" and "aead_total C"
  shows "\<exists>f. seal_frame C key cb dir tag n p = Some f"
proof -
  obtain c where c: "aead_enc C key (make_nonce n) (build_aad cb dir tag (of_nat (length p)) n) p = Some c"
    using assms(2) unfolding aead_total_def by blast
  then show ?thesis using aead_length [OF assms(1) c] by (simp add: seal_frame_def)
qed

section \<open>A worker's side\<close>

text \<open>The messages left, the messages sent, and the number of times the clock was read.\<close>

type_synonym worker_net = "fifo_net \<times> nat"

definition worker_mpi :: "wait_sys \<Rightarrow> (nat \<Rightarrow> dbl) \<Rightarrow> worker_net mpi" where
  "worker_mpi Y clock = \<lparr>m_wait = Y,
     m_send = (\<lambda>c tag b e. map_prod id (\<lambda>f. (f, snd e)) (fifo_send c tag b (fst e))),
     m_recv = (\<lambda>c tag n e. map_prod id (\<lambda>f. (f, snd e)) (fifo_recv c tag n (fst e))),
     m_get_count = (\<lambda>d. (MPI_SUCCESS, length d)),
     m_iprobe = (\<lambda>c tag e. ((MPI_SUCCESS, fst (fst e) \<noteq> [] \<and> fst (hd (fst (fst e))) = tag), e)),
     m_disconnect = (\<lambda>c e. (MPI_SUCCESS, e)), m_init = (\<lambda>e. (MPI_SUCCESS, e)),
     m_finalize = (\<lambda>e. (MPI_SUCCESS, e)), m_wtime = (\<lambda>e. (clock (snd e), (fst e, Suc (snd e)))),
     m_malloc = (\<lambda>n e. (True, e))\<rparr>"

definition final_env :: "('a, 'e world) outcome \<Rightarrow> 'e" where
  "final_env r = (case r of Done x w \<Rightarrow> snd w | Halt c w \<Rightarrow> snd w | Spin w \<Rightarrow> snd w)"

lemma final_env_simps [simp]:
  "final_env (Done x w) = snd w" "final_env (Halt c w) = snd w" "final_env (Spin w) = snd w"
  by (simp_all add: final_env_def)

definition replies :: "wait_sys \<Rightarrow> (nat \<Rightarrow> dbl) \<Rightarrow> (worker_net mpi \<Rightarrow> nat \<Rightarrow> (worker_net world, 'r) prog)
    \<Rightarrow> frames \<Rightarrow> frames" where
  \<comment> \<open>what a program, with its MPI and fuel for one command per message, sends when these messages arrive\<close>
  "replies Y clock program inbox =
     snd (fst (final_env (program (worker_mpi Y clock) (Suc (length inbox)) (wait_init, ((inbox, []), 0)))))"

lemma worker_mpi_documented [simp]: "count_documented (worker_mpi Y clock)"
  by (simp add: count_documented_def worker_mpi_def)

lemma worker_mpi_calls [simp]:
  "m_wait (worker_mpi Y clock) = Y"
  "m_send (worker_mpi Y clock) c tag b ((inb, out), t) = (MPI_SUCCESS, ((inb, out @ [(tag, b)]), t))"
  "m_recv (worker_mpi Y clock) c tag (length b) (((tag, b) # inb, out), t) = ((MPI_SUCCESS, b), ((inb, out), t))"
  "m_recv (worker_mpi Y clock) c tag n (([], out), t) = ((MPI_ERR_OTHER 0, []), (([], out), t))"
  "m_wtime (worker_mpi Y clock) ((inb, out), t) = (clock t, ((inb, out), Suc t))"
  "m_malloc (worker_mpi Y clock) n e = (True, e)"
  by (simp_all add: worker_mpi_def fifo_send_def fifo_recv_def)

section \<open>Programs between ready wait states\<close>

text \<open>
  From every ready state of the deadline module, a piece of code returns x and takes the environment from e
  to e', or it does not return and leaves the environment e'.
\<close>

definition runs_to :: "wait_sys \<Rightarrow> ('e world, 'a) prog \<Rightarrow> 'e \<Rightarrow> 'a \<Rightarrow> 'e \<Rightarrow> bool" where
  "runs_to Y m e x e' \<longleftrightarrow> (\<forall>s. wait_ready Y s \<longrightarrow> (\<exists>s'. wait_ready Y s' \<and> m (s, e) = Done x (s', e')))"

definition stuck :: "wait_sys \<Rightarrow> ('e world, 'a) prog \<Rightarrow> 'e \<Rightarrow> 'e \<Rightarrow> bool" where
  "stuck Y m e e' \<longleftrightarrow> (\<forall>s. wait_ready Y s \<longrightarrow> (\<forall>x v. m (s, e) \<noteq> Done x v) \<and> final_env (m (s, e)) = e')"

lemma runs_to_ret: "runs_to Y (ret x) e x e" "runs_to Y (Done x) e x e"
  by (auto simp: runs_to_def)

lemma runs_to_bind: "runs_to Y m e x e' \<Longrightarrow> runs_to Y (k x) e' y e'' \<Longrightarrow> runs_to Y (bindP m k) e y e''"
  by (fastforce simp: runs_to_def bindP_def)

lemma runs_to_env: "f e = (x, e') \<Longrightarrow> runs_to Y (on_env f) e x e'"
  by (auto simp: runs_to_def on_env_def)

lemma runs_toE:
  assumes "runs_to Y m e x e'" and "wait_ready Y s"
  obtains s' where "wait_ready Y s'" and "m (s, e) = Done x (s', e')"
  using assms by (auto simp: runs_to_def)

lemma runs_to_loop:
  assumes "\<And>i s e. i < n \<Longrightarrow> I i s e \<Longrightarrow> \<exists>s' e'. runs_to Y (body i s) e s' e' \<and> I (Suc i) s' e'" and "I 0 s e"
  shows "\<exists>s' e'. runs_to Y (loopP body [0..<n] s) e s' e' \<and> I n s' e'"
  using assms
proof (induction n)
  case 0
  then show ?case by (auto intro: runs_to_ret)
next
  case (Suc n)
  then obtain s1 e1 where 1: "runs_to Y (loopP body [0..<n] s) e s1 e1" "I n s1 e1" by fastforce
  from Suc.prems(1) [OF _ 1(2)] obtain s2 e2 where "runs_to Y (body n s1) e1 s2 e2" "I (Suc n) s2 e2" by blast
  then have "runs_to Y (loopP body [n] s1) e1 s2 e2" by (auto intro!: runs_to_bind runs_to_ret)
  with 1(1) have "runs_to Y (loopP body [0..<Suc n] s) e s2 e2" by (simp add: loopP_append runs_to_bind del: loopP.simps)
  moreover note \<open>I (Suc n) s2 e2\<close>
  ultimately show ?case by blast
qed

lemma runs_to_mpi_send:
  assumes "m_wait M = Y" and "m_send M c tag b e = (MPI_SUCCESS, e')"
  shows "runs_to Y (mpi_send_f M b tag c) e () e'"
  using mpi_send_f_run [OF _ assms(2)] assms(1) by (simp add: runs_to_def)

lemma runs_to_mpi_recv:
  assumes "m_wait M = Y" and "count_documented M" and "m_recv M c tag (length b) e = ((MPI_SUCCESS, b), e')"
  shows "runs_to Y (mpi_recv_f M (int (length b)) tag c) e b e'"
  using mpi_recv_f_run [OF _ assms(2), of _ c tag "int (length b)" e b e'] assms(1,3) by (simp add: runs_to_def)

lemma runs_to_malloc: "runs_to Y (k True) e x e' \<Longrightarrow> runs_to Y (bindP (on_env (m_malloc (worker_mpi Y clock) n)) k) e x e'"
  by (rule runs_to_bind [OF runs_to_env]) simp_all

lemma stuck_bind: "stuck Y m e e' \<Longrightarrow> stuck Y (bindP m k) e e'"
  by (fastforce simp: stuck_def bindP_def split: outcome.splits)

lemma stuck_after: "runs_to Y m e x e1 \<Longrightarrow> stuck Y (k x) e1 e' \<Longrightarrow> stuck Y (bindP m k) e e'"
  by (fastforce simp: stuck_def runs_to_def bindP_def)

lemma stuck_die: "(\<forall>x v. die_mpi M rc w \<noteq> Done x v) \<and> final_env (die_mpi M rc w) = snd w"
  by (cases w) (auto simp: die_mpi_def bindP_def on_wait_def split: outcome.splits)

lemma stuck_recv: "stuck Y (mpi_recv_f (worker_mpi Y clock) count tag c) (([], out), t) (([], out), t)"
  unfolding stuck_def
proof (intro allI impI)
  let ?M = "worker_mpi Y clock" and ?e = "(([], out), t)"
  fix s assume "wait_ready Y s"
  with mpi_recv_f_ready [of ?M s count tag c ?e] obtain s1 s2 where
    r: "mpi_recv_f ?M count tag c (s, ?e) = (case npb_recv_exact ?M count tag c ?e of (r, e') \<Rightarrow>
      if fst r = MPI_SUCCESS then Done (snd r) (s2, e') else die_mpi ?M (fst r) (s1, e'))" by auto
  obtain rc where "mpi_recv_f ?M count tag c (s, ?e) = die_mpi ?M rc (s1, ?e)"
    unfolding r by (cases "count < 0") (auto simp: npb_recv_exact_def)
  with stuck_die [of ?M rc "(s1, ?e)"]
  show "(\<forall>x v. mpi_recv_f ?M count tag c (s, ?e) \<noteq> Done x v) \<and> final_env (mpi_recv_f ?M count tag c (s, ?e)) = ?e"
    by simp
qed

lemma stuck_secure_recv:
  "int l \<le> SECURE_MAX_PLAIN \<Longrightarrow>
    stuck Y (worker_secure_recv C (worker_mpi Y clock) c g (int l) tag) (([], out), t) (([], out), t)"
  by (simp add: worker_secure_recv_def Let_def stuck_bind stuck_recv)

lemma stuck_recv_bulk:
  assumes "NPUB + l + ABYTES \<le> INT_MAX"
  shows "stuck Y (worker_recv_bulk C (worker_mpi Y clock) c g l tag enc) (([], out), t) (([], out), t)"
proof -
  have "\<not> l > INT_MAX" "\<not> l > INT_MAX - NPUB - ABYTES" using assms by auto
  then show ?thesis
    by (auto simp: worker_recv_bulk_def Let_def simp del: of_nat_add
        intro!: stuck_bind [OF stuck_recv] stuck_after [OF runs_to_env [OF worker_mpi_calls(6)]])
qed

section \<open>A worker that has its messages\<close>

text \<open>Both sides have the same view of a channel when their keys and binding agree.\<close>

abbreviation to_worker :: "crypto \<Rightarrow> worker_chan \<Rightarrow> u64 \<Rightarrow> item list \<Rightarrow> frames" where
  "to_worker C g \<equiv> on_wire C (g_recv_key g) (g_channel_binding g) DIRECTION_CENTRAL_TO_WORKER"

abbreviation from_worker :: "crypto \<Rightarrow> worker_chan \<Rightarrow> u64 \<Rightarrow> item list \<Rightarrow> frames" where
  "from_worker C g \<equiv> on_wire C (g_session_key g) (g_channel_binding g) DIRECTION_WORKER_TO_CENTRAL"

lemma advanced_keys [simp]:
  "g_session_key (advanced enc a b g) = g_session_key g" "g_recv_key (advanced enc a b g) = g_recv_key g"
  "g_channel_binding (advanced enc a b g) = g_channel_binding g"
  by (simp_all add: advanced_def)

lemma advanced_counters [simp]:
  "send_nonce_ctr (advanced enc a b g) = send_nonce_ctr g + (if enc then of_nat a else 0)"
  "recv_nonce_ctr (advanced enc a b g) = recv_nonce_ctr g + (if enc then of_nat b else 0)"
  by (simp_all add: advanced_def)

lemma secure_recv_wire:
  assumes "aead_documented C" and "aead_total C" and "int (length p) \<le> SECURE_MAX_PLAIN"
  shows "runs_to Y (worker_secure_recv C (worker_mpi Y clock) c g (int (length p)) tag)
    ((to_worker C g (recv_nonce_ctr g) ((tag, p, True) # xs), out), t)
    (Some (p, advanced True 0 1 g)) ((to_worker C g (recv_nonce_ctr g + 1) xs, out), t)"
proof -
  obtain f where f: "seal_frame C (g_recv_key g) (g_channel_binding g) DIRECTION_CENTRAL_TO_WORKER tag (recv_nonce_ctr g) p = Some f"
    using seal_frame_total [OF assms(1,2)] by blast
  from worker_secure_recv_run [of "worker_mpi Y clock", OF _ _ _ open_seal [OF assms(1) f] seal_frame_length [OF f]] assms(3)
  show ?thesis by (simp add: advanced_def f runs_to_def)
qed

text \<open>The bulk functions, with or without encryption.\<close>

lemma recv_bulk_wire:
  assumes "aead_documented C" and "aead_total C" and "NPUB + length p + ABYTES \<le> INT_MAX"
  shows "runs_to Y (worker_recv_bulk C (worker_mpi Y clock) c g (length p) tag enc)
    ((to_worker C g (recv_nonce_ctr g) ((tag, p, enc) # xs), out), t)
    (Some (p, advanced enc 0 1 g)) ((to_worker C g (recv_nonce_ctr (advanced enc 0 1 g)) xs, out), t)"
proof -
  let ?M = "worker_mpi Y clock"
  let ?xs = "to_worker C g (recv_nonce_ctr (advanced enc 0 1 g)) xs"
  obtain f where f: "seal_frame C (g_recv_key g) (g_channel_binding g) DIRECTION_CENTRAL_TO_WORKER tag (recv_nonce_ctr g) p = Some f"
    using seal_frame_total [OF assms(1,2)] by blast
  let ?p = "if enc then f else p"
  have w: "to_worker C g (recv_nonce_ctr g) ((tag, p, enc) # xs) = (tag, ?p) # ?xs" by (simp add: f)
  have l: "length ?p = (if enc then NPUB + length p + ABYTES else length p)" using seal_frame_length [OF f] by simp
  have r: "runs_to Y (mpi_recv_f ?M (int (length ?p)) tag c) (((tag, ?p) # ?xs, out), t) ?p ((?xs, out), t)"
    by (intro runs_to_mpi_recv worker_mpi_calls(3)) simp_all
  have "\<not> length p > INT_MAX" "\<not> length p > INT_MAX - NPUB - ABYTES" using assms(3) by auto
  then show ?thesis unfolding w using r l open_seal [OF assms(1) f]
    by (cases enc) (auto simp: worker_recv_bulk_def Let_def advanced_def count_documented_snd [OF worker_mpi_documented]
      simp del: of_nat_add intro!: runs_to_ret runs_to_malloc elim!: runs_to_bind)
qed

lemma minus_1_u64: "n = (- 1 :: u64) \<longleftrightarrow> unat n = 2 ^ 64 - 1"
  by (simp add: word_unat_eq_iff unsigned_minus_1_eq_mask mask_eq_exp_minus_1)

lemma send_bulk_wire:
  assumes "aead_documented C" and "aead_total C" and "NPUB + length p + ABYTES \<le> INT_MAX" and "send_nonce_ctr g \<noteq> - 1"
  shows "runs_to Y (worker_send_bulk C (worker_mpi Y clock) c g p tag enc) ((inb, out), t)
    (advanced enc 1 0 g) ((inb, out @ from_worker C g (send_nonce_ctr g) [(tag, p, enc)]), t)"
proof -
  let ?M = "worker_mpi Y clock"
  obtain f where f: "seal_frame C (g_session_key g) (g_channel_binding g) DIRECTION_WORKER_TO_CENTRAL tag (send_nonce_ctr g) p = Some f"
    using seal_frame_total [OF assms(1,2)] by blast
  let ?p = "if enc then f else p"
  have r: "runs_to Y (mpi_send_f ?M ?p tag c) ((inb, out), t) () ((inb, out @ [(tag, ?p)]), t)"
    by (intro runs_to_mpi_send worker_mpi_calls)
  have "\<not> length p > INT_MAX" "\<not> length p > INT_MAX - NPUB - ABYTES" using assms(3) by auto
  then show ?thesis using r f assms(4)
    by (cases enc) (auto simp: worker_send_bulk_def advanced_def
      intro!: runs_to_ret runs_to_malloc elim!: runs_to_bind)
qed

lemma send_small_wire:
  assumes "aead_documented C" and "aead_total C" and "int (length p) \<le> SECURE_MAX_PLAIN" and "send_nonce_ctr g \<noteq> - 1"
  shows "runs_to Y (worker_workload_send_small C (worker_mpi Y clock) c g p tag enc) ((inb, out), t)
    (advanced enc 1 0 g) ((inb, out @ from_worker C g (send_nonce_ctr g) [(tag, p, enc)]), t)"
proof -
  let ?M = "worker_mpi Y clock"
  obtain f where f: "seal_frame C (g_session_key g) (g_channel_binding g) DIRECTION_WORKER_TO_CENTRAL tag (send_nonce_ctr g) p = Some f"
    using seal_frame_total [OF assms(1,2)] by blast
  let ?p = "if enc then f else p"
  have r: "runs_to Y (mpi_send_f ?M ?p tag c) ((inb, out), t) () ((inb, out @ [(tag, ?p)]), t)"
    by (intro runs_to_mpi_send worker_mpi_calls)
  then show ?thesis using f assms(3,4)
    by (cases enc) (auto simp: worker_workload_send_small_def worker_secure_send_def advanced_def
      intro!: runs_to_ret elim!: runs_to_bind)
qed

end
