(* ===== verification/Dgemm_Kernel.thy ===== *)
theory Dgemm_Kernel
  imports Cg_Workload
begin

text \<open>
  The matrix product of the DGEMM benchmark (src/dgemm_kernel.c), its check by the central node
  (\<open>verify_row\<close> and the partition of the rows in \<open>main\<close> of src/master_bench.c) and the proof that the
  product put together from the workers' blocks of rows is the sequential one. Matrices are lists in
  row-major order, as the C arrays are. Each C operation is rounded on its own.
\<close>

section \<open>Kernel\<close>

definition dgemm_column ::
  "dbl list \<Rightarrow> nat \<Rightarrow> nat \<Rightarrow> nat \<Rightarrow> dbl \<Rightarrow> nat \<Rightarrow> dbl list \<Rightarrow> dbl list" where
  \<comment> \<open>the body of the innermost loop\<close>
  "dgemm_column b columns row inner value column c =
     c[row * columns + column := d_add (c ! (row * columns + column)) (d_mul value (b ! (inner * columns + column)))]"

definition dgemm_inner ::
  "dbl list \<Rightarrow> dbl list \<Rightarrow> nat \<Rightarrow> nat \<Rightarrow> nat \<Rightarrow> nat \<Rightarrow> dbl list \<Rightarrow> dbl list" where
  "dgemm_inner a b inner_dimension columns row inner c =
     (let value = a ! (row * inner_dimension + inner)
      in fold (dgemm_column b columns row inner value) [0..<columns] c)"

definition ppdpc_dgemm :: "dbl list \<Rightarrow> dbl list \<Rightarrow> nat \<Rightarrow> nat \<Rightarrow> nat \<Rightarrow> dbl list" where
  \<comment> \<open>the contents of c afterwards\<close>
  "ppdpc_dgemm a b rows inner_dimension columns =
     fold (\<lambda>row. fold (dgemm_inner a b inner_dimension columns row) [0..<inner_dimension]) [0..<rows]
       (replicate (rows * columns) 0)"

section \<open>The central node's partition and check\<close>

definition bench_rows :: "nat \<Rightarrow> nat \<Rightarrow> nat" where
  "bench_rows M nworkers = M div nworkers"

definition bench_row_start :: "nat \<Rightarrow> nat \<Rightarrow> nat \<Rightarrow> nat" where
  "bench_row_start M nworkers w = w * bench_rows M nworkers"

definition bench_block :: "nat \<Rightarrow> nat \<Rightarrow> dbl list \<Rightarrow> nat \<Rightarrow> dbl list" where
  \<comment> \<open>the rows of A that are sent to a worker\<close>
  "bench_block M nworkers A w = take (bench_rows M nworkers * M) (drop (bench_row_start M nworkers w * M) A)"

definition bench_store :: "nat \<Rightarrow> nat \<Rightarrow> nat \<Rightarrow> dbl list \<Rightarrow> dbl list \<Rightarrow> dbl list" where
  \<comment> \<open>C with a worker's block received at its place\<close>
  "bench_store M nworkers w C_block C =
     (let rs = bench_row_start M nworkers w
      in take (rs * M) C @ C_block @ drop ((rs + bench_rows M nworkers) * M) C)"

definition bench_matrices :: "libc_rand \<Rightarrow> nat \<Rightarrow> dbl list \<times> dbl list" where
  \<comment> \<open>the reproducible random matrices after srand(42 + M)\<close>
  "bench_matrices R M =
     (map (\<lambda>i. random_value R (rand_after R (of_nat (42 + M)) (2 * i))) [0..<M * M],
      map (\<lambda>i. random_value R (rand_after R (of_nat (42 + M)) (2 * i + 1))) [0..<M * M])"

definition row_expected :: "dbl list \<Rightarrow> dbl list \<Rightarrow> nat \<Rightarrow> nat \<Rightarrow> nat \<Rightarrow> dbl" where
  "row_expected A B M row j =
     fold (\<lambda>k expected. d_add expected (d_mul (A ! (row * M + k)) (B ! (k * M + j)))) [0..<M] 0"

definition VERIFY_TOLERANCE :: dbl where
  "VERIFY_TOLERANCE = d_round (1 / 10 ^ 9)"

definition cell_refused :: "dbl \<Rightarrow> dbl \<Rightarrow> bool" where
  "cell_refused expected actual =
     (let diff = d_abs (d_sub expected actual);
          scale = (if d_lt (d_of_nat 1) (d_abs expected) then d_abs expected else d_of_nat 1)
      in d_lt VERIFY_TOLERANCE (d_div diff scale))"

definition verify_row :: "dbl list \<Rightarrow> dbl list \<Rightarrow> dbl list \<Rightarrow> nat \<Rightarrow> nat \<Rightarrow> int" where
  "verify_row A B C M row =
     (if list_ex (\<lambda>j. cell_refused (row_expected A B M row j) (C ! (row * M + j))) [0..<M] then - 1 else 0)"

section \<open>What the kernel computes\<close>

lemma fold_update_column:
  assumes "base + n \<le> length c"
  shows "length (fold (\<lambda>j c. c[base + j := f j (c ! (base + j))]) [0..<n] c) = length c \<and>
    (\<forall>i < length c. fold (\<lambda>j c. c[base + j := f j (c ! (base + j))]) [0..<n] c ! i =
      (if base \<le> i \<and> i < base + n then f (i - base) (c ! i) else c ! i))"
  using assms
proof (induction n)
  case (Suc n)
  then show ?case by (auto simp: nth_list_update less_Suc_eq)
qed auto

lemma fold_update_rows:
  assumes "base + n \<le> length c"
  shows "length (fold (\<lambda>k. fold (\<lambda>j c. c[base + j := f k j (c ! (base + j))]) [0..<n]) ks c) = length c \<and>
    (\<forall>i < length c. fold (\<lambda>k. fold (\<lambda>j c. c[base + j := f k j (c ! (base + j))]) [0..<n]) ks c ! i =
      (if base \<le> i \<and> i < base + n then fold (\<lambda>k. f k (i - base)) ks (c ! i) else c ! i))"
  using assms
proof (induction ks arbitrary: c)
  case (Cons k ks)
  note one = fold_update_column [OF Cons.prems, of "f k"]
  from one Cons.prems have "base + n \<le> length (fold (\<lambda>j c. c[base + j := f k j (c ! (base + j))]) [0..<n] c)"
    by simp
  from Cons.IH [OF this] one show ?case by auto
qed simp

definition dgemm_cell :: "dbl list \<Rightarrow> dbl list \<Rightarrow> nat \<Rightarrow> nat \<Rightarrow> nat \<Rightarrow> nat \<Rightarrow> dbl" where
  \<comment> \<open>the reference: one inner product\<close>
  "dgemm_cell a b inner_dimension columns row column =
     fold (\<lambda>k s. d_add s (d_mul (a ! (row * inner_dimension + k)) (b ! (k * columns + column)))) [0..<inner_dimension] 0"

lemma index_bound: "(r :: nat) < rows \<Longrightarrow> j < columns \<Longrightarrow> r * columns + j < rows * columns"
proof -
  assume "r < rows" and "j < columns"
  then have "r * columns + j < Suc r * columns" and "Suc r * columns \<le> rows * columns"
    by (simp, intro mult_le_mono1) simp
  then show "r * columns + j < rows * columns" by (rule less_le_trans)
qed

lemma dgemm_row:
  assumes "row * columns + columns \<le> length c"
  shows "length (fold (dgemm_inner a b inner columns row) [0..<inner] c) = length c \<and>
    (\<forall>i < length c. fold (dgemm_inner a b inner columns row) [0..<inner] c ! i =
      (if row * columns \<le> i \<and> i < row * columns + columns
       then fold (\<lambda>k s. d_add s (d_mul (a ! (row * inner + k)) (b ! (k * columns + (i - row * columns))))) [0..<inner] (c ! i)
       else c ! i))"
  using fold_update_rows [OF assms, of "\<lambda>k j s. d_add s (d_mul (a ! (row * inner + k)) (b ! (k * columns + j)))" "[0..<inner]"]
  by (simp add: dgemm_inner_def [abs_def] dgemm_column_def [abs_def] Let_def)

lemma dgemm_rows:
  assumes "n \<le> rows"
  shows "length (fold (\<lambda>row. fold (dgemm_inner a b inner columns row) [0..<inner]) [0..<n] (replicate (rows * columns) 0))
      = rows * columns \<and>
    (\<forall>r < rows. \<forall>j < columns.
      fold (\<lambda>row. fold (dgemm_inner a b inner columns row) [0..<inner]) [0..<n] (replicate (rows * columns) 0) !
        (r * columns + j) = (if r < n then dgemm_cell a b inner columns r j else 0))"
  using assms
proof (induction n)
  case 0
  then show ?case by (simp add: index_bound)
next
  case (Suc n)
  let ?c = "fold (\<lambda>row. fold (dgemm_inner a b inner columns row) [0..<inner]) [0..<n] (replicate (rows * columns) 0)"
  have l: "length ?c = rows * columns" using Suc by simp
  have "Suc n * columns \<le> rows * columns" using Suc.prems by (rule mult_le_mono1)
  then have "n * columns + columns \<le> length ?c" using l by simp
  note row = dgemm_row [OF this, of a b inner]
  have "r * columns + j < n * columns" if "r < n" "j < columns" for r j using that by (rule index_bound)
  moreover have "n * columns + columns \<le> r * columns + j" if "n < r" for r j
    using mult_le_mono1 [of "Suc n" r columns] that by simp
  ultimately have out: "r = n \<longleftrightarrow> n * columns \<le> r * columns + j \<and> r * columns + j < n * columns + columns"
    if "j < columns" for r j using that by (metis add_less_cancel_left le_add1 linorder_neqE_nat not_le)
  have "fold (dgemm_inner a b inner columns n) [0..<inner] ?c ! (r * columns + j) =
      (if r < Suc n then dgemm_cell a b inner columns r j else 0)" if rj: "r < rows" "j < columns" for r j
  proof (cases "r = n")
    case True
    then have "fold (dgemm_inner a b inner columns n) [0..<inner] ?c ! (r * columns + j) =
        fold (\<lambda>k s. d_add s (d_mul (a ! (r * inner + k)) (b ! (k * columns + j)))) [0..<inner] (?c ! (r * columns + j))"
      using row l rj index_bound [OF rj] by simp
    moreover have "?c ! (r * columns + j) = 0" using Suc rj True by simp
    ultimately show ?thesis using True by (simp add: dgemm_cell_def)
  next
    case False
    then have "fold (dgemm_inner a b inner columns n) [0..<inner] ?c ! (r * columns + j) = ?c ! (r * columns + j)"
      using row l out [OF rj(2), of r] index_bound [OF rj] by auto
    with False Suc rj show ?thesis by (simp add: less_Suc_eq)
  qed
  with row l show ?case by simp
qed

lemma dgemm_length [simp]: "length (ppdpc_dgemm a b rows inner columns) = rows * columns"
  using dgemm_rows [of rows rows] by (simp add: ppdpc_dgemm_def)

lemma dgemm_nth:
  "r < rows \<Longrightarrow> j < columns \<Longrightarrow>
    ppdpc_dgemm a b rows inner columns ! (r * columns + j) = dgemm_cell a b inner columns r j"
  using dgemm_rows [of rows rows] by (simp add: ppdpc_dgemm_def)

text \<open>A block of rows of the product is the product of the block.\<close>

lemma dgemm_block:
  assumes "(s + rows) * inner \<le> length a" and "s + rows \<le> rows'"
  shows "ppdpc_dgemm (take (rows * inner) (drop (s * inner) a)) b rows inner columns =
    take (rows * columns) (drop (s * columns) (ppdpc_dgemm a b rows' inner columns))"
proof (rule nth_equalityI)
  have "(s + rows) * columns \<le> rows' * columns" using assms(2) by (rule mult_le_mono1)
  then have l: "s * columns + rows * columns \<le> rows' * columns" by (simp add: add_mult_distrib)
  then show len: "length (ppdpc_dgemm (take (rows * inner) (drop (s * inner) a)) b rows inner columns) =
    length (take (rows * columns) (drop (s * columns) (ppdpc_dgemm a b rows' inner columns)))" by simp
  fix i assume "i < length (ppdpc_dgemm (take (rows * inner) (drop (s * inner) a)) b rows inner columns)"
  then have i: "i < rows * columns" by simp
  then have c: "0 < columns" by (cases columns) auto
  let ?r = "i div columns" and ?j = "i mod columns"
  have r: "?r < rows" using i by (simp add: less_mult_imp_div_less)
  have j: "?j < columns" using c by simp
  have i': "i = ?r * columns + ?j" by simp
  have "dgemm_cell (take (rows * inner) (drop (s * inner) a)) b inner columns ?r ?j = dgemm_cell a b inner columns (s + ?r) ?j"
    unfolding dgemm_cell_def
  proof (rule fold_cong)
    fix k assume "k \<in> set [0..<inner]"
    then have "?r * inner + k < rows * inner" using r by (auto intro: index_bound)
    then have "take (rows * inner) (drop (s * inner) a) ! (?r * inner + k) = a ! ((s + ?r) * inner + k)"
      using assms(1) by (simp add: add_mult_distrib add.assoc)
    then show "(\<lambda>x. d_add x (d_mul (take (rows * inner) (drop (s * inner) a) ! (?r * inner + k)) (b ! (k * columns + ?j)))) =
        (\<lambda>x. d_add x (d_mul (a ! ((s + ?r) * inner + k)) (b ! (k * columns + ?j))))" by simp
  qed simp_all
  moreover have "take (rows * columns) (drop (s * columns) (ppdpc_dgemm a b rows' inner columns)) ! i =
      ppdpc_dgemm a b rows' inner columns ! ((s + ?r) * columns + ?j)"
  proof -
    have "s * columns \<le> length (ppdpc_dgemm a b rows' inner columns)"
      using l unfolding dgemm_length by (rule add_leD1)
    from nth_drop [OF this, of i] i i' show ?thesis by (simp add: add_mult_distrib add.assoc)
  qed
  ultimately show "ppdpc_dgemm (take (rows * inner) (drop (s * inner) a)) b rows inner columns ! i =
      take (rows * columns) (drop (s * columns) (ppdpc_dgemm a b rows' inner columns)) ! i"
    using dgemm_nth [OF r j, of "take (rows * inner) (drop (s * inner) a)" b inner]
      dgemm_nth [of "s + ?r" rows' ?j columns a b inner] r j assms(2) i' by simp
qed

section \<open>The check accepts what the kernel computes\<close>

lemma dgemm_cell_expected: "dgemm_cell A B M M row j = row_expected A B M row j"
  by (simp add: dgemm_cell_def row_expected_def)

lemma d_qnan_isnan: "d_isnan d_qnan"
  by (simp add: d_isnan_def d_qnan_def d_mag_def d_inf_mag_def)

lemma d_not_lt_nan: "d_isnan b \<Longrightarrow> \<not> d_lt a b"
  by (simp add: d_lt_def)

lemma d_sub_self_cases: "d_mag (d_sub x x) = 0 \<or> d_isnan (d_sub x x)"
proof (cases "d_isfinite x")
  case True
  then show ?thesis using d_sub_self [of x] by simp
next
  case False
  then have "d_isnan x \<or> d_isinf x" by (auto simp: d_isfinite_def d_isnan_def d_isinf_def)
  moreover have "d_isnan (d_neg x) = d_isnan x" "d_isinf (d_neg x) = d_isinf x"
    using d_neg_props(1) [of x] by (simp_all add: d_isnan_def d_isinf_def)
  ultimately have "d_sub x x = d_qnan"
    using d_neg_props(2) [of x] by (auto simp: d_sub_def d_add_def)
  then show ?thesis by (simp add: d_qnan_isnan)
qed

lemma d_div_of_zero: "d_mag a = 0 \<Longrightarrow> d_mag (d_div a b) = 0 \<or> d_isnan (d_div a b)"
proof -
  assume a: "d_mag a = 0"
  then have "\<not> d_isnan a" "\<not> d_isinf a" by (simp_all add: d_isnan_def d_isinf_def d_inf_mag_def)
  with a show ?thesis by (simp add: d_div_def d_qnan_isnan d_pack Let_def)
qed

lemma d_div_of_nan: "d_isnan a \<Longrightarrow> d_isnan (d_div a b)"
  by (simp add: d_div_def d_qnan_isnan)

lemma cell_refused_zero_or_nan:
  assumes "d_mag (d_sub expected actual) = 0 \<or> d_isnan (d_sub expected actual)"
  shows "\<not> cell_refused expected actual"
proof -
  let ?scale = "if d_lt (d_of_nat 1) (d_abs expected) then d_abs expected else d_of_nat 1"
  let ?diff = "d_abs (d_sub expected actual)"
  have "d_mag ?diff = 0 \<or> d_isnan ?diff" using assms by (simp add: d_abs_props d_isnan_def)
  then have "d_mag (d_div ?diff ?scale) = 0 \<or> d_isnan (d_div ?diff ?scale)"
    using d_div_of_zero d_div_of_nan by blast
  moreover have "\<not> d_sign VERIFY_TOLERANCE" by (simp add: VERIFY_TOLERANCE_def d_sign_round)
  ultimately show ?thesis unfolding cell_refused_def Let_def using d_not_lt_zero d_not_lt_nan by blast
qed

text \<open>A cell that is not a number passes the check whatever was expected.\<close>

lemma verify_row_not_a_number: "d_isnan actual \<Longrightarrow> \<not> cell_refused expected actual"
proof (rule cell_refused_zero_or_nan)
  assume "d_isnan actual"
  then have "d_isnan (d_neg actual)" using d_neg_props(1) [of actual] by (simp add: d_isnan_def)
  then show "d_mag (d_sub expected actual) = 0 \<or> d_isnan (d_sub expected actual)"
    by (simp add: d_sub_def d_add_def d_qnan_isnan)
qed

lemma cell_same_accepted: "\<not> cell_refused x x"
  using d_sub_self_cases by (rule cell_refused_zero_or_nan)

lemma verify_row_0: "verify_row A B C M row = 0 \<longleftrightarrow>
    (\<forall>j < M. \<not> cell_refused (row_expected A B M row j) (C ! (row * M + j)))"
  by (auto simp: verify_row_def list_ex_iff)

lemma dgemm_verified: "row < M \<Longrightarrow> verify_row A B (ppdpc_dgemm A B M M M) M row = 0"
  by (simp add: verify_row_0 dgemm_nth dgemm_cell_expected cell_same_accepted)

section \<open>The distributed product\<close>

definition bench_place :: "nat \<Rightarrow> nat \<Rightarrow> (nat \<Rightarrow> dbl list) \<Rightarrow> nat \<Rightarrow> dbl list \<Rightarrow> dbl list" where
  \<comment> \<open>C after the results of the first k workers are stored\<close>
  "bench_place M nworkers blocks k C = foldl (\<lambda>C w. bench_store M nworkers w (blocks w) C) C [0..<k]"

text \<open>Equal blocks of rows are blocks of the row-major array, so the lemmas on CG's blocks apply.\<close>

lemma bench_store_cg:
  assumes "nworkers dvd M" and "w < nworkers"
  shows "bench_store M nworkers w part C = cg_store (M * M) nworkers w part C"
    and "cg_row_start (M * M) nworkers w = bench_row_start M nworkers w * M"
    and "cg_row_count (M * M) nworkers w = bench_rows M nworkers * M"
proof -
  obtain q where q: "M = nworkers * q" using assms(1) by (rule dvdE)
  have n: "0 < nworkers" using assms(2) by simp
  have d: "M * M div nworkers = q * M" "M div nworkers = q" using q n by (simp_all add: mult.assoc)
  show s: "cg_row_start (M * M) nworkers w = bench_row_start M nworkers w * M"
    by (simp add: cg_row_start_def bench_row_start_def bench_rows_def d)
  have "M * M - (nworkers - 1) * (q * M) = q * M"
  proof -
    have "M * M = (nworkers - 1) * (q * M) + q * M" using q n
      by (metis Suc_diff_1 add.commute mult.assoc mult_Suc)
    then show ?thesis by simp
  qed
  then show c: "cg_row_count (M * M) nworkers w = bench_rows M nworkers * M"
    by (simp add: cg_row_count_def bench_rows_def d)
  show "bench_store M nworkers w part C = cg_store (M * M) nworkers w part C"
    by (simp add: bench_store_def cg_store_def Let_def s c add_mult_distrib)
qed

lemma dgemm_placed:
  assumes "0 < nworkers" and "nworkers dvd M" and "length A = M * M" and "length C = M * M"
  shows "bench_place M nworkers (\<lambda>w. ppdpc_dgemm (bench_block M nworkers A w) B (bench_rows M nworkers) M M) nworkers C =
    ppdpc_dgemm A B M M M"
proof -
  let ?Y = "ppdpc_dgemm A B M M M"
  let ?result = "\<lambda>w. ppdpc_dgemm (bench_block M nworkers A w) B (bench_rows M nworkers) M M"
  have place: "bench_place M nworkers ?result nworkers C = cg_place (M * M) nworkers ?result nworkers C"
    unfolding bench_place_def cg_place_def
    by (rule foldl_cong) (use assms(2) in \<open>auto intro: bench_store_cg(1)\<close>)
  have r: "?result w = take (cg_row_count (M * M) nworkers w) (drop (cg_row_start (M * M) nworkers w) ?Y)"
    if w: "w < nworkers" for w
  proof -
    have "bench_row_start M nworkers w + bench_rows M nworkers = Suc w * (M div nworkers)"
      by (simp add: bench_row_start_def bench_rows_def)
    also have "\<dots> \<le> M" using rows_le [of "Suc w" nworkers M] w by simp
    finally have b: "bench_row_start M nworkers w + bench_rows M nworkers \<le> M" .
    then have "(bench_row_start M nworkers w + bench_rows M nworkers) * M \<le> length A"
      unfolding assms(3) by (rule mult_le_mono1)
    from dgemm_block [OF this b, of B M] show ?thesis
      unfolding bench_block_def by (simp add: bench_store_cg [OF assms(2) w])
  qed
  have "cg_place (M * M) nworkers ?result nworkers C = ?Y"
    by (subst place_blocks [of ?Y "M * M" C nworkers nworkers ?result])
      (use assms(1,4) r in \<open>simp_all add: cg_row_end_def\<close>)
  with place show ?thesis by (rule trans)
qed

text \<open>
  C10: The distributed matrix product is the sequential one, bit for bit: for every number of workers that
  divides the dimension, if each worker applies the kernel to the rows and the matrix that it decodes
  from what the central node sends, the matrix that the central node puts together from the decoded
  results is the kernel's product of the whole matrices, whatever the buffer held before, and each of its
  rows passes the central node's check, even where entries overflow.
\<close>

theorem dgemm_product_distributed:
  assumes "0 < nworkers" and "nworkers dvd M" and "length A = M * M" and "length C = M * M"
    and "\<And>w. block w = dbls_of_bytes (bytes_of_dbls (bench_block M nworkers A w))"
    and "\<And>w. result w = ppdpc_dgemm (block w) (dbls_of_bytes (bytes_of_dbls B)) (bench_rows M nworkers) M M"
  shows "bench_place M nworkers (\<lambda>w. dbls_of_bytes (bytes_of_dbls (result w))) nworkers C = ppdpc_dgemm A B M M M \<and>
    list_all (\<lambda>row. verify_row A B (ppdpc_dgemm A B M M M) M row = 0) [0..<M]"
proof -
  have "block w = bench_block M nworkers A w" for w by (simp add: assms(5) dbls_bytes_roundtrip)
  then show ?thesis using dgemm_placed [OF assms(1-4), of B] dgemm_verified
    by (simp add: assms(6) dbls_bytes_roundtrip list_all_iff)
qed

theorem dgemm_product_distributed_witness:
  "bench_place 4 2 (\<lambda>w. dbls_of_bytes (bytes_of_dbls
      (ppdpc_dgemm (dbls_of_bytes (bytes_of_dbls (bench_block 4 2 (fst (bench_matrices demo_rand 4)) w)))
         (dbls_of_bytes (bytes_of_dbls (snd (bench_matrices demo_rand 4)))) (bench_rows 4 2) 4 4)))
     2 (replicate 16 0) =
   ppdpc_dgemm (fst (bench_matrices demo_rand 4)) (snd (bench_matrices demo_rand 4)) 4 4 4"
  by (rule dgemm_product_distributed
      [of 2 4 "fst (bench_matrices demo_rand 4)" "replicate 16 0", THEN conjunct1])
    (simp_all add: bench_matrices_def)

end
