(* ===== verification/Bench_Channel.thy ===== *)
theory Bench_Channel
  imports Dgemm_Kernel Master_State Wire_Structs
begin

text \<open>
  What the central node and the worker of the DGEMM benchmark (src/master_bench.c,
  src/worker_bench.c) exchange: the command struct, and the matrices. The other functions of their
  channel are those of the NPB programs, word for word (\<open>Secure_Io\<close>); \<open>send_matrix\<close> and \<open>recv_matrix\<close>
  differ from the bulk functions there in counting doubles. A message of doubles is its bytes.
\<close>

abbreviation TAG_BENCH_CMD :: int where "TAG_BENCH_CMD \<equiv> 120"
abbreviation TAG_BENCH_A :: int where "TAG_BENCH_A \<equiv> 121"
abbreviation TAG_BENCH_B :: int where "TAG_BENCH_B \<equiv> 122"
abbreviation TAG_BENCH_C :: int where "TAG_BENCH_C \<equiv> 123"
abbreviation TAG_BENCH_TIME :: int where "TAG_BENCH_TIME \<equiv> 124"
abbreviation CMD_BENCH_SIZE :: u32 where "CMD_BENCH_SIZE \<equiv> 1"
abbreviation CMD_BENCH_DONE :: u32 where "CMD_BENCH_DONE \<equiv> 2"
abbreviation MAX_BENCH_MATRIX_DIM :: int where "MAX_BENCH_MATRIX_DIM \<equiv> 8192"
abbreviation MAX_BENCH_RUNS :: int where "MAX_BENCH_RUNS \<equiv> 1000"

record bench_cmd =
  bc_cmd :: u32
  bc_matrix_size :: u32
  bc_row_start :: u32
  bc_row_count :: u32
  bc_encrypt_data :: u32
  bc_num_runs :: u32

definition bench_cmd_zero :: bench_cmd where
  "bench_cmd_zero = \<lparr>bc_cmd = 0, bc_matrix_size = 0, bc_row_start = 0, bc_row_count = 0, bc_encrypt_data = 0,
     bc_num_runs = 0\<rparr>"

definition encode_bench_cmd :: "bench_cmd \<Rightarrow> bytes" where
  "encode_bench_cmd c = le_enc 4 (bc_cmd c) @ le_enc 4 (bc_matrix_size c) @ le_enc 4 (bc_row_start c) @
     le_enc 4 (bc_row_count c) @ le_enc 4 (bc_encrypt_data c) @ le_enc 4 (bc_num_runs c)"

definition decode_bench_cmd :: "bytes \<Rightarrow> bench_cmd" where
  "decode_bench_cmd bs = \<lparr>bc_cmd = field32 0 bs, bc_matrix_size = field32 4 bs, bc_row_start = field32 8 bs,
     bc_row_count = field32 12 bs, bc_encrypt_data = field32 16 bs, bc_num_runs = field32 20 bs\<rparr>"

lemma decode_encode_bench_cmd [simp]: "decode_bench_cmd (encode_bench_cmd c) = c"
  and length_encode_bench_cmd [simp]: "length (encode_bench_cmd c) = 24"
  by (simp_all add: decode_bench_cmd_def encode_bench_cmd_def field_defs)

section \<open>Matrices on the wire\<close>

definition master_send_matrix ::
  "crypto \<Rightarrow> 'e mpi \<Rightarrow> comm \<Rightarrow> bytes \<Rightarrow> bytes \<Rightarrow> u64 \<Rightarrow> dbl list \<Rightarrow> int \<Rightarrow> bool \<Rightarrow> ('e world, u64) prog" where
  "master_send_matrix C M comm key channel_binding nonce_ctr data tag encrypt =
     (if \<not> encrypt then bindP (mpi_send_f M (bytes_of_dbls data) tag comm) (\<lambda>_. ret nonce_ctr)
      else if length data > (INT_MAX - NPUB - ABYTES) div 8 then halt 1
      else if nonce_ctr = - 1 then halt 1
      else bindP (on_env (m_malloc M (NPUB + 8 * length data + ABYTES))) (\<lambda>ok.
        if \<not> ok then halt 1
        else case seal_frame C key channel_binding DIRECTION_CENTRAL_TO_WORKER tag nonce_ctr (bytes_of_dbls data) of
               None \<Rightarrow> halt 1
             | Some buf \<Rightarrow> bindP (mpi_send_f M buf tag comm) (\<lambda>_. ret (nonce_ctr + 1))))"

definition master_recv_matrix ::
  "crypto \<Rightarrow> 'e mpi \<Rightarrow> comm \<Rightarrow> bytes \<Rightarrow> bytes \<Rightarrow> u64 \<Rightarrow> int \<Rightarrow> int \<Rightarrow> bool
    \<Rightarrow> ('e world, (dbl list \<times> u64) option) prog" where
  "master_recv_matrix C M comm key channel_binding nonce_ctr num_doubles tag encrypt =
     (if num_doubles < 0 then ret None
      else if \<not> encrypt then
        bindP (mpi_recv_f M (8 * num_doubles) tag comm) (\<lambda>data.
          if int (snd (m_get_count M data)) \<noteq> 8 * num_doubles then ret None
          else ret (Some (dbls_of_bytes data, nonce_ctr)))
      else if nat num_doubles > (INT_MAX - NPUB - ABYTES) div 8 then ret None
      else let data_bytes = nat num_doubles * 8; total = NPUB + data_bytes + ABYTES in
        bindP (on_env (m_malloc M total)) (\<lambda>ok.
        if \<not> ok then ret None
        else bindP (mpi_recv_f M (int total) tag comm) (\<lambda>buf.
          if snd (m_get_count M buf) \<noteq> total then ret None
          else case open_frame C key channel_binding DIRECTION_WORKER_TO_CENTRAL tag nonce_ctr data_bytes buf of
                 None \<Rightarrow> ret None
               | Some data \<Rightarrow> ret (Some (dbls_of_bytes data, nonce_ctr + 1)))))"

definition worker_send_matrix ::
  "crypto \<Rightarrow> 'e mpi \<Rightarrow> comm \<Rightarrow> worker_chan \<Rightarrow> dbl list \<Rightarrow> int \<Rightarrow> bool \<Rightarrow> ('e world, worker_chan) prog" where
  "worker_send_matrix C M comm g data tag encrypt =
     (if \<not> encrypt then bindP (mpi_send_f M (bytes_of_dbls data) tag comm) (\<lambda>_. ret g)
      else if length data > (INT_MAX - NPUB - ABYTES) div 8 then halt 1
      else if send_nonce_ctr g = - 1 then halt 1
      else bindP (on_env (m_malloc M (NPUB + 8 * length data + ABYTES))) (\<lambda>ok.
        if \<not> ok then halt 1
        else case seal_frame C (g_session_key g) (g_channel_binding g) DIRECTION_WORKER_TO_CENTRAL tag
                    (send_nonce_ctr g) (bytes_of_dbls data) of
               None \<Rightarrow> halt 1
             | Some buf \<Rightarrow> bindP (mpi_send_f M buf tag comm)
                             (\<lambda>_. ret (g\<lparr>send_nonce_ctr := send_nonce_ctr g + 1\<rparr>))))"

definition worker_recv_matrix ::
  "crypto \<Rightarrow> 'e mpi \<Rightarrow> comm \<Rightarrow> worker_chan \<Rightarrow> int \<Rightarrow> int \<Rightarrow> bool
    \<Rightarrow> ('e world, (dbl list \<times> worker_chan) option) prog" where
  "worker_recv_matrix C M comm g num_doubles tag encrypt =
     (if num_doubles < 0 then ret None
      else if \<not> encrypt then
        bindP (mpi_recv_f M (8 * num_doubles) tag comm) (\<lambda>data.
          if int (snd (m_get_count M data)) \<noteq> 8 * num_doubles then ret None
          else ret (Some (dbls_of_bytes data, g)))
      else if nat num_doubles > (INT_MAX - NPUB - ABYTES) div 8 then ret None
      else let data_bytes = nat num_doubles * 8; total = NPUB + data_bytes + ABYTES in
        bindP (on_env (m_malloc M total)) (\<lambda>ok.
        if \<not> ok then ret None
        else bindP (mpi_recv_f M (int total) tag comm) (\<lambda>buf.
          if snd (m_get_count M buf) \<noteq> total then ret None
          else case open_frame C (g_recv_key g) (g_channel_binding g) DIRECTION_CENTRAL_TO_WORKER tag
                      (recv_nonce_ctr g) data_bytes buf of
                 None \<Rightarrow> ret None
               | Some data \<Rightarrow> ret (Some (dbls_of_bytes data, g\<lparr>recv_nonce_ctr := recv_nonce_ctr g + 1\<rparr>)))))"

section \<open>They are the bulk functions on the bytes\<close>

text \<open>
  Within the range of int the functions for matrices are the bulk functions of the NPB programs on the
  bytes of the matrix, so what is known of those holds of these.
\<close>

lemma matrix_limit: "(INT_MAX - NPUB - ABYTES) div 8 < n \<longleftrightarrow> INT_MAX - NPUB - ABYTES < 8 * n"
  by (metis div_less_iff_less_mult mult.commute zero_less_numeral)

lemma master_send_matrix_bulk:
  assumes "8 * length data \<le> INT_MAX"
  shows "master_send_matrix C M comm key cb n data tag encrypt =
    master_send_bulk C M comm key cb n (bytes_of_dbls data) tag encrypt"
  using assms unfolding master_send_matrix_def master_send_bulk_def matrix_limit by simp

lemma worker_send_matrix_bulk:
  assumes "8 * length data \<le> INT_MAX"
  shows "worker_send_matrix C M comm g data tag encrypt = worker_send_bulk C M comm g (bytes_of_dbls data) tag encrypt"
  using assms unfolding worker_send_matrix_def worker_send_bulk_def matrix_limit by simp

lemma int_eq_8: "int a = 8 * int k \<longleftrightarrow> a = 8 * k"
  by linarith

lemma master_recv_matrix_bulk:
  assumes "8 * k \<le> INT_MAX"
  shows "master_recv_matrix C M comm key cb n (int k) tag encrypt =
    bindP (master_recv_bulk C M comm key cb n (8 * k) tag encrypt) (\<lambda>r. ret (map_option (map_prod dbls_of_bytes id) r))"
  using assms unfolding master_recv_matrix_def master_recv_bulk_def nat_int matrix_limit
  by (intro ext) (auto simp: bindP_def int_eq_8 Let_def mult.commute split: outcome.split option.split)

lemma worker_recv_matrix_bulk:
  assumes "8 * k \<le> INT_MAX"
  shows "worker_recv_matrix C M comm g (int k) tag encrypt =
    bindP (worker_recv_bulk C M comm g (8 * k) tag encrypt) (\<lambda>r. ret (map_option (map_prod dbls_of_bytes id) r))"
  using assms unfolding worker_recv_matrix_def worker_recv_bulk_def nat_int matrix_limit
  by (intro ext) (auto simp: bindP_def int_eq_8 Let_def mult.commute split: outcome.split option.split)

section \<open>A partition that both sides accept\<close>

text \<open>The bounds that the worker checks on a command.\<close>

definition bench_cmd_ok :: "bench_cmd \<Rightarrow> bool" where
  "bench_cmd_ok cmd \<longleftrightarrow>
     (let M = sint (bc_matrix_size cmd); row_start = sint (bc_row_start cmd); row_count = sint (bc_row_count cmd);
          enc = sint (bc_encrypt_data cmd); runs = sint (bc_num_runs cmd) in
      \<not> (M \<le> 0 \<or> M > MAX_BENCH_MATRIX_DIM \<or> row_start < 0 \<or> row_count \<le> 0 \<or> row_count > M \<or>
         row_start > M - row_count \<or> (enc \<noteq> 0 \<and> enc \<noteq> 1) \<or> runs \<le> 0 \<or> runs > MAX_BENCH_RUNS))"

lemma bench_cmd_elements:
  assumes "bench_cmd_ok cmd"
  shows "nat (sint (bc_row_count cmd)) * nat (sint (bc_matrix_size cmd)) \<le> 8192 * 8192"
    and "nat (sint (bc_matrix_size cmd)) * nat (sint (bc_matrix_size cmd)) \<le> 8192 * 8192"
proof -
  have m: "nat (sint (bc_matrix_size cmd)) \<le> 8192" and r: "nat (sint (bc_row_count cmd)) \<le> 8192"
    using assms by (auto simp: bench_cmd_ok_def Let_def)
  show "nat (sint (bc_row_count cmd)) * nat (sint (bc_matrix_size cmd)) \<le> 8192 * 8192" by (rule mult_le_mono [OF r m])
  show "nat (sint (bc_matrix_size cmd)) * nat (sint (bc_matrix_size cmd)) \<le> 8192 * 8192" by (rule mult_le_mono [OF m m])
qed

end
