(* ===== verification/Bench_Options.thy ===== *)
theory Bench_Options
  imports Bench_Channel Csv_Output
begin

text \<open>
  The command line of the DGEMM benchmark (\<open>main\<close> of src/master_bench.c) and the commands that its
  sizes and workers give. Numbers are read with \<open>atoi\<close>; an unknown option, and an option that lacks
  its value, are passed over. A command line is refused with status 2 (\<open>None\<close>).
\<close>

abbreviation MAX_SIZES :: nat where "MAX_SIZES \<equiv> 32"

record bench_options =
  b_target :: int
  b_num_runs :: int
  b_encrypt :: bool
  b_verify :: bool
  b_sizes :: "int list"
  b_csv_file :: string

definition bench_defaults :: bench_options where
  "bench_defaults = \<lparr>b_target = 2, b_num_runs = 10, b_encrypt = True, b_verify = False, b_sizes = [],
     b_csv_file = ''bench_results.csv''\<rparr>"

definition comma_tokens :: "string \<Rightarrow> string list" where
  \<comment> \<open>what strtok finds between commas in the first 255 characters\<close>
  "comma_tokens arg = filter (\<lambda>t. t \<noteq> []) (split_at (CHR '','') (take 255 arg))"

definition bench_flag :: "string \<Rightarrow> bench_options \<Rightarrow> bench_options" where
  "bench_flag a opt =
     (if a = ''--no-encrypt'' then opt\<lparr>b_encrypt := False\<rparr>
      else if a = ''--verify'' then opt\<lparr>b_verify := True\<rparr>
      else opt)"

fun bench_args :: "string list \<Rightarrow> bench_options \<Rightarrow> bench_options" where
  "bench_args [] opt = opt"
| "bench_args [a] opt = bench_flag a opt"
| "bench_args (a # v # args) opt =
     (if a = ''--master'' then bench_args args (opt\<lparr>b_target := (let t = c_atoi v in if t \<le> 0 then 1 else t)\<rparr>)
      else if a = ''--size'' then bench_args args (opt\<lparr>b_sizes := [c_atoi v]\<rparr>)
      else if a = ''--sizes'' then
        bench_args args (opt\<lparr>b_sizes := b_sizes opt @
          take (MAX_SIZES - length (b_sizes opt)) (map c_atoi (comma_tokens v))\<rparr>)
      else if a = ''--runs'' then bench_args args (opt\<lparr>b_num_runs := (let n = c_atoi v in if n \<le> 0 then 1 else n)\<rparr>)
      else if a = ''--output'' then bench_args args (opt\<lparr>b_csv_file := v\<rparr>)
      else bench_args (v # args) (bench_flag a opt))"

definition bench_check :: "bool \<Rightarrow> bench_options \<Rightarrow> bench_options option" where
  "bench_check skip_attestation opt =
     (let opt = (if b_sizes opt = [] then opt\<lparr>b_sizes := [512, 1024, 2048]\<rparr> else opt) in
      if b_target opt > int MAX_WORKERS then None
      else if b_num_runs opt > int MAX_RUNS then None
      else if list_ex (\<lambda>s. s \<le> 0 \<or> s > MAX_BENCH_MATRIX_DIM) (b_sizes opt) then None
      else if \<not> skip_attestation \<and> \<not> b_encrypt opt then None
      else Some opt)"

definition bench_command_line :: "bool \<Rightarrow> string list \<Rightarrow> bench_options option" where
  "bench_command_line skip_attestation args = bench_check skip_attestation (bench_args args bench_defaults)"

section \<open>Commands\<close>

definition bench_command :: "bench_options \<Rightarrow> nat \<Rightarrow> nat \<Rightarrow> nat \<Rightarrow> bench_cmd" where
  \<comment> \<open>what a worker is asked to do for a matrix dimension\<close>
  "bench_command opt nworkers M w =
     \<lparr>bc_cmd = CMD_BENCH_SIZE, bc_matrix_size = i32 (int M), bc_row_start = i32 (int (bench_row_start M nworkers w)),
      bc_row_count = i32 (int (bench_rows M nworkers)), bc_encrypt_data = (if b_encrypt opt then 1 else 0),
      bc_num_runs = i32 (b_num_runs opt)\<rparr>"

section \<open>What is accepted\<close>

definition bench_options_valid :: "bool \<Rightarrow> bench_options \<Rightarrow> bool" where
  "bench_options_valid skip_attestation opt \<longleftrightarrow>
     1 \<le> b_target opt \<and> b_target opt \<le> 128 \<and> 1 \<le> b_num_runs opt \<and> b_num_runs opt \<le> 1000 \<and>
     b_sizes opt \<noteq> [] \<and> length (b_sizes opt) \<le> MAX_SIZES \<and>
     list_all (\<lambda>s. 1 \<le> s \<and> s \<le> MAX_BENCH_MATRIX_DIM) (b_sizes opt) \<and> (skip_attestation \<or> b_encrypt opt)"

lemma bench_args_bounds:
  assumes "1 \<le> b_target opt" and "1 \<le> b_num_runs opt" and "length (b_sizes opt) \<le> MAX_SIZES"
  shows "1 \<le> b_target (bench_args args opt) \<and> 1 \<le> b_num_runs (bench_args args opt) \<and>
    length (b_sizes (bench_args args opt)) \<le> MAX_SIZES"
  using assms
  by (induction args opt rule: bench_args.induct) (simp_all add: bench_flag_def Let_def)

lemma bench_command_line_options:
  assumes "bench_command_line skip args = Some opt"
  shows "bench_options_valid skip opt"
  using assms bench_args_bounds [of bench_defaults args]
  by (auto simp: bench_command_line_def bench_check_def bench_options_valid_def bench_defaults_def Let_def
      list_all_iff list_ex_iff not_le split: if_splits)

lemma bench_command_accepted:
  assumes "bench_options_valid skip opt" and "1 \<le> M" and "M \<le> 8192" and "n dvd M" and "w < n"
  shows "bench_cmd_ok (bench_command opt n M w)"
proof -
  have n: "0 < n" using assms(5) by simp
  obtain q where q: "M = n * q" using assms(4) by (rule dvdE)
  have rows: "bench_rows M n = q" "1 \<le> q" using q n assms(2) by (auto simp: bench_rows_def)
  have "Suc w * q \<le> M" unfolding q using assms(5) by (intro mult_le_mono1) simp
  then have s: "bench_row_start M n w + q \<le> M" by (simp add: bench_row_start_def rows)
  have i: "sint (i32 k) = k" if "0 \<le> k" "k \<le> 8192" for k using that by (intro sint_i32) simp_all
  have "sint (bc_matrix_size (bench_command opt n M w)) = int M"
    "sint (bc_row_start (bench_command opt n M w)) = int (bench_row_start M n w)"
    "sint (bc_row_count (bench_command opt n M w)) = int q"
    "sint (bc_num_runs (bench_command opt n M w)) = b_num_runs opt"
    using assms s unfolding bench_command_def bench_cmd.simps rows
    by (auto intro!: i simp: bench_options_valid_def)
  then show ?thesis using assms s rows(2)
    by (simp add: bench_cmd_ok_def Let_def bench_options_valid_def) (simp add: bench_command_def)
qed

text \<open>
  C39: Whatever its arguments are, the central node of the benchmark either refuses the command line or has
  1 to 128 workers, 1 to 1000 runs, 1 to 32 matrix dimensions from 1 to 8192, and encryption unless the
  build skips attestation; and then every command that it sends, for each of these dimensions that the
  number of workers divides and for each worker, reads back unchanged and is within the bounds that the
  worker checks.
\<close>

theorem bench_command_line_accepted:
  "case bench_command_line skip args of None \<Rightarrow> True
   | Some opt \<Rightarrow> bench_options_valid skip opt \<and>
       (let n = nat (b_target opt) in
        list_all (\<lambda>M. list_all (\<lambda>w.
            let cmd = decode_bench_cmd (encode_bench_cmd (bench_command opt n M w))
            in cmd = bench_command opt n M w \<and> bc_cmd cmd = CMD_BENCH_SIZE \<and> bench_cmd_ok cmd) [0..<n])
          (filter (\<lambda>M. n dvd M) (map nat (b_sizes opt))))"
proof (cases "bench_command_line skip args")
  case (Some opt)
  then have v: "bench_options_valid skip opt" by (rule bench_command_line_options)
  have "bench_cmd_ok (bench_command opt (nat (b_target opt)) (nat s) w)"
    if "s \<in> set (b_sizes opt)" "nat (b_target opt) dvd nat s" "w < nat (b_target opt)" for s w
    using v that by (intro bench_command_accepted) (auto simp: bench_options_valid_def list_all_iff)
  moreover have "bc_cmd (bench_command opt n M w) = CMD_BENCH_SIZE" for n M w by (simp add: bench_command_def)
  ultimately show ?thesis using Some v by (auto simp: list_all_iff Let_def)
qed simp

text \<open>
  A number in the list that lies across the end of the buffer loses its last digits: the dimension
  that is run is not the one that was asked for.
\<close>

lemma sizes_cut:
  "map c_atoi (comma_tokens (replicate 252 (CHR '','') @ ''1024'')) = [102]"
  by code_simp

end
