(* ===== verification/Dgemm_Tolerance.thy ===== *)
theory Dgemm_Tolerance
  imports Dgemm_Kernel
begin

text \<open>
  What \<open>verify_row\<close> of src/master_bench.c lets through, in exact arithmetic: the rounded quotient
  \<open>fabs(expected - actual) / scale\<close> exceeds the rounded 1e-9 whenever the exact difference is at least
  2^-27 of the exact scale. The bound is a power of two next to 1e-9 (which is about 2^-30) so that each of
  the three roundings (difference, quotient, tolerance) can only move a value up to the next power of two.
\<close>

section \<open>What the check refuses\<close>

lemma d_round_le_inf: "d_mag (d_round q) \<le> d_inf_mag"
  by (simp add: d_round_def Let_def d_pack d_inf_mag_def min_def)

lemma tolerance_mag: "d_mag VERIFY_TOLERANCE \<le> 994 * 2 ^ 52"
proof -
  have "\<bar>1 / 10 ^ 9 :: rat\<bar> < 2 powi (- 29) * (1 + 1 / 2 ^ 53)" by (simp add: power_int_minus field_simps)
  from d_round_at_most [OF this] show ?thesis by (simp add: VERIFY_TOLERANCE_def)
qed

lemma tolerance_less:
  assumes "995 * 2 ^ 52 \<le> d_mag x" and "d_mag x \<le> d_inf_mag" and "\<not> d_sign x"
  shows "d_lt VERIFY_TOLERANCE x"
proof -
  have "\<not> d_sign VERIFY_TOLERANCE" by (simp add: VERIFY_TOLERANCE_def d_sign_round)
  moreover have "d_mag VERIFY_TOLERANCE < d_mag x"
    by (rule le_less_trans [OF tolerance_mag less_le_trans [OF _ assms(1)]]) simp
  moreover from this assms(2) have "\<not> d_isnan VERIFY_TOLERANCE" "\<not> d_isnan x" by (simp_all add: d_isnan_def)
  ultimately show ?thesis using assms(3) by (simp add: d_lt_def d_key_def)
qed

text \<open>The value of the scale that the difference is divided by.\<close>

definition cell_scale :: "dbl \<Rightarrow> dbl" where
  "cell_scale expected = (if d_lt (d_of_nat 1) (d_abs expected) then d_abs expected else d_of_nat 1)"

lemma cell_scale:
  assumes "d_isfinite expected"
  shows "d_isfinite (cell_scale expected)" and "\<not> d_sign (cell_scale expected)"
    and "d_val (cell_scale expected) = max 1 \<bar>d_val expected\<bar>"
proof -
  have one: "d_isfinite (d_of_nat 1)" "\<not> d_sign (d_of_nat 1)" "d_val (d_of_nat 1) = 1"
    using d_of_nat_props [of 1] by simp_all
  have a: "d_isfinite (d_abs expected)" "\<not> d_sign (d_abs expected)" "d_val (d_abs expected) = \<bar>d_val expected\<bar>"
    using assms mag_val_nonneg [of "d_mag expected"] by (simp_all add: d_isfinite_def d_abs_props d_val_mag)
  show "d_isfinite (cell_scale expected)" "\<not> d_sign (cell_scale expected)" using one a by (simp_all add: cell_scale_def)
  show "d_val (cell_scale expected) = max 1 \<bar>d_val expected\<bar>"
  proof (cases "d_lt (d_of_nat 1) (d_abs expected)")
    case True
    with d_lt_val [OF one(2) a(2) True] one a show ?thesis by (simp add: cell_scale_def)
  next
    case False
    then have "d_mag (d_abs expected) \<le> d_mag (d_of_nat 1)"
      using one a finite_not_special by (auto simp: d_lt_def d_key_def)
    then have "d_val (d_abs expected) \<le> d_val (d_of_nat 1)"
      using one(2) a(2) by (simp add: d_val_mag mag_val_mono)
    with False one a show ?thesis by (simp add: cell_scale_def)
  qed
qed

lemma inf_mag_packed: "d_mag (d_pack s d_inf_mag) = d_inf_mag"
  by (simp add: d_pack d_inf_mag_def)

lemma infinite_difference_refused:
  assumes "d_isfinite expected" and "d_isinf (d_sub expected actual)"
  shows "cell_refused expected actual"
proof -
  note s = cell_scale [OF assms(1)]
  have d: "d_isinf (d_abs (d_sub expected actual))" "\<not> d_isnan (d_abs (d_sub expected actual))"
    using assms(2) by (simp_all add: d_isinf_def d_isnan_def d_abs_props)
  with s finite_not_special [OF s(1)]
  have "d_div (d_abs (d_sub expected actual)) (cell_scale expected) = d_pack False d_inf_mag"
    by (auto simp: d_div_def d_isinf_def d_inf_mag_def d_abs_props Let_def)
  moreover have "d_lt VERIFY_TOLERANCE (d_pack False d_inf_mag)"
    by (rule tolerance_less) (simp_all add: d_pack d_inf_mag_def)
  ultimately show ?thesis by (simp add: cell_refused_def cell_scale_def Let_def)
qed

lemma cell_scale_binade:
  assumes "d_isfinite expected"
  obtains k where "2 powi k \<le> max 1 \<bar>d_val expected\<bar>" and "max 1 \<bar>d_val expected\<bar> < 2 powi (k + 1)" and "0 \<le> k" and "k < 1024"
proof
  let ?S = "max 1 \<bar>d_val expected\<bar>" and ?k = "rat_log2 (max 1 \<bar>d_val expected\<bar>)"
  note s = cell_scale [OF assms]
  show k: "2 powi ?k \<le> ?S" "?S < 2 powi (?k + 1)" using rat_log2_bounds [of ?S] by simp_all
  have "2 powi 0 < (2 :: rat) powi (?k + 1)" using k(2) by simp
  from powi_less_imp [OF this] show "0 \<le> ?k" by simp
  have "d_mag (cell_scale expected) < nat (1024 + 1023) * 2 ^ 52" using s(1) by (simp add: d_isfinite_def d_inf_mag_def)
  from mag_val_less [OF this] mag_val_powi [of 1024] have "d_val (cell_scale expected) < 2 powi 1024"
    using s(2) by (simp add: d_val_mag)
  with k(1) have "2 powi ?k < (2 :: rat) powi 1024" by (simp only: s(3))
  then show "?k < 1024" by (rule powi_less_imp)
qed

lemma gross_difference_refused:
  assumes "d_isfinite expected" and "d_isfinite actual"
    and "2 powi (- 27) * max 1 \<bar>d_val expected\<bar> \<le> \<bar>d_val expected - d_val actual\<bar>"
  shows "cell_refused expected actual"
proof (cases "d_isinf (d_sub expected actual)")
  case True
  with assms(1) show ?thesis by (rule infinite_difference_refused)
next
  case False
  let ?S = "max 1 \<bar>d_val expected\<bar>" and ?D = "\<bar>d_val expected - d_val actual\<bar>" and ?d = "d_abs (d_sub expected actual)"
  note s = cell_scale [OF assms(1)]
  obtain k where k: "2 powi k \<le> ?S" "?S < 2 powi (k + 1)" and k0: "0 \<le> k" and k1: "k < 1024"
    by (rule cell_scale_binade [OF assms(1)])
  have D: "2 powi (k - 27) \<le> ?D"
  proof -
    have "2 powi (k - 27) = 2 powi (- 27) * (2 :: rat) powi k" by (subst power_int_add [symmetric]) simp_all
    also have "\<dots> \<le> 2 powi (- 27) * ?S" using k(1) by (intro mult_left_mono) simp_all
    finally show ?thesis using assms(3) by (rule order_trans)
  qed
  moreover have "(0 :: rat) < 2 powi (k - 27)" by simp
  ultimately have nz: "d_val expected - d_val actual \<noteq> 0" by linarith
  have sub: "d_sub expected actual = d_round (d_val expected - d_val actual)"
    using assms(1,2) nz finite_not_special [OF assms(1)] finite_not_special [of "d_neg actual"]
    by (simp add: d_sub_def d_add_def d_neg_props Let_def)
  have m: "nat (k - 27 + 1023) * 2 ^ 52 \<le> d_mag ?d"
    unfolding d_abs_props sub by (rule d_round_at_least [OF D]) (use k0 k1 in auto)
  have fin: "d_mag (d_sub expected actual) < d_inf_mag"
    using False d_round_le_inf [of "d_val expected - d_val actual"] unfolding sub d_isinf_def by simp
  have v: "2 powi (k - 27) \<le> d_val ?d"
  proof -
    have "mag_val (nat (k - 27 + 1023) * 2 ^ 52) = 2 powi (k - 27)" using k0 by (intro mag_val_powi) simp
    moreover have "d_val ?d = mag_val (d_mag ?d)" using d_abs_props(2) [of "d_sub expected actual"] by (simp only: d_val_mag if_False)
    ultimately show ?thesis using mag_val_mono [OF m] by (simp only:)
  qed
  have q: "2 powi (- 28) \<le> \<bar>d_val ?d / d_val (cell_scale expected)\<bar>"
  proof -
    have S: "0 < ?S" by simp
    have "2 powi (- 28) * ?S \<le> 2 powi (- 28) * (2 :: rat) powi (k + 1)" using k(2) by (intro mult_left_mono) simp_all
    also have "\<dots> = 2 powi (k - 27)" by (subst power_int_add [symmetric]) simp_all
    also have "\<dots> \<le> d_val ?d" by (rule v)
    finally have "2 powi (- 28) \<le> d_val ?d / ?S" using S by (simp only: pos_le_divide_eq)
    then show ?thesis unfolding s(3) by simp
  qed
  have "d_mag ?d \<noteq> 0" using m k0 by (auto simp: nat_add_distrib)
  moreover have "d_mag (cell_scale expected) \<noteq> 0"
    using s(3) d_val_0_iff [of "cell_scale expected"] by (auto simp: max_def split: if_splits)
  ultimately have "d_div ?d (cell_scale expected) = d_round (d_val ?d / d_val (cell_scale expected))"
    using fin finite_not_special [OF s(1)] by (auto simp: d_div_def d_isnan_def d_isinf_def d_abs_props Let_def)
  moreover have "d_lt VERIFY_TOLERANCE (d_round (d_val ?d / d_val (cell_scale expected)))"
  proof (rule tolerance_less)
    show "995 * 2 ^ 52 \<le> d_mag (d_round (d_val ?d / d_val (cell_scale expected)))"
      using d_round_at_least [OF q] by simp
    show "d_mag (d_round (d_val ?d / d_val (cell_scale expected))) \<le> d_inf_mag" by (rule d_round_le_inf)
    have "0 \<le> d_val ?d / d_val (cell_scale expected)"
      using d_val_nonneg [of ?d] d_val_nonneg [OF s(2)] by (simp add: d_abs_props)
    then show "\<not> d_sign (d_round (d_val ?d / d_val (cell_scale expected)))" by (simp add: d_sign_round not_less)
  qed
  ultimately show ?thesis by (simp add: cell_refused_def cell_scale_def Let_def)
qed

text \<open>
  An accepted cell that is a number differs by less than 2^-27 of the expected value, or of 1 if that is
  greater.
\<close>

definition cell_close :: "dbl \<Rightarrow> dbl \<Rightarrow> bool" where
  "cell_close expected actual \<longleftrightarrow> d_isfinite actual \<and>
     \<bar>d_val expected - d_val actual\<bar> < 2 powi (- 27) * max 1 \<bar>d_val expected\<bar>"

lemma accepted_cell_close:
  assumes "\<not> cell_refused expected actual" and "d_isfinite expected" and "\<not> d_isnan actual"
  shows "cell_close expected actual"
proof (cases "d_isfinite actual")
  case True
  with gross_difference_refused [OF assms(2) True] assms(1) show ?thesis unfolding cell_close_def not_le [symmetric] by blast
next
  case False
  with assms(3) have "d_isinf (d_neg actual)"
    by (auto simp: d_isfinite_def d_isnan_def d_isinf_def d_neg_props)
  then have "d_sub expected actual = d_neg actual"
    using finite_not_special [OF assms(2)] by (auto simp: d_sub_def d_add_def d_isinf_def d_isnan_def)
  with \<open>d_isinf (d_neg actual)\<close> infinite_difference_refused [OF assms(2)] assms(1) show ?thesis by simp
qed

text \<open>A row that passes: every cell whose expected value is finite and that is a number is close.\<close>

definition row_close :: "dbl list \<Rightarrow> dbl list \<Rightarrow> dbl list \<Rightarrow> nat \<Rightarrow> nat \<Rightarrow> bool" where
  "row_close A B C M row \<longleftrightarrow>
     list_all (\<lambda>j. d_isfinite (row_expected A B M row j) \<and> \<not> d_isnan (C ! (row * M + j)) \<longrightarrow>
       cell_close (row_expected A B M row j) (C ! (row * M + j))) [0..<M]"

lemma verified_row_close: "verify_row A B C M row = 0 \<Longrightarrow> row_close A B C M row"
  by (simp add: row_close_def verify_row_0 list_all_iff accepted_cell_close)

end
