(* ===== verification/Bench_Master.thy ===== *)
theory Bench_Master
  imports Bench_Options Enrollment Dgemm_Tolerance "HOL-Library.Sublist"
begin

text \<open>
  The central node of the DGEMM benchmark (\<open>main\<close> of src/master_bench.c): for each matrix dimension it
  sends a command to each worker, and in each run scatters the blocks of A and the matrix B, gathers
  the blocks of the product and the times, checks one row of each block in the last run if asked to,
  and stores a result; then the shutdown and the result file. The enrolment is that of the NPB central
  node, word for word (\<open>enroll_workers\<close>; the worker table cannot overflow, as at most
  \<open>MAX_WORKERS\<close> rounds are run), and so are the release of a partial enrolment and the writing of the
  file but for the command struct and the lines. The counters are those of \<open>master_state\<close>, whose
  result store stays empty; the results of the benchmark are \<open>bn_results\<close>. The buffer of the product
  is written whole before it is read, so its first contents do not matter; they are 0 here. The summary
  that is printed is not modelled.
\<close>

abbreviation MAX_BENCH_RESULTS :: nat where "MAX_BENCH_RESULTS \<equiv> MAX_SIZES * MAX_RUNS"

record bench_result =
  br_matrix_size :: nat
  br_num_workers :: nat
  br_encrypted :: bool
  br_run :: int
  br_t_scatter_ms :: dbl
  br_t_compute_max_ms :: dbl
  br_t_gather_ms :: dbl
  br_t_round_ms :: dbl
  br_t_comm_ms :: dbl

record bench_state =
  bn_ms :: master_state
  bn_results :: "bench_result list"

section \<open>One run\<close>

definition matrix_to ::
  "crypto \<Rightarrow> 'e mpi \<Rightarrow> links \<Rightarrow> bool \<Rightarrow> int \<Rightarrow> dbl list \<Rightarrow> nat \<Rightarrow> master_state \<Rightarrow> ('e world, master_state) prog" where
  "matrix_to C M L encrypt tag data w m =
     bindP (master_send_matrix C M (lk_workers L ! w) (lk_tx_keys L ! w) (lk_bindings L ! w)
              (ms_send_nonce_ctr m ! w) data tag encrypt) (\<lambda>n.
     ret (m\<lparr>ms_send_nonce_ctr := (ms_send_nonce_ctr m)[w := n]\<rparr>))"

definition matrix_from ::
  "crypto \<Rightarrow> 'e mpi \<Rightarrow> links \<Rightarrow> bool \<Rightarrow> int \<Rightarrow> nat \<Rightarrow> nat \<Rightarrow> master_state
    \<Rightarrow> ('e world, (dbl list \<times> master_state) option) prog" where
  "matrix_from C M L encrypt tag num_doubles w m =
     bindP (master_recv_matrix C M (lk_workers L ! w) (lk_rx_keys L ! w) (lk_bindings L ! w)
              (ms_recv_nonce_ctr m ! w) (int num_doubles) tag encrypt) (\<lambda>r.
     ret (map_option (\<lambda>(d, n). (d, m\<lparr>ms_recv_nonce_ctr := (ms_recv_nonce_ctr m)[w := n]\<rparr>)) r))"

definition bench_scatter ::
  "crypto \<Rightarrow> 'e mpi \<Rightarrow> links \<Rightarrow> nat \<Rightarrow> bool \<Rightarrow> nat \<Rightarrow> dbl list \<Rightarrow> dbl list \<Rightarrow> nat \<Rightarrow> master_state
    \<Rightarrow> ('e world, master_state) prog" where
  "bench_scatter C M L nworkers encrypt mdim A B w m =
     bindP (matrix_to C M L encrypt TAG_BENCH_A (bench_block mdim nworkers A w) w m)
       (matrix_to C M L encrypt TAG_BENCH_B B w)"

definition bench_collect ::
  "crypto \<Rightarrow> 'e mpi \<Rightarrow> links \<Rightarrow> nat \<Rightarrow> bool \<Rightarrow> nat \<Rightarrow> nat \<Rightarrow> master_state \<times> dbl list \<times> dbl
    \<Rightarrow> ('e world, master_state \<times> dbl list \<times> dbl) prog" where
  "bench_collect C M L nworkers encrypt mdim w s =
     (case s of (m, Cm, t_compute_max) \<Rightarrow>
      bindP (matrix_from C M L encrypt TAG_BENCH_C (bench_rows mdim nworkers * mdim) w m) (\<lambda>r.
      case r of
        None \<Rightarrow> halt 1
      | Some (C_block, m) \<Rightarrow>
          let Cm = bench_store mdim nworkers w C_block Cm in
          bindP (small_from C M L encrypt TAG_BENCH_TIME 8 w m) (\<lambda>r.
          case r of
            None \<Rightarrow> halt 1
          | Some (bs, m) \<Rightarrow>
              let t_compute_w = le_dec bs :: dbl in
              if \<not> d_isfinite t_compute_w \<or> d_lt t_compute_w 0 then halt 1
              else ret (m, Cm, if d_lt t_compute_max t_compute_w then t_compute_w else t_compute_max))))"

definition bench_checked_row :: "nat \<Rightarrow> nat \<Rightarrow> nat \<Rightarrow> nat" where
  "bench_checked_row mdim nworkers w = bench_row_start mdim nworkers w + bench_rows mdim nworkers div 2"

definition bench_check_worker ::
  "nat \<Rightarrow> nat \<Rightarrow> dbl list \<Rightarrow> dbl list \<Rightarrow> dbl list \<Rightarrow> nat \<Rightarrow> unit \<Rightarrow> ('e world, unit) prog" where
  "bench_check_worker mdim nworkers A B Cm w u =
     (if verify_row A B Cm mdim (bench_checked_row mdim nworkers w) \<noteq> 0 then halt 1 else ret ())"

definition bench_record :: "bench_result \<Rightarrow> bench_result list \<Rightarrow> bench_result list" where
  "bench_record r results = (if length results < MAX_BENCH_RESULTS then results @ [r] else results)"

definition bench_result_of :: "nat \<Rightarrow> bench_options \<Rightarrow> nat \<Rightarrow> int \<Rightarrow> dbl \<Rightarrow> dbl \<Rightarrow> dbl \<Rightarrow> dbl \<Rightarrow> bench_result" where
  "bench_result_of nworkers opt mdim run t0 t1 t2 t_compute_max =
     (let t_scatter = elapsed_ms t0 t1; t_gather = elapsed_ms t1 t2; t_round = elapsed_ms t0 t2;
          t_comm = d_sub t_round t_compute_max in
      \<lparr>br_matrix_size = mdim, br_num_workers = nworkers, br_encrypted = b_encrypt opt, br_run = run,
       br_t_scatter_ms = t_scatter, br_t_compute_max_ms = t_compute_max, br_t_gather_ms = t_gather,
       br_t_round_ms = t_round, br_t_comm_ms = t_comm\<rparr>)"

definition bench_run ::
  "crypto \<Rightarrow> 'e mpi \<Rightarrow> links \<Rightarrow> nat \<Rightarrow> bench_options \<Rightarrow> nat \<Rightarrow> dbl list \<Rightarrow> dbl list \<Rightarrow> int \<Rightarrow> bench_state \<times> dbl list
    \<Rightarrow> ('e world, bench_state \<times> dbl list) prog" where
  "bench_run C M L nworkers opt mdim A B run s =
     (let encrypt = b_encrypt opt in
      bindP (mpi_wtime M) (\<lambda>t0.
      bindP (loopP (bench_scatter C M L nworkers encrypt mdim A B) [0..<nworkers] (bn_ms (fst s))) (\<lambda>m.
      bindP (mpi_wtime M) (\<lambda>t1.
      bindP (loopP (bench_collect C M L nworkers encrypt mdim) [0..<nworkers] (m, snd s, 0)) (\<lambda>(m, Cm, t_compute_max).
      bindP (mpi_wtime M) (\<lambda>t2.
      bindP (if b_verify opt \<and> run = b_num_runs opt
             then loopP (bench_check_worker mdim nworkers A B Cm) [0..<nworkers] ()
             else ret ()) (\<lambda>_.
      ret (\<lparr>bn_ms = m,
            bn_results = bench_record (bench_result_of nworkers opt mdim run t0 t1 t2 t_compute_max) (bn_results (fst s))\<rparr>,
           Cm))))))))"

section \<open>One matrix dimension\<close>

definition bench_send_command ::
  "crypto \<Rightarrow> 'e mpi \<Rightarrow> links \<Rightarrow> nat \<Rightarrow> bench_options \<Rightarrow> nat \<Rightarrow> nat \<Rightarrow> master_state \<Rightarrow> ('e world, master_state) prog" where
  "bench_send_command C M L nworkers opt mdim w m =
     secure_to C M L TAG_BENCH_CMD (encode_bench_cmd (bench_command opt nworkers mdim w)) w m"

definition bench_size ::
  "crypto \<Rightarrow> 'e mpi \<Rightarrow> libc_rand \<Rightarrow> links \<Rightarrow> nat \<Rightarrow> bench_options \<Rightarrow> int \<Rightarrow> bench_state
    \<Rightarrow> ('e world, bench_state) prog" where
  "bench_size C M R L nworkers opt size_opt s =
     (let mdim = nat size_opt; mat_elems = mdim * mdim in
      if mdim mod nworkers \<noteq> 0 then ret s
      else if mat_elems > INT_MAX then ret s
      else
        bindP (on_env (m_malloc M (mat_elems * 8))) (\<lambda>ok_a.
        bindP (on_env (m_malloc M (mat_elems * 8))) (\<lambda>ok_b.
        bindP (on_env (m_malloc M (mat_elems * 8))) (\<lambda>ok_c.
        if \<not> ok_a \<or> \<not> ok_b \<or> \<not> ok_c then ret s
        else
          let (A, B) = bench_matrices R mdim in
          bindP (loopP (bench_send_command C M L nworkers opt mdim) [0..<nworkers] (bn_ms s)) (\<lambda>m.
          bindP (loopP (bench_run C M L nworkers opt mdim A B) [1..b_num_runs opt]
                   (s\<lparr>bn_ms := m\<rparr>, replicate mat_elems 0)) (\<lambda>(s, Cm).
          ret s))))))"

section \<open>The result file\<close>

definition bench_csv_row :: "bench_result \<Rightarrow> string" where
  "bench_csv_row r =
     dec_nat (br_matrix_size r) @ '','' @ dec_nat (br_num_workers r) @ '','' @
     (if br_encrypted r then ''encrypted'' else ''plaintext'') @ '','' @ dec_int (br_run r) @ '','' @
     fixed 3 (br_t_scatter_ms r) @ '','' @ fixed 3 (br_t_compute_max_ms r) @ '','' @
     fixed 3 (br_t_gather_ms r) @ '','' @ fixed 3 (br_t_round_ms r) @ '','' @ fixed 3 (br_t_comm_ms r)"

definition bench_csv_lines ::
  "'e os \<Rightarrow> string \<Rightarrow> bool \<Rightarrow> bench_options \<Rightarrow> dbl \<Rightarrow> dbl list \<Rightarrow> bench_result list \<Rightarrow> string list" where
  \<comment> \<open>without the newlines; the dash of the title is three UTF-8 bytes\<close>
  "bench_csv_lines S build_id skip_attestation opt t_enroll_total enroll_ms results =
     [''# MPI+SEV-SNP Star Topology '' @ [CHR 0xE2, CHR 0x80, CHR 0x94] @ '' DGEMM Benchmark'',
      ''# build_id: '' @ build_id,
      ''# artifact_id: '' @ env_or S ''PPDPC_ARTIFACT_ID'' ''unversioned'',
      ''# placement_id: '' @ env_or S ''PPDPC_PLACEMENT_ID'' ''unverified'',
      (if skip_attestation then ''# attestation: skipped'' else ''# attestation: enabled''),
      ''# data_encryption: '' @ (if b_encrypt opt then ''AEAD'' else ''plaintext''),
      ''# result_verification: '' @ (if b_verify opt then ''one-row-per-partition-final-run'' else ''disabled''),
      ''# runs_per_size: '' @ dec_int (b_num_runs opt),
      ''# enrollment_total_ms: '' @ fixed 1 t_enroll_total] @
     map (\<lambda>(w, ms). ''# enrollment_worker'' @ dec_nat (w + 1) @ ''_ms: '' @ fixed 1 ms)
       (zip [0..<length enroll_ms] enroll_ms) @
     [''#'', ''matrix_size,num_workers,encryption,run,t_scatter_ms,t_compute_max_ms,t_gather_ms,t_round_ms,t_comm_ms''] @
     map bench_csv_row results"

section \<open>main\<close>

definition bench_send_done ::
  "crypto \<Rightarrow> 'e mpi \<Rightarrow> links \<Rightarrow> nat \<Rightarrow> master_state \<Rightarrow> ('e world, master_state) prog" where
  "bench_send_done C M L w m =
     bindP (secure_to C M L TAG_BENCH_CMD (encode_bench_cmd (bench_cmd_zero\<lparr>bc_cmd := CMD_BENCH_DONE\<rparr>)) w m) (\<lambda>m.
     bindP (npb_mpi_disconnect M (lk_workers L ! w)) (\<lambda>_. ret m))"

definition bench_init :: bench_state where
  "bench_init = \<lparr>bn_ms = \<lparr>ms_send_nonce_ctr = replicate MAX_WORKERS 0, ms_recv_nonce_ctr = replicate MAX_WORKERS 0,
     ms_results = []\<rparr>, bn_results = []\<rparr>"

definition bench_sizes ::
  "crypto \<Rightarrow> 'e mpi \<Rightarrow> libc_rand \<Rightarrow> links \<Rightarrow> nat \<Rightarrow> bench_options \<Rightarrow> ('e world, bench_state) prog" where
  "bench_sizes C M R L nworkers opt = loopP (bench_size C M R L nworkers opt) (b_sizes opt) bench_init"

definition bench_central ::
  "'e node \<Rightarrow> libc_rand \<Rightarrow> string \<Rightarrow> bench_options \<Rightarrow> enrolled \<Rightarrow> dbl \<Rightarrow> ('e world, int) prog" where
  \<comment> \<open>after a complete enrolment\<close>
  "bench_central N R build_id opt en t_enroll_total =
     (let M = nd_mpi N; C = nd_crypto N; L = en_links en; nworkers = length (lk_workers L) in
      bindP (bench_sizes C M R L nworkers opt) (\<lambda>s.
      bindP (loopP (bench_send_done C M L) [0..<nworkers] (bn_ms s)) (\<lambda>_.
      bindP (on_os (write_csv (nd_os N) (b_csv_file opt)
               (bench_csv_lines (nd_os N) build_id (nd_skip_attestation N) opt t_enroll_total (en_ms en) (bn_results s))))
        (\<lambda>output_ok.
      bindP (npb_mpi_finalize M) (\<lambda>_.
      ret (if output_ok = Some True then 0 else 1))))))"

definition bench_main ::
  "nat \<Rightarrow> 'e node \<Rightarrow> libc_rand \<Rightarrow> string \<Rightarrow> string list \<Rightarrow> ('e world, int) prog" where
  "bench_main fuel N R build_id args =
     (case bench_command_line (nd_skip_attestation N) args of
        None \<Rightarrow> ret 2
      | Some opt \<Rightarrow>
          let M = nd_mpi N; C = nd_crypto N in
          bindP (npb_mpi_init M) (\<lambda>_.
          bindP (on_env (nd_sodium_init N)) (\<lambda>sodium_ok.
          if \<not> sodium_ok then halt 1
          else
            bindP (on_os (load_secret_key (nd_os N) ''PPDPC_OWNER_SIGN_SK_FILE'' 64)) (\<lambda>key.
            case key of
              None \<Rightarrow> halt 1
            | Some owner_sign_sk \<Rightarrow>
                bindP (mpi_wtime M) (\<lambda>t_enroll_start.
                bindP (enroll_workers fuel N owner_sign_sk (nat (b_target opt))) (\<lambda>en.
                bindP (mpi_wtime M) (\<lambda>t_enroll_end.
                let nworkers = length (lk_workers (en_links en)) in
                if nworkers \<noteq> nat (b_target opt) then
                  bindP (loopP (bench_send_done C M (en_links en)) [0..<nworkers] (bn_ms bench_init)) (\<lambda>_.
                  bindP (npb_mpi_finalize M) (\<lambda>_. ret 1))
                else bench_central N R build_id opt en (elapsed_ms t_enroll_start t_enroll_end))))))))"

section \<open>What a run does to the state\<close>

lemma matrix_to_quiet:
  "matrix_to C M L encrypt tag data w m v = Done m' v' \<Longrightarrow> quiet m m'"
  using ctr_succ
  by (fastforce simp: matrix_to_def master_send_matrix_def quiet_def ms_le_def ctr_update_le
      split: if_splits option.splits)

lemma matrix_from_quiet:
  "matrix_from C M L encrypt tag n w m v = Done (Some (d, m')) v' \<Longrightarrow> quiet m m'"
  by (auto simp: matrix_from_def quiet_def ms_le_def)

lemma bench_scatter_quiet:
  "bench_scatter C M L n encrypt mdim A B w m v = Done m' v' \<Longrightarrow> quiet m m'"
  by (auto simp: bench_scatter_def dest!: matrix_to_quiet intro: quiet_trans)

lemma bench_collect_quiet:
  assumes "bench_collect C M L n encrypt mdim i s w = Done s' w'"
  shows "quiet (fst s) (fst s')"
  using assms by (auto simp: bench_collect_def Let_def split: option.splits if_splits prod.splits
      dest!: from_quietD matrix_from_quiet) (blast intro: quiet_trans)+

lemma bench_collect_time:
  assumes "bench_collect C M L n encrypt mdim i s w = Done s' w'" and "time_ok (snd (snd s))"
  shows "time_ok (snd (snd s'))"
  using assms by (auto simp: bench_collect_def Let_def time_ok_def split: option.splits if_splits prod.splits)

lemma bench_checks_passed:
  assumes "loopP (bench_check_worker mdim n A B Cm) is u w = Done u' w'"
  shows "\<forall>i \<in> set is. verify_row A B Cm mdim (bench_checked_row mdim n i) = 0"
  using assms by (induction "is" arbitrary: u w) (auto simp: bench_check_worker_def split: if_splits)

text \<open>A run that returns has one more result; a checked run has checked a row of each worker.\<close>

definition bench_good :: "nat \<Rightarrow> bench_options \<Rightarrow> nat \<Rightarrow> int \<Rightarrow> bench_result \<Rightarrow> bool" where
  "bench_good nworkers opt mdim run r \<longleftrightarrow> br_matrix_size r = mdim \<and> br_num_workers r = nworkers \<and>
     br_encrypted r = b_encrypt opt \<and> br_run r = run \<and> time_ok (br_t_compute_max_ms r)"

lemma bench_run_phases:
  fixes M :: "'e mpi"
  assumes "bench_run C M L n opt mdim A B run s w = Done s' w'"
  shows "\<exists>v1 m1 v2 v3 m2 Cm t v4 (v5 :: 'e world) u v6 t0 t1 t2.
    loopP (bench_scatter C M L n (b_encrypt opt) mdim A B) [0..<n] (bn_ms (fst s)) v1 = Done m1 v2 \<and>
    loopP (bench_collect C M L n (b_encrypt opt) mdim) [0..<n] (m1, snd s, 0) v3 = Done (m2, Cm, t) v4 \<and>
    (if b_verify opt \<and> run = b_num_runs opt
     then loopP (bench_check_worker mdim n A B Cm) [0..<n] () else ret ()) v5 = Done u v6 \<and>
    s' = (\<lparr>bn_ms = m2, bn_results = bench_record (bench_result_of n opt mdim run t0 t1 t2 t) (bn_results (fst s))\<rparr>, Cm)"
proof -
  from assms obtain t0 v1 m1 v2 t1 v3 g v4 where
    1: "loopP (bench_scatter C M L n (b_encrypt opt) mdim A B) [0..<n] (bn_ms (fst s)) v1 = Done m1 v2" and
    g: "loopP (bench_collect C M L n (b_encrypt opt) mdim) [0..<n] (m1, snd s, 0) v3 = Done g v4" and
    k: "(case g of (m, Cm, t_compute_max) \<Rightarrow>
      bindP (mpi_wtime M) (\<lambda>t2.
      bindP (if b_verify opt \<and> run = b_num_runs opt
             then loopP (bench_check_worker mdim n A B Cm) [0..<n] ()
             else ret ()) (\<lambda>_.
      ret (\<lparr>bn_ms = m,
            bn_results = bench_record (bench_result_of n opt mdim run t0 t1 t2 t_compute_max) (bn_results (fst s))\<rparr>,
           Cm)))) v4 = Done s' w'"
    unfolding bench_run_def Let_def by (elim bindP_DoneE)
  obtain m2 Cm t where g': "g = (m2, Cm, t)" by (cases g)
  note 2 = g [unfolded g']
  from k obtain t2 v5 u v6 where
    3: "(if b_verify opt \<and> run = b_num_runs opt
         then loopP (bench_check_worker mdim n A B Cm) [0..<n] () else ret ()) v5 = Done u v6" and
    r: "ret (\<lparr>bn_ms = m2, bn_results = bench_record (bench_result_of n opt mdim run t0 t1 t2 t) (bn_results (fst s))\<rparr>, Cm)
          v6 = Done s' w'"
    unfolding g' prod.case by (elim bindP_DoneE)
  from r have 4: "s' = (\<lparr>bn_ms = m2, bn_results = bench_record (bench_result_of n opt mdim run t0 t1 t2 t) (bn_results (fst s))\<rparr>, Cm)"
    by simp
  show ?thesis by (intro exI conjI) (rule 1, rule 2, rule 3, rule 4)
qed

lemma bench_run_done:
  fixes M :: "'e mpi"
  assumes "bench_run C M L n opt mdim A B run s w = Done s' w'"
  shows "quiet (bn_ms (fst s)) (bn_ms (fst s')) \<and>
    (length (bn_results (fst s)) < MAX_BENCH_RESULTS \<longrightarrow>
      (\<exists>r. bn_results (fst s') = bn_results (fst s) @ [r] \<and> bench_good n opt mdim run r)) \<and>
    (b_verify opt \<and> run = b_num_runs opt \<longrightarrow>
      (\<forall>i < n. verify_row A B (snd s') mdim (bench_checked_row mdim n i) = 0))"
proof -
  from bench_run_phases [OF assms] obtain v1 m1 v2 v3 m2 Cm t v4 and v5 :: "'e world" and u v6 t0 t1 t2 where
    1: "loopP (bench_scatter C M L n (b_encrypt opt) mdim A B) [0..<n] (bn_ms (fst s)) v1 = Done m1 v2" and
    2: "loopP (bench_collect C M L n (b_encrypt opt) mdim) [0..<n] (m1, snd s, 0) v3 = Done (m2, Cm, t) v4" and
    3: "(if b_verify opt \<and> run = b_num_runs opt
         then loopP (bench_check_worker mdim n A B Cm) [0..<n] () else ret ()) v5 = Done u v6" and
    4: "s' = (\<lparr>bn_ms = m2, bn_results = bench_record (bench_result_of n opt mdim run t0 t1 t2 t) (bn_results (fst s))\<rparr>, Cm)"
    by blast
  have "quiet (bn_ms (fst s)) m1" using 1 by (rule loopP_quiet) (rule bench_scatter_quiet)
  moreover have "quiet m1 m2" using loopP_quiet_fst [OF 2 bench_collect_quiet] by simp
  moreover have "time_ok t"
    using loopP_inv [OF 2, of "\<lambda>s w. time_ok (snd (snd s))"] bench_collect_time by fastforce
  moreover have "\<forall>i < n. verify_row A B Cm mdim (bench_checked_row mdim n i) = 0"
    if "b_verify opt \<and> run = b_num_runs opt" 
  proof -
    from 3 that have "loopP (bench_check_worker mdim n A B Cm) [0..<n] () v5 = Done u v6" by (simp del: bindP_ret)
    from bench_checks_passed [OF this] show ?thesis by simp
  qed
  ultimately show ?thesis
    by (auto simp: 4 bench_record_def bench_good_def bench_result_of_def Let_def intro: quiet_trans)
qed

lemma bench_runs_done:
  assumes "loopP (bench_run C M L n opt mdim A B) is s w = Done s' w'"
    and "length (bn_results (fst s)) + length is \<le> MAX_BENCH_RESULTS"
  shows "quiet (bn_ms (fst s)) (bn_ms (fst s')) \<and>
    (\<exists>rs. bn_results (fst s') = bn_results (fst s) @ rs \<and> list_all2 (bench_good n opt mdim) is rs)"
  using assms
proof (induction "is" arbitrary: s w)
  case (Cons i "is")
  from Cons.prems(1) obtain t v where b: "bench_run C M L n opt mdim A B i s w = Done t v"
    and l: "loopP (bench_run C M L n opt mdim A B) is t v = Done s' w'" by auto
  from bench_run_done [OF b] Cons.prems(2) obtain r where
    q: "quiet (bn_ms (fst s)) (bn_ms (fst t))" and r: "bn_results (fst t) = bn_results (fst s) @ [r]" "bench_good n opt mdim i r"
    by auto
  have "length (bn_results (fst t)) + length is \<le> MAX_BENCH_RESULTS" using Cons.prems(2) r(1) by simp
  from Cons.IH [OF l this] obtain rs where "quiet (bn_ms (fst t)) (bn_ms (fst s'))"
    "bn_results (fst s') = bn_results (fst t) @ rs" "list_all2 (bench_good n opt mdim) is rs" by blast
  with q r show ?case by (auto intro: quiet_trans)
qed simp

text \<open>A dimension is passed over, or each of its runs has its result.\<close>

definition mallocs_succeed :: "'e mpi \<Rightarrow> bool" where
  "mallocs_succeed M \<longleftrightarrow> (\<forall>k e. fst (m_malloc M k e))"

definition bench_part :: "'e mpi \<Rightarrow> nat \<Rightarrow> bench_options \<Rightarrow> nat \<Rightarrow> bench_result list \<Rightarrow> bool" where
  "bench_part M nworkers opt mdim rs \<longleftrightarrow>
     rs = [] \<and> (mallocs_succeed M \<longrightarrow> \<not> nworkers dvd mdim) \<or>
     nworkers dvd mdim \<and> list_all2 (bench_good nworkers opt mdim) [1..b_num_runs opt] rs"

lemma bench_send_command_quiet: "bench_send_command C M L n opt mdim w m v = Done m' v' \<Longrightarrow> quiet m m'"
  by (auto simp: bench_send_command_def dest: to_quietD)

lemma bench_size_done:
  assumes "bench_size C M R L n opt sz s w = Done s' w'"
    and "length (bn_results s) + nat (b_num_runs opt) \<le> MAX_BENCH_RESULTS" and "sz \<le> 8192"
  shows "quiet (bn_ms s) (bn_ms s') \<and>
    (\<exists>rs. bn_results s' = bn_results s @ rs \<and> bench_part M n opt (nat sz) rs)"
proof (cases "nat sz mod n = 0")
  case False
  with assms(1) show ?thesis by (auto simp: bench_size_def bench_part_def dvd_eq_mod_eq_0)
next
  case True
  have "nat sz * nat sz \<le> 8192 * 8192" using assms(3) by (intro mult_le_mono) simp_all
  then have small: "\<not> nat sz * nat sz > INT_MAX" by (simp add: INT_MAX_def)
  obtain A B where AB: "bench_matrices R (nat sz) = (A, B)" by fastforce
  from assms(1) True small obtain ok_a v1 ok_b v2 ok_c v3 where
    a: "on_env (m_malloc M (nat sz * nat sz * 8)) w = Done ok_a v1"
    and b: "on_env (m_malloc M (nat sz * nat sz * 8)) v1 = Done ok_b v2"
    and c: "on_env (m_malloc M (nat sz * nat sz * 8)) v2 = Done ok_c v3"
    and k: "(if \<not> ok_a \<or> \<not> ok_b \<or> \<not> ok_c then ret s
        else
          bindP (loopP (bench_send_command C M L n opt (nat sz)) [0..<n] (bn_ms s)) (\<lambda>m.
          bindP (loopP (bench_run C M L n opt (nat sz) A B) [1..b_num_runs opt]
                   (s\<lparr>bn_ms := m\<rparr>, replicate (nat sz * nat sz) 0)) (\<lambda>(s, Cm).
          ret s))) v3 = Done s' w'"
    unfolding bench_size_def Let_def AB prod.case by (simp del: not_less) (elim bindP_DoneE)
  show ?thesis
  proof (cases "ok_a \<and> ok_b \<and> ok_c")
    case False
    have "\<not> mallocs_succeed M"
      using a b c False by (auto simp: mallocs_succeed_def on_env_def split: prod.splits) (metis fst_conv)+
    with k False show ?thesis by (auto simp: bench_part_def)
  next
    case ok: True
    with k obtain m v4 t Cm v5 where
      1: "loopP (bench_send_command C M L n opt (nat sz)) [0..<n] (bn_ms s) v3 = Done m v4" and
      2: "loopP (bench_run C M L n opt (nat sz) A B) [1..b_num_runs opt]
            (s\<lparr>bn_ms := m\<rparr>, replicate (nat sz * nat sz) 0) v4 = Done (t, Cm) v5" and s': "s' = t"
      by (auto split: prod.splits)
    have q: "quiet (bn_ms s) m" using 1 by (rule loopP_quiet) (rule bench_send_command_quiet)
    have "length (bn_results (fst (s\<lparr>bn_ms := m\<rparr>, replicate (nat sz * nat sz) (0 :: dbl)))) + length [1..b_num_runs opt]
        \<le> MAX_BENCH_RESULTS" using assms(2) by simp
    from bench_runs_done [OF 2 this] obtain rs where "quiet m (bn_ms t)"
      "bn_results t = bn_results s @ rs" "list_all2 (bench_good n opt (nat sz)) [1..b_num_runs opt] rs" by auto
    with q True s' show ?thesis unfolding bench_part_def by (auto simp: dvd_eq_mod_eq_0 intro: quiet_trans)
  qed
qed

lemma bench_part_length: "bench_part M n opt mdim rs \<Longrightarrow> length rs \<le> nat (b_num_runs opt)"
  by (auto simp: bench_part_def dest: list_all2_lengthD)

lemma bench_sizes_done:
  assumes "loopP (bench_size C M R L n opt) szs s w = Done s' w'"
    and "length (bn_results s) + nat (b_num_runs opt) * length szs \<le> MAX_BENCH_RESULTS"
    and "list_all (\<lambda>sz. sz \<le> 8192) szs"
  shows "quiet (bn_ms s) (bn_ms s') \<and> (\<exists>parts. bn_results s' = bn_results s @ concat parts \<and>
    list_all2 (\<lambda>sz. bench_part M n opt (nat sz)) szs parts)"
  using assms
proof (induction szs arbitrary: s w)
  case Nil
  then show ?case by (auto intro: exI [of _ "[]"])
next
  case (Cons sz szs)
  from Cons.prems(1) obtain t v where b: "bench_size C M R L n opt sz s w = Done t v"
    and l: "loopP (bench_size C M R L n opt) szs t v = Done s' w'" by auto
  have "length (bn_results s) + nat (b_num_runs opt) \<le> MAX_BENCH_RESULTS" "sz \<le> 8192"
    using Cons.prems(2,3) by (simp_all add: algebra_simps)
  from bench_size_done [OF b this] obtain rs where q: "quiet (bn_ms s) (bn_ms t)"
    and rs: "bn_results t = bn_results s @ rs" "bench_part M n opt (nat sz) rs" by blast
  have "length (bn_results t) + nat (b_num_runs opt) * length szs \<le> MAX_BENCH_RESULTS"
    using Cons.prems(2) rs bench_part_length [OF rs(2)] by (simp add: algebra_simps)
  from Cons.IH [OF l this] Cons.prems(3) obtain parts where "quiet (bn_ms t) (bn_ms s')"
    "bn_results s' = bn_results t @ concat parts" "list_all2 (\<lambda>sz. bench_part M n opt (nat sz)) szs parts" by auto
  with q rs show ?case by (intro conjI exI [of _ "rs # parts"]) (auto intro: quiet_trans)
qed

text \<open>The dimensions that were run, in order.\<close>

lemma good_runs: "list_all2 (bench_good n opt mdim) is rs \<Longrightarrow>
    map (\<lambda>r. (br_matrix_size r, br_run r)) rs = map (Pair mdim) is"
  by (induction rule: list_all2_induct) (simp_all add: bench_good_def)

lemma parts_ran:
  assumes "list_all2 (\<lambda>sz. bench_part M n opt (nat sz)) szs parts"
  shows "\<exists>ran. subseq ran (filter (\<lambda>d. n dvd d) (map nat szs)) \<and>
    map (\<lambda>r. (br_matrix_size r, br_run r)) (concat parts) = concat (map (\<lambda>d. map (Pair d) [1..b_num_runs opt]) ran) \<and>
    (mallocs_succeed M \<longrightarrow> ran = filter (\<lambda>d. n dvd d) (map nat szs))"
  using assms
proof (induction rule: list_all2_induct)
  case Nil
  then show ?case by (intro exI [of _ "[]"]) simp
next
  case (Cons sz szs rs parts)
  from Cons.IH obtain ran where ran: "subseq ran (filter (\<lambda>d. n dvd d) (map nat szs))"
    "map (\<lambda>r. (br_matrix_size r, br_run r)) (concat parts) = concat (map (\<lambda>d. map (Pair d) [1..b_num_runs opt]) ran)"
    "mallocs_succeed M \<longrightarrow> ran = filter (\<lambda>d. n dvd d) (map nat szs)" by blast
  show ?case
  proof (cases "n dvd nat sz \<and> list_all2 (bench_good n opt (nat sz)) [1..b_num_runs opt] rs")
    case True
    then show ?thesis using ran good_runs [of n opt "nat sz" _ rs]
      by (intro exI [of _ "nat sz # ran"]) simp
  next
    case False
    with Cons.hyps(1) have "rs = []" "mallocs_succeed M \<longrightarrow> \<not> n dvd nat sz" by (auto simp: bench_part_def)
    then show ?thesis using ran by (intro exI [of _ ran]) auto
  qed
qed

text \<open>
  C21: Whatever the workers send, a benchmark whose measurements end at all has recorded, for dimensions
  that the number of workers divides, in the order of the command line, exactly one result for each run,
  in order, under the options of the command line and with a finite non-negative compute time; no
  dimension that can be divided is left out unless memory is exhausted, the result store is never full,
  and no send counter has gone back.
\<close>

theorem bench_results_recorded:
  assumes "bench_options_valid skip opt"
  shows "on_done (\<lambda>s. ms_le (bn_ms bench_init) (bn_ms s) \<and>
      list_all (\<lambda>r. bench_good nworkers opt (br_matrix_size r) (br_run r) r) (bn_results s) \<and>
      (\<exists>ran. subseq ran (filter (\<lambda>d. nworkers dvd d) (map nat (b_sizes opt))) \<and>
        map (\<lambda>r. (br_matrix_size r, br_run r)) (bn_results s) =
          concat (map (\<lambda>d. map (Pair d) [1..b_num_runs opt]) ran) \<and>
        (mallocs_succeed M \<longrightarrow> ran = filter (\<lambda>d. nworkers dvd d) (map nat (b_sizes opt)))))
    (bench_sizes C M R L nworkers opt w)"
proof (rule on_doneI)
  fix s w'
  assume run: "bench_sizes C M R L nworkers opt w = Done s w'"
  have v: "nat (b_num_runs opt) \<le> 1000" "length (b_sizes opt) \<le> 32" "list_all (\<lambda>sz. sz \<le> 8192) (b_sizes opt)"
    using assms by (auto simp: bench_options_valid_def list_all_iff)
  have z: "bn_results bench_init = []" by (simp add: bench_init_def)
  have "nat (b_num_runs opt) * length (b_sizes opt) \<le> 1000 * 32" by (rule mult_le_mono [OF v(1,2)])
  then have room: "length (bn_results bench_init) + nat (b_num_runs opt) * length (b_sizes opt) \<le> MAX_BENCH_RESULTS"
    by (simp add: z)
  from bench_sizes_done [OF run [unfolded bench_sizes_def] room v(3)] obtain parts where
    q: "quiet (bn_ms bench_init) (bn_ms s)" and p: "bn_results s = concat parts"
    "list_all2 (\<lambda>sz. bench_part M nworkers opt (nat sz)) (b_sizes opt) parts" by (auto simp: z)
  have "bench_good nworkers opt (br_matrix_size r) (br_run r) r" if "r \<in> set (concat parts)" for r
  proof -
    from that obtain rs where rs: "rs \<in> set parts" "r \<in> set rs" by auto
    with p(2) obtain sz where "bench_part M nworkers opt (nat sz) rs"
      by (auto simp: list_all2_conv_all_nth in_set_conv_nth)
    with rs(2) obtain d i where "bench_good nworkers opt d i r"
      by (auto simp: bench_part_def list_all2_conv_all_nth in_set_conv_nth)
    then show ?thesis by (simp add: bench_good_def)
  qed
  with q p(1) parts_ran [OF p(2)] show "ms_le (bn_ms bench_init) (bn_ms s) \<and>
      list_all (\<lambda>r. bench_good nworkers opt (br_matrix_size r) (br_run r) r) (bn_results s) \<and>
      (\<exists>ran. subseq ran (filter (\<lambda>d. nworkers dvd d) (map nat (b_sizes opt))) \<and>
        map (\<lambda>r. (br_matrix_size r, br_run r)) (bn_results s) =
          concat (map (\<lambda>d. map (Pair d) [1..b_num_runs opt]) ran) \<and>
        (mallocs_succeed M \<longrightarrow> ran = filter (\<lambda>d. nworkers dvd d) (map nat (b_sizes opt))))"
    by (auto simp: quiet_def list_all_iff)
qed

theorem bench_results_recorded_witness:
  "on_done (\<lambda>s. ms_le (bn_ms bench_init) (bn_ms s))
     (bench_sizes demo_crypto fifo_mpi demo_rand
       \<lparr>lk_workers = [0], lk_tx_keys = [[]], lk_rx_keys = [[]], lk_bindings = [[]]\<rparr> 1
       (bench_defaults\<lparr>b_sizes := [2, 3]\<rparr>) (wait_init, ([], [])))"
proof -
  have "bench_options_valid False (bench_defaults\<lparr>b_sizes := [2, 3]\<rparr>)"
    by (simp add: bench_options_valid_def bench_defaults_def)
  from bench_results_recorded [OF this, of 1 fifo_mpi demo_crypto demo_rand
      "\<lparr>lk_workers = [0], lk_tx_keys = [[]], lk_rx_keys = [[]], lk_bindings = [[]]\<rparr>" "(wait_init, ([], []))"]
  show ?thesis by (auto simp: on_done_def split: outcome.splits)
qed

text \<open>
  C22: With \<open>--verify\<close>, a last run of a dimension that ends has, in the row that is checked of every
  worker's block, only cells that are no number, whose expected value is not finite, or that differ from
  it in exact arithmetic by less than 2^-27 of its absolute value or of 1, the greater of the two; whatever
  the workers send and however the roundings of the check fall.
\<close>

theorem bench_last_run_verified:
  assumes "b_verify opt"
  shows "on_done (\<lambda>s. list_all (\<lambda>i. row_close A B (snd s) mdim (bench_checked_row mdim n i)) [0..<n])
    (bench_run C M L n opt mdim A B (b_num_runs opt) s w)"
  using assms by (intro on_doneI) (auto simp: list_all_iff dest!: bench_run_done intro: verified_row_close)

theorem bench_last_run_verified_witness:
  "on_done (\<lambda>s. list_all (\<lambda>i. row_close [3, 4, 5, 6] [1, 2, 3, 4] (snd s) 2 (bench_checked_row 2 1 i)) [0..<1])
    (bench_run demo_crypto fifo_mpi \<lparr>lk_workers = [0], lk_tx_keys = [[]], lk_rx_keys = [[]], lk_bindings = [[]]\<rparr> 1
       (bench_defaults\<lparr>b_verify := True\<rparr>) 2 [3, 4, 5, 6] [1, 2, 3, 4] (b_num_runs (bench_defaults\<lparr>b_verify := True\<rparr>))
       (bench_init, [0, 0, 0, 0]) (wait_init, ([], [])))"
  by (rule bench_last_run_verified) simp

end
