(* ===== verification/Bench_Worker.thy ===== *)
theory Bench_Worker
  imports Bench_Channel Enrollment
begin

text \<open>
  The worker of the DGEMM benchmark (src/worker_bench.c): the loop that receives commands, checks
  their bounds and answers each run with the product of the matrices received, and \<open>main\<close>. Its
  enrolment is that of the NPB worker, word for word (\<open>worker_enroll\<close>).
\<close>

definition bench_worker_run ::
  "crypto \<Rightarrow> 'e mpi \<Rightarrow> comm \<Rightarrow> nat \<Rightarrow> nat \<Rightarrow> bool \<Rightarrow> int \<Rightarrow> worker_chan \<Rightarrow> ('e world, worker_chan) prog" where
  "bench_worker_run C M icomm m row_count enc run g =
     bindP (worker_recv_matrix C M icomm g (int (row_count * m)) TAG_BENCH_A enc) (\<lambda>r.
     case r of
       None \<Rightarrow> halt 1
     | Some (A_block, g) \<Rightarrow>
         bindP (worker_recv_matrix C M icomm g (int (m * m)) TAG_BENCH_B enc) (\<lambda>r.
         case r of
           None \<Rightarrow> halt 1
         | Some (B, g) \<Rightarrow>
             bindP (mpi_wtime M) (\<lambda>t0.
             let C_block = ppdpc_dgemm A_block B row_count m m in
             bindP (mpi_wtime M) (\<lambda>t1.
             bindP (worker_send_matrix C M icomm g C_block TAG_BENCH_C enc) (\<lambda>g.
             worker_workload_send_small C M icomm g (le_enc 8 (elapsed_ms t0 t1)) TAG_BENCH_TIME enc)))))"

definition allocate_matrix :: "'e mpi \<Rightarrow> nat \<Rightarrow> ('e world, bool) prog" where
  "allocate_matrix M elements =
     (if elements > SIZE_MAX div 8 then ret False else on_env (m_malloc M (elements * 8)))"

definition serve_bench ::
  "crypto \<Rightarrow> 'e mpi \<Rightarrow> comm \<Rightarrow> bench_cmd \<Rightarrow> worker_chan \<Rightarrow> ('e world, (worker_chan, worker_chan) flow) prog" where
  "serve_bench C M icomm cmd g =
     (if bc_cmd cmd = CMD_BENCH_DONE then ret (Exit g)
      else if bc_cmd cmd \<noteq> CMD_BENCH_SIZE then ret (Exit g)
      else if \<not> bench_cmd_ok cmd then ret (Exit g)
      else
        let m = nat (sint (bc_matrix_size cmd)); row_count = nat (sint (bc_row_count cmd)) in
        if row_count * m > INT_MAX \<or> m * m > INT_MAX then ret (Exit g)
        else
          bindP (allocate_matrix M (row_count * m)) (\<lambda>ok_a.
          bindP (allocate_matrix M (m * m)) (\<lambda>ok_b.
          bindP (allocate_matrix M (row_count * m)) (\<lambda>ok_c.
          if \<not> ok_a \<or> \<not> ok_b \<or> \<not> ok_c then halt 1
          else
            bindP (loopP (bench_worker_run C M icomm m row_count (bc_encrypt_data cmd \<noteq> 0))
                     [1..sint (bc_num_runs cmd)] g) (\<lambda>g. ret (Next g))))))"

definition bench_worker_step ::
  "crypto \<Rightarrow> 'e mpi \<Rightarrow> comm \<Rightarrow> worker_chan \<Rightarrow> ('e world, (worker_chan, worker_chan) flow) prog" where
  "bench_worker_step C M icomm g =
     bindP (worker_secure_recv C M icomm g 24 TAG_BENCH_CMD) (\<lambda>r.
     case r of
       None \<Rightarrow> ret (Exit g)
     | Some (bs, g) \<Rightarrow> serve_bench C M icomm (decode_bench_cmd bs) g)"

definition bench_worker_main :: "nat \<Rightarrow> 'e node \<Rightarrow> nat \<Rightarrow> ('e world, int) prog" where
  \<comment> \<open>fuel bounds the lookups, the waits for children and the commands served\<close>
  "bench_worker_main fuel N argc =
     (let M = nd_mpi N; C = nd_crypto N in
      bindP (npb_mpi_init M) (\<lambda>_.
      if argc \<noteq> 1 then die_mpi M MPI_ERR_ARG
      else
        bindP (on_env (nd_sodium_init N)) (\<lambda>sodium_ok.
        if \<not> sodium_ok then halt 1
        else
          bindP (on_os (load_public_key (nd_os N) 32)) (\<lambda>key.
          case key of
            None \<Rightarrow> halt 1
          | Some owner_sign_pk \<Rightarrow>
              bindP (on_wait (npb_wait_begin (m_wait M) NPB_WAIT_ENROLLMENT)) (\<lambda>_.
              bindP (bench_connect_worker fuel (nd_rdv N)) (\<lambda>(rc, connected).
              if rc \<noteq> MPI_SUCCESS then die_mpi M rc
              else
                let icomm = (case connected of None \<Rightarrow> 0 | Some c \<Rightarrow> c) in
                bindP (worker_enroll fuel N owner_sign_pk icomm) (\<lambda>enrolled.
                case enrolled of
                  None \<Rightarrow> ret 1
                | Some g \<Rightarrow>
                    bindP (whileX fuel (bench_worker_step C M icomm) g) (\<lambda>_.
                    bindP (npb_mpi_disconnect M icomm) (\<lambda>_.
                    bindP (npb_mpi_finalize M) (\<lambda>_. ret 0))))))))))"

section \<open>How a command moves the counters\<close>

lemma recv_matrix_advanced:
  "worker_recv_matrix C M comm g n tag enc w = Done (Some (d, g')) w' \<Longrightarrow> g' = advanced enc 0 1 g"
  by (auto simp: worker_recv_matrix_def advanced_def Let_def split: if_splits option.splits)

lemma send_matrix_advanced:
  "worker_send_matrix C M comm g d tag enc w = Done g' w' \<Longrightarrow> g' = advanced enc 1 0 g"
  by (auto simp: worker_send_matrix_def advanced_def split: if_splits option.splits)

lemma send_small_advanced:
  "worker_workload_send_small C M comm g d tag enc w = Done g' w' \<Longrightarrow> g' = advanced enc 1 0 g"
  by (auto simp: worker_workload_send_small_def worker_secure_send_def advanced_def split: if_splits option.splits)

lemma worker_run_advanced:
  assumes "bench_worker_run C M icomm m rows enc run g w = Done g' w'"
  shows "g' = advanced enc 2 2 g"
  using assms
  by (auto simp: bench_worker_run_def Let_def numeral_2_eq_2 split: option.splits prod.splits
      dest!: recv_matrix_advanced send_matrix_advanced send_small_advanced)

lemma worker_runs_advanced:
  assumes "loopP (bench_worker_run C M icomm m rows enc) is g w = Done g' w'"
  shows "g' = advanced enc (2 * length is) (2 * length is) g"
  using assms by (induction "is" arbitrary: g w) (fastforce dest!: worker_run_advanced)+



end
