(* ===== verification/Bench_Counters.thy ===== *)
theory Bench_Counters
  imports Bench_Master Bench_Worker
begin

text \<open>
  How the central node and a worker of the DGEMM benchmark count the messages between them.
\<close>

section \<open>The counters of both sides move in step\<close>

text \<open>
  The counters of the first k workers have moved on, by a for sending and b for receiving; the others are
  where they were.
\<close>

definition moved :: "bool \<Rightarrow> nat \<Rightarrow> u64 \<Rightarrow> u64 \<Rightarrow> master_state \<Rightarrow> master_state \<Rightarrow> bool" where
  "moved encrypt k a b m m' \<longleftrightarrow>
     length (ms_send_nonce_ctr m') = length (ms_send_nonce_ctr m) \<and>
     length (ms_recv_nonce_ctr m') = length (ms_recv_nonce_ctr m) \<and>
     (\<forall>w < length (ms_send_nonce_ctr m). ms_send_nonce_ctr m' ! w =
        ms_send_nonce_ctr m ! w + (if encrypt \<and> w < k then a else 0)) \<and>
     (\<forall>w < length (ms_recv_nonce_ctr m). ms_recv_nonce_ctr m' ! w =
        ms_recv_nonce_ctr m ! w + (if encrypt \<and> w < k then b else 0))"

lemma moved_0 [simp]: "moved encrypt 0 a b m m" "moved encrypt k 0 0 m m"
  by (simp_all add: moved_def)

lemma moved_trans: "moved e k a b m m1 \<Longrightarrow> moved e k c d m1 m2 \<Longrightarrow> moved e k (a + c) (b + d) m m2"
  by (simp add: moved_def)

text \<open>One more worker.\<close>

definition moved_at :: "bool \<Rightarrow> nat \<Rightarrow> u64 \<Rightarrow> u64 \<Rightarrow> master_state \<Rightarrow> master_state \<Rightarrow> bool" where
  "moved_at encrypt w a b m m' \<longleftrightarrow>
     (if encrypt
      then ms_send_nonce_ctr m' = (ms_send_nonce_ctr m)[w := ms_send_nonce_ctr m ! w + a] \<and>
        ms_recv_nonce_ctr m' = (ms_recv_nonce_ctr m)[w := ms_recv_nonce_ctr m ! w + b]
      else ms_send_nonce_ctr m' = ms_send_nonce_ctr m \<and> ms_recv_nonce_ctr m' = ms_recv_nonce_ctr m)"

lemma moved_at_trans:
  "w < length (ms_send_nonce_ctr m) \<Longrightarrow> w < length (ms_recv_nonce_ctr m) \<Longrightarrow>
    moved_at e w a b m m1 \<Longrightarrow> moved_at e w c d m1 m2 \<Longrightarrow> moved_at e w (a + c) (b + d) m m2"
  by (auto simp: moved_at_def add.assoc split: if_splits)

lemma moved_Suc:
  assumes "moved e k a b m m1" and "moved_at e k a b m1 m2"
  shows "moved e (Suc k) a b m m2"
  using assms by (auto simp: moved_def moved_at_def nth_list_update less_Suc_eq split: if_splits)

lemma to_moved:
  "matrix_to C M L e tag d w m v = Done m' v' \<Longrightarrow> moved_at e w 1 0 m m'"
  by (auto simp: matrix_to_def master_send_matrix_def moved_at_def split: if_splits option.splits)

lemma from_moved:
  "matrix_from C M L e tag n w m v = Done (Some (d, m')) v' \<Longrightarrow> moved_at e w 0 1 m m'"
  "small_from C M L e tag len w m v = Done (Some (bs, m')) v' \<Longrightarrow> moved_at e w 0 1 m m'"
  by (auto simp: matrix_from_def master_recv_matrix_def small_from_def received_def master_workload_recv_small_def
      master_secure_recv_def moved_at_def Let_def split: if_splits option.splits)

lemma bench_scatter_moved:
  assumes "bench_scatter C M L n e mdim A B w m v = Done m' v'"
    and "w < length (ms_send_nonce_ctr m)" and "w < length (ms_recv_nonce_ctr m)"
  shows "moved_at e w 2 0 m m'"
  using assms moved_at_trans [OF assms(2,3), of e 1 0 _ 1 0] by (auto simp: bench_scatter_def dest!: to_moved)

lemma bench_collect_moved:
  assumes "bench_collect C M L n e mdim w s v = Done s' v'"
    and "w < length (ms_send_nonce_ctr (fst s))" and "w < length (ms_recv_nonce_ctr (fst s))"
  shows "moved_at e w 0 2 (fst s) (fst s')"
  using assms moved_at_trans [OF assms(2,3), of e 0 1 _ 0 1]
  by (auto simp: bench_collect_def Let_def split: option.splits if_splits prod.splits dest!: from_moved)

definition tables_of :: "nat \<Rightarrow> master_state \<Rightarrow> bool" where
  "tables_of n m \<longleftrightarrow> n \<le> length (ms_send_nonce_ctr m) \<and> n \<le> length (ms_recv_nonce_ctr m)"

lemma moved_tables: "moved e k a b m m' \<Longrightarrow> tables_of n m' = tables_of n m"
  by (simp add: moved_def tables_of_def)

lemma loop_moved:
  assumes "loopP body [0..<n] s w = Done s' w'" and "tables_of n (f s)"
    and "\<And>i s w s' w'. body i s w = Done s' w' \<Longrightarrow> i < length (ms_send_nonce_ctr (f s)) \<Longrightarrow>
      i < length (ms_recv_nonce_ctr (f s)) \<Longrightarrow> moved_at e i a b (f s) (f s')"
  shows "moved e n a b (f s) (f s')"
proof (rule loopP_upt [OF assms(1), of "\<lambda>i t. moved e i a b (f s) (f t)"])
  fix i t v t' v' assume "i < n" and m: "moved e i a b (f s) (f t)" and b: "body i t v = Done t' v'"
  then have "tables_of n (f t)" using moved_tables [OF m, of n] assms(2) by simp
  with \<open>i < n\<close> have "moved_at e i a b (f t) (f t')" by (intro assms(3) [OF b]) (auto simp: tables_of_def)
  with m show "moved e (Suc i) a b (f s) (f t')" by (rule moved_Suc)
qed simp_all

lemma bench_run_moved:
  assumes "bench_run C M L n opt mdim A B run s w = Done s' w'" and "tables_of n (bn_ms (fst s))"
  shows "moved (b_encrypt opt) n 2 2 (bn_ms (fst s)) (bn_ms (fst s'))"
proof -
  from bench_run_phases [OF assms(1)] obtain v1 m1 v2 v3 m2 Cm t v4 where
    1: "loopP (bench_scatter C M L n (b_encrypt opt) mdim A B) [0..<n] (bn_ms (fst s)) v1 = Done m1 v2" and
    2: "loopP (bench_collect C M L n (b_encrypt opt) mdim) [0..<n] (m1, snd s, 0) v3 = Done (m2, Cm, t) v4" and
    3: "bn_ms (fst s') = m2" by fastforce
  have m1: "moved (b_encrypt opt) n 2 0 (bn_ms (fst s)) m1"
    by (rule loop_moved [OF 1, where f = "\<lambda>m. m"]) (use assms(2) bench_scatter_moved in auto)
  have "moved (b_encrypt opt) n 0 2 (fst (m1, snd s, 0 :: dbl)) (fst (m2, Cm, t))"
    by (rule loop_moved [OF 2, where f = fst]) (use moved_tables [OF m1] assms(2) bench_collect_moved in auto)
  then have "moved (b_encrypt opt) n 0 2 m1 m2" by simp
  with moved_trans [OF m1 this] 3 show ?thesis by simp
qed

lemma bench_runs_moved:
  assumes "loopP (bench_run C M L n opt mdim A B) is s w = Done s' w'" and "tables_of n (bn_ms (fst s))"
  shows "moved (b_encrypt opt) n (2 * of_nat (length is)) (2 * of_nat (length is)) (bn_ms (fst s)) (bn_ms (fst s'))"
  using assms
proof (induction "is" arbitrary: s w)
  case (Cons i "is")
  from Cons.prems(1) obtain t v where b: "bench_run C M L n opt mdim A B i s w = Done t v"
    and l: "loopP (bench_run C M L n opt mdim A B) is t v = Done s' w'" by auto
  note m = bench_run_moved [OF b Cons.prems(2)]
  from Cons.IH [OF l] moved_tables [OF m] Cons.prems(2)
  have "moved (b_encrypt opt) n (2 * of_nat (length is)) (2 * of_nat (length is)) (bn_ms (fst t)) (bn_ms (fst s'))" by simp
  from moved_trans [OF m this] show ?case by (simp add: distrib_left)
qed simp

lemma send_command_moved:
  "bench_send_command C M L n opt mdim w m v = Done m' v' \<Longrightarrow> moved_at True w 1 0 m m'"
  by (auto simp: bench_send_command_def secure_to_def moved_at_def dest!: master_secure_send_Done)

lemma bench_size_moved:
  assumes "bench_size C M R L n opt sz s v = Done s' v'" and "tables_of n (bn_ms s)"
    and "bn_results s' \<noteq> bn_results s"
  shows "\<exists>m. moved True n 1 0 (bn_ms s) m \<and>
    moved (b_encrypt opt) n (2 * of_nat (nat (b_num_runs opt))) (2 * of_nat (nat (b_num_runs opt))) m (bn_ms s')"
proof -
  obtain A B where AB: "bench_matrices R (nat sz) = (A, B)" by fastforce
  from assms(1,3) AB obtain m v1 v2 t Cm v3 where
    1: "loopP (bench_send_command C M L n opt (nat sz)) [0..<n] (bn_ms s) v1 = Done m v2" and
    2: "loopP (bench_run C M L n opt (nat sz) A B) [1..b_num_runs opt]
          (s\<lparr>bn_ms := m\<rparr>, replicate (nat sz * nat sz) 0) v2 = Done (t, Cm) v3" and s': "s' = t"
    by (auto simp: bench_size_def Let_def split: if_splits prod.splits)
  have m: "moved True n 1 0 (bn_ms s) m"
    by (rule loop_moved [OF 1, where f = "\<lambda>m. m"]) (use assms(2) send_command_moved in auto)
  have "tables_of n (bn_ms (fst (s\<lparr>bn_ms := m\<rparr>, replicate (nat sz * nat sz) (0 :: dbl))))"
    using moved_tables [OF m] assms(2) by simp
  from bench_runs_moved [OF 2 this] have "moved (b_encrypt opt) n (2 * of_nat (nat (b_num_runs opt)))
      (2 * of_nat (nat (b_num_runs opt))) m (bn_ms s')" by (simp add: s')
  with m show ?thesis by blast
qed

lemma serve_bench_advanced:
  assumes "serve_bench C M icomm cmd g v = Done (Next g') v'"
  shows "g' = advanced (bc_encrypt_data cmd \<noteq> 0) (2 * nat (sint (bc_num_runs cmd))) (2 * nat (sint (bc_num_runs cmd))) g"
  using assms by (auto simp: serve_bench_def Let_def split: if_splits dest!: worker_runs_advanced)

text \<open>
  C20: Both sides of the benchmark count alike: if before the command for a dimension a worker expects the
  counter that the central node will send with, and the other way round, then once the central node has
  run the dimension and the worker has served the command, with or without encryption, they agree again,
  so the next command is accepted.
\<close>

theorem bench_counters_agree:
  assumes "bench_options_valid skip opt" and "tables_of n (bn_ms s)" and "w < n"
    and "ms_send_nonce_ctr (bn_ms s) ! w = recv_nonce_ctr g" and "ms_recv_nonce_ctr (bn_ms s) ! w = send_nonce_ctr g"
  shows "on_done (\<lambda>s'. on_done (\<lambda>f. case f of Exit _ \<Rightarrow> True | Next g' \<Rightarrow>
      (if bn_results s' \<noteq> bn_results s
       then ms_send_nonce_ctr (bn_ms s') ! w = recv_nonce_ctr g' \<and> ms_recv_nonce_ctr (bn_ms s') ! w = send_nonce_ctr g'
       else True))
      (serve_bench C' M' icomm (decode_bench_cmd (encode_bench_cmd (bench_command opt n (nat sz) w)))
        (g\<lparr>recv_nonce_ctr := recv_nonce_ctr g + 1\<rparr>) u))
    (bench_size C M R L n opt sz s v)"
proof (intro on_doneI)
  fix s' v' f u'
  assume central: "bench_size C M R L n opt sz s v = Done s' v'"
    and worker: "serve_bench C' M' icomm (decode_bench_cmd (encode_bench_cmd (bench_command opt n (nat sz) w)))
        (g\<lparr>recv_nonce_ctr := recv_nonce_ctr g + 1\<rparr>) u = Done f u'"
  have "sint (i32 (b_num_runs opt)) = b_num_runs opt"
    using assms(1) by (intro sint_i32) (auto simp: bench_options_valid_def)
  then have r: "sint (bc_num_runs (bench_command opt n (nat sz) w)) = b_num_runs opt"
    "bc_encrypt_data (bench_command opt n (nat sz) w) \<noteq> 0 \<longleftrightarrow> b_encrypt opt"
    by (simp_all add: bench_command_def)
  have "ms_send_nonce_ctr (bn_ms s') ! w = recv_nonce_ctr g' \<and> ms_recv_nonce_ctr (bn_ms s') ! w = send_nonce_ctr g'"
    if f: "f = Next g'" and ran: "bn_results s' \<noteq> bn_results s" for g'
  proof -
    from bench_size_moved [OF central assms(2) ran] obtain m where m: "moved True n 1 0 (bn_ms s) m"
      "moved (b_encrypt opt) n (2 * of_nat (nat (b_num_runs opt))) (2 * of_nat (nat (b_num_runs opt))) m (bn_ms s')" by blast
    have g': "g' = advanced (b_encrypt opt) (2 * nat (b_num_runs opt)) (2 * nat (b_num_runs opt))
        (g\<lparr>recv_nonce_ctr := recv_nonce_ctr g + 1\<rparr>)"
      using serve_bench_advanced [OF worker [unfolded f]] by (simp add: r)
    have w: "w < length (ms_send_nonce_ctr (bn_ms s))" "w < length (ms_recv_nonce_ctr (bn_ms s))"
      using assms(2,3) by (auto simp: tables_of_def)
    with m assms(3-5) show ?thesis unfolding g' by (simp add: moved_def advanced_def)
  qed
  then show "case f of Exit _ \<Rightarrow> True | Next g' \<Rightarrow>
      (if bn_results s' \<noteq> bn_results s
       then ms_send_nonce_ctr (bn_ms s') ! w = recv_nonce_ctr g' \<and> ms_recv_nonce_ctr (bn_ms s') ! w = send_nonce_ctr g'
       else True)" by (cases f) simp_all
qed

definition demo_bench :: bench_options where
  "demo_bench = bench_defaults\<lparr>b_target := 1, b_num_runs := 1, b_sizes := [2]\<rparr>"

definition demo_links :: links where
  "demo_links = \<lparr>lk_workers = [0], lk_tx_keys = [[]], lk_rx_keys = [[]], lk_bindings = [[]]\<rparr>"

theorem bench_counters_agree_witness:
  "on_done (\<lambda>s'. on_done (\<lambda>f. case f of Exit _ \<Rightarrow> True | Next g' \<Rightarrow>
      (if bn_results s' \<noteq> [] then ms_send_nonce_ctr (bn_ms s') ! 0 = recv_nonce_ctr g' else True))
      (serve_bench demo_crypto fifo_mpi 0 (decode_bench_cmd (encode_bench_cmd (bench_command demo_bench 1 2 0)))
        (demo_chan\<lparr>send_nonce_ctr := 0, recv_nonce_ctr := 1\<rparr>) (wait_init, ([], []))))
    (bench_size demo_crypto fifo_mpi demo_rand demo_links 1 demo_bench 2 bench_init (wait_init, ([], [])))"
proof -
  have "bench_options_valid False demo_bench"
    by (simp add: bench_options_valid_def demo_bench_def bench_defaults_def)
  from bench_counters_agree [OF this, of 1 bench_init 0 "demo_chan\<lparr>send_nonce_ctr := 0, recv_nonce_ctr := 0\<rparr>"
      demo_crypto fifo_mpi 0 2 "(wait_init, ([], []))" demo_crypto fifo_mpi demo_rand demo_links "(wait_init, ([], []))"]
  show ?thesis
    by (auto simp: on_done_def tables_of_def bench_init_def split: outcome.splits flow.splits if_splits)
qed

end
