(* ===== verification/Bench_Process.thy ===== *)
theory Bench_Process
  imports Worker_Process Bench_Counters
begin

text \<open>
  The worker of the DGEMM benchmark as a process: what it is sent and what it replies, message by message, for
  whole commands (\<open>bench_request\<close>, \<open>bench_response\<close>) and for its whole life (\<open>bench_history\<close>, \<open>bench_reports\<close>).
  The loop of src/worker_bench.c on these messages sends these replies and waits for more (\<open>replies_runs\<close>),
  and ends when it is told to (\<open>program_ends\<close>).
\<close>

section \<open>What is said in a run\<close>

definition bench_inputs :: "bool \<Rightarrow> nat \<Rightarrow> nat \<Rightarrow> dbl list \<Rightarrow> dbl list \<Rightarrow> nat \<Rightarrow> item list" where
  "bench_inputs enc n mdim A B w =
     [(TAG_BENCH_A, bytes_of_dbls (bench_block mdim n A w), enc), (TAG_BENCH_B, bytes_of_dbls B, enc)]"

definition bench_part_of :: "nat \<Rightarrow> nat \<Rightarrow> dbl list \<Rightarrow> dbl list \<Rightarrow> nat \<Rightarrow> dbl list" where
  "bench_part_of n mdim A B w = ppdpc_dgemm (bench_block mdim n A w) B (bench_rows mdim n) mdim mdim"

definition bench_outputs ::
  "(nat \<Rightarrow> dbl) \<Rightarrow> bool \<Rightarrow> nat \<Rightarrow> nat \<Rightarrow> dbl list \<Rightarrow> dbl list \<Rightarrow> nat \<Rightarrow> nat \<Rightarrow> item list" where
  \<comment> \<open>of the run that starts when the worker's clock has been read t times\<close>
  "bench_outputs clock enc n mdim A B w t =
     [(TAG_BENCH_C, bytes_of_dbls (bench_part_of n mdim A B w), enc),
      (TAG_BENCH_TIME, le_enc 8 (elapsed_ms (clock t) (clock (Suc t))), enc)]"

lemma recv_matrix_wire:
  assumes "aead_documented C" and "aead_total C" and "8 * length d \<le> INT_MAX - NPUB - ABYTES"
  shows "runs_to Y (worker_recv_matrix C (worker_mpi Y clock) c g (int (length d)) tag enc)
    ((to_worker C g (recv_nonce_ctr g) ((tag, bytes_of_dbls d, enc) # xs), out), t)
    (Some (d, advanced enc 0 1 g)) ((to_worker C g (recv_nonce_ctr (advanced enc 0 1 g)) xs, out), t)"
proof -
  have "8 * length d \<le> INT_MAX" "NPUB + length (bytes_of_dbls d) + ABYTES \<le> INT_MAX"
    using assms(3) by (simp_all add: INT_MAX_def channel_consts)
  from recv_bulk_wire [OF assms(1,2) this(2), of Y clock c g tag enc xs out t]
  have r: "runs_to Y (worker_recv_bulk C (worker_mpi Y clock) c g (8 * length d) tag enc)
    ((to_worker C g (recv_nonce_ctr g) ((tag, bytes_of_dbls d, enc) # xs), out), t)
    (Some (bytes_of_dbls d, advanced enc 0 1 g)) ((to_worker C g (recv_nonce_ctr (advanced enc 0 1 g)) xs, out), t)"
    by (simp del: on_wire.simps)
  show ?thesis unfolding worker_recv_matrix_bulk [OF \<open>8 * length d \<le> INT_MAX\<close>]
    by (rule runs_to_bind [OF r]) (simp add: dbls_bytes_roundtrip runs_to_ret del: on_wire.simps)
qed

lemma send_matrix_wire:
  assumes "aead_documented C" and "aead_total C" and "8 * length d \<le> INT_MAX - NPUB - ABYTES" and "send_nonce_ctr g \<noteq> - 1"
  shows "runs_to Y (worker_send_matrix C (worker_mpi Y clock) c g d tag enc) ((inb, out), t)
    (advanced enc 1 0 g) ((inb, out @ from_worker C g (send_nonce_ctr g) [(tag, bytes_of_dbls d, enc)]), t)"
proof -
  have "NPUB + length (bytes_of_dbls d) + ABYTES \<le> INT_MAX" "8 * length d \<le> INT_MAX"
    using assms(3) by (simp_all add: INT_MAX_def channel_consts)
  from send_bulk_wire [OF assms(1,2) this(1) assms(4)] show ?thesis
    unfolding worker_send_matrix_bulk [OF \<open>8 * length d \<le> INT_MAX\<close>] .
qed

text \<open>A channel that can still send so many messages.\<close>

definition has_room :: "worker_chan \<Rightarrow> nat \<Rightarrow> bool" where
  "has_room g k \<longleftrightarrow> unat (send_nonce_ctr g) + k < 2 ^ 64"

lemma has_room_advanced: "has_room g (a + k) \<Longrightarrow> has_room (advanced enc a b g) k"
proof -
  assume r: "has_room g (a + k)"
  then have "unat (send_nonce_ctr g + of_nat a) = unat (send_nonce_ctr g) + a"
    by (subst unat_add_lem [THEN iffD1]) (auto simp: has_room_def)
  with r show ?thesis by (auto simp: has_room_def)
qed

lemma has_room_send: "has_room g (Suc k) \<Longrightarrow> send_nonce_ctr g \<noteq> - 1"
  by (auto simp: has_room_def minus_1_u64)

text \<open>One run of an honest worker.\<close>

lemma bench_worker_run_wire:
  assumes C: "aead_documented C" "aead_total C" and m: "mdim \<le> 8192" "bench_rows mdim n \<le> mdim"
    and l: "length (bench_block mdim n A w) = bench_rows mdim n * mdim" "length B = mdim * mdim"
    and room: "has_room g 2"
  shows "runs_to Y (bench_worker_run C (worker_mpi Y clock) c mdim (bench_rows mdim n) enc run g)
    ((to_worker C g (recv_nonce_ctr g) (bench_inputs enc n mdim A B w @ xs), out), t)
    (advanced enc 2 2 g)
    ((to_worker C g (recv_nonce_ctr (advanced enc 2 2 g)) xs,
      out @ from_worker C g (send_nonce_ctr g) (bench_outputs clock enc n mdim A B w t)), t + 2)"
proof -
  let ?M = "worker_mpi Y clock" and ?r = "bench_rows mdim n" and ?A = "bench_block mdim n A w"
  let ?P = "bench_part_of n mdim A B w" and ?ms = "le_enc 8 (elapsed_ms (clock t) (clock (Suc t)))"
  let ?in = "to_worker C g" and ?out = "from_worker C g"
  let ?g1 = "advanced enc 0 1 g" and ?g2 = "advanced enc 0 2 g" and ?g3 = "advanced enc 1 2 g"
  have "?r * mdim \<le> 8192 * 8192" by (rule mult_le_mono) (use m in simp_all)
  moreover have "mdim * mdim \<le> 8192 * 8192" by (rule mult_le_mono) (use m in simp_all)
  ultimately have s: "8 * length ?A \<le> INT_MAX - NPUB - ABYTES" "8 * length B \<le> INT_MAX - NPUB - ABYTES"
    "8 * length ?P \<le> INT_MAX - NPUB - ABYTES"
    by (simp_all add: l bench_part_of_def INT_MAX_def channel_consts)
  have steps: "advanced enc 0 1 ?g1 = ?g2" "advanced enc 1 0 ?g2 = ?g3" "advanced enc 1 0 ?g3 = advanced enc 2 2 g"
    by (simp_all add: numeral_2_eq_2)
  have 1: "runs_to Y (worker_recv_matrix C ?M c g (int (?r * mdim)) TAG_BENCH_A enc)
    ((?in (recv_nonce_ctr g) (bench_inputs enc n mdim A B w @ xs), out), t) (Some (?A, ?g1))
    ((?in (recv_nonce_ctr ?g1) ((TAG_BENCH_B, bytes_of_dbls B, enc) # xs), out), t)"
    using recv_matrix_wire [OF C s(1), of Y clock c g] by (simp add: bench_inputs_def l del: on_wire.simps advanced_counters)
  have 2: "runs_to Y (worker_recv_matrix C ?M c ?g1 (int (mdim * mdim)) TAG_BENCH_B enc)
    ((?in (recv_nonce_ctr ?g1) ((TAG_BENCH_B, bytes_of_dbls B, enc) # xs), out), t) (Some (B, ?g2))
    ((?in (recv_nonce_ctr ?g2) xs, out), t)"
    using recv_matrix_wire [OF C s(2), of Y clock c ?g1 TAG_BENCH_B enc xs out t]
    unfolding steps by (simp add: l del: on_wire.simps advanced_counters)
  have sent: "send_nonce_ctr ?g2 = send_nonce_ctr g" by simp
  have 3: "runs_to Y (worker_send_matrix C ?M c ?g2 ?P TAG_BENCH_C enc) ((?in (recv_nonce_ctr ?g2) xs, out), Suc (Suc t)) ?g3
    ((?in (recv_nonce_ctr ?g2) xs, out @ ?out (send_nonce_ctr g) [(TAG_BENCH_C, bytes_of_dbls ?P, enc)]), Suc (Suc t))"
    using send_matrix_wire [OF C s(3), of ?g2 Y clock c TAG_BENCH_C enc "?in (recv_nonce_ctr ?g2) xs" out "Suc (Suc t)"]
      has_room_send [of g 1] room
    unfolding steps sent by (simp add: eval_nat_numeral del: on_wire.simps advanced_counters)
  have "has_room (advanced enc 1 2 g) 1" using room by (intro has_room_advanced) (simp add: numeral_2_eq_2)
  then have "send_nonce_ctr ?g3 \<noteq> - 1" using has_room_send [of ?g3 0] by simp
  from send_small_wire [OF C _ this, of ?ms Y clock c TAG_BENCH_TIME enc "?in (recv_nonce_ctr ?g2) xs"
      "out @ ?out (send_nonce_ctr g) [(TAG_BENCH_C, bytes_of_dbls ?P, enc)]" "Suc (Suc t)"]
  have 4: "runs_to Y (worker_workload_send_small C ?M c ?g3 ?ms TAG_BENCH_TIME enc)
    ((?in (recv_nonce_ctr ?g2) xs, out @ ?out (send_nonce_ctr g) [(TAG_BENCH_C, bytes_of_dbls ?P, enc)]), Suc (Suc t))
    (advanced enc 2 2 g)
    ((?in (recv_nonce_ctr ?g2) xs, (out @ ?out (send_nonce_ctr g) [(TAG_BENCH_C, bytes_of_dbls ?P, enc)]) @
      ?out (send_nonce_ctr ?g3) [(TAG_BENCH_TIME, ?ms, enc)]), Suc (Suc t))"
    unfolding steps by (simp add: channel_consts del: on_wire.simps advanced_counters)
  have 5: "?out (send_nonce_ctr g) (bench_outputs clock enc n mdim A B w t) =
      ?out (send_nonce_ctr g) [(TAG_BENCH_C, bytes_of_dbls ?P, enc)] @ ?out (send_nonce_ctr ?g3) [(TAG_BENCH_TIME, ?ms, enc)]"
    by (simp add: bench_outputs_def)
  have w: "runs_to Y (mpi_wtime ?M) ((inb, out), k) (clock k) ((inb, out), Suc k)" for inb out k
    unfolding mpi_wtime_def by (rule runs_to_env) simp
  have "recv_nonce_ctr (advanced enc 2 2 g) = recv_nonce_ctr ?g2" by simp
  with 4 have 6: "runs_to Y (worker_workload_send_small C ?M c ?g3 ?ms TAG_BENCH_TIME enc)
    ((?in (recv_nonce_ctr ?g2) xs, out @ ?out (send_nonce_ctr g) [(TAG_BENCH_C, bytes_of_dbls ?P, enc)]), Suc (Suc t))
    (advanced enc 2 2 g)
    ((?in (recv_nonce_ctr (advanced enc 2 2 g)) xs, out @ ?out (send_nonce_ctr g) (bench_outputs clock enc n mdim A B w t)), t + 2)"
    unfolding 5 by (simp only: append_assoc add_2_eq_Suc')
  show ?thesis
    unfolding bench_worker_run_def Let_def bench_part_of_def [symmetric]
    by (rule runs_to_bind [OF 1], simp only: option.case prod.case, rule runs_to_bind [OF 2],
      simp only: option.case prod.case, rule runs_to_bind [OF w], rule runs_to_bind [OF w],
      fold bench_part_of_def, rule runs_to_bind [OF 3], rule 6)
qed

lemma stuck_worker_run:
  assumes "bench_rows mdim n * mdim \<le> 8192 * 8192"
  shows "stuck Y (bench_worker_run C (worker_mpi Y clock) c mdim (bench_rows mdim n) enc run g) (([], out), t) (([], out), t)"
proof -
  have "8 * (bench_rows mdim n * mdim) \<le> INT_MAX" "NPUB + 8 * (bench_rows mdim n * mdim) + ABYTES \<le> INT_MAX"
    using assms by (simp_all add: INT_MAX_def channel_consts)
  then show ?thesis unfolding bench_worker_run_def
    by (intro stuck_bind) (simp only: worker_recv_matrix_bulk stuck_bind stuck_recv_bulk)
qed

section \<open>The runs of a command\<close>

primrec bench_answers ::
  "(nat \<Rightarrow> dbl) \<Rightarrow> bool \<Rightarrow> nat \<Rightarrow> nat \<Rightarrow> dbl list \<Rightarrow> dbl list \<Rightarrow> nat \<Rightarrow> nat \<Rightarrow> nat \<Rightarrow> item list" where
  "bench_answers clock enc n mdim A B w t 0 = []"
| "bench_answers clock enc n mdim A B w t (Suc k) =
     bench_answers clock enc n mdim A B w t k @ bench_outputs clock enc n mdim A B w (t + 2 * k)"

lemma bench_answers_first:
  "bench_answers clock enc n mdim A B w t (Suc k) =
    bench_outputs clock enc n mdim A B w t @ bench_answers clock enc n mdim A B w (t + 2) k"
  by (induction k) simp_all

lemma sealed_bench [simp]:
  "sealed_count (bench_inputs enc n mdim A B w) = (if enc then 2 else 0)"
  "sealed_count (bench_outputs clock enc n mdim A B w t) = (if enc then 2 else 0)"
  "sealed_count (bench_answers clock enc n mdim A B w t k) = (if enc then 2 * k else 0)"
  by (simp_all add: bench_inputs_def bench_outputs_def) (induction k, simp_all add: bench_outputs_def)

definition bench_shape :: "nat \<Rightarrow> nat \<Rightarrow> dbl list \<Rightarrow> dbl list \<Rightarrow> nat \<Rightarrow> bool" where
  "bench_shape n mdim A B w \<longleftrightarrow> mdim \<le> 8192 \<and> bench_rows mdim n \<le> mdim \<and>
     length (bench_block mdim n A w) = bench_rows mdim n * mdim \<and> length B = mdim * mdim"

lemma worker_runs_wire:
  assumes "aead_documented C" and "aead_total C" and "bench_shape n mdim A B w" and "has_room g (2 * length is)"
  shows "runs_to Y (loopP (bench_worker_run C (worker_mpi Y clock) c mdim (bench_rows mdim n) enc) is g)
    ((to_worker C g (recv_nonce_ctr g) (concat (replicate (length is) (bench_inputs enc n mdim A B w)) @ xs), out), t)
    (advanced enc (2 * length is) (2 * length is) g)
    ((to_worker C g (recv_nonce_ctr (advanced enc (2 * length is) (2 * length is) g)) xs,
      out @ from_worker C g (send_nonce_ctr g) (bench_answers clock enc n mdim A B w t (length is))), t + 2 * length is)"
  using assms(4)
proof (induction "is" arbitrary: g out t)
  case Nil
  then show ?case by (simp add: runs_to_ret)
next
  case (Cons i "is")
  let ?g = "advanced enc 2 2 g" and ?k = "length is"
  let ?rest = "concat (replicate ?k (bench_inputs enc n mdim A B w)) @ xs"
  let ?o = "out @ from_worker C g (send_nonce_ctr g) (bench_outputs clock enc n mdim A B w t)"
  have room: "has_room g 2" "has_room ?g (2 * ?k)"
    using Cons.prems has_room_advanced [of g 2 "2 * ?k" enc 2] by (simp_all add: has_room_def)
  have 1: "runs_to Y (bench_worker_run C (worker_mpi Y clock) c mdim (bench_rows mdim n) enc i g)
    ((to_worker C g (recv_nonce_ctr g) (bench_inputs enc n mdim A B w @ ?rest), out), t) ?g
    ((to_worker C g (recv_nonce_ctr ?g) ?rest, ?o), t + 2)"
    by (rule bench_worker_run_wire [OF assms(1,2) _ _ _ _ room(1)]) (use assms(3) in \<open>simp_all add: bench_shape_def\<close>)
  have a: "advanced enc (2 * ?k) (2 * ?k) ?g = advanced enc (2 * length (i # is)) (2 * length (i # is)) g" by simp
  have 2: "?o @ from_worker C g (send_nonce_ctr ?g) (bench_answers clock enc n mdim A B w (t + 2) ?k) =
    out @ from_worker C g (send_nonce_ctr g) (bench_answers clock enc n mdim A B w t (length (i # is)))"
    unfolding length_Cons bench_answers_first on_wire_append by simp
  note 3 = Cons.IH [OF room(2), of ?o "t + 2", unfolded advanced_keys 2 a]
  have "t + 2 + 2 * ?k = t + 2 * length (i # is)"
    "concat (replicate (length (i # is)) (bench_inputs enc n mdim A B w)) @ xs = bench_inputs enc n mdim A B w @ ?rest" by simp_all
  then show ?case unfolding loopP.simps using 3 by (simp only: runs_to_bind [OF 1])
qed

lemma worker_runs_stuck:
  assumes "aead_documented C" and "aead_total C" and "bench_shape n mdim A B w" and "has_room g (2 * k)" and "k < length is"
  shows "stuck Y (loopP (bench_worker_run C (worker_mpi Y clock) c mdim (bench_rows mdim n) enc) is g)
    ((to_worker C g (recv_nonce_ctr g) (concat (replicate k (bench_inputs enc n mdim A B w))), out), t)
    (([], out @ from_worker C g (send_nonce_ctr g) (bench_answers clock enc n mdim A B w t k)), t + 2 * k)"
proof -
  have k: "length (take k is) = k" using assms(5) by simp
  obtain i js where d: "drop k is = i # js" using assms(5) by (cases "drop k is") auto
  let ?body = "bench_worker_run C (worker_mpi Y clock) c mdim (bench_rows mdim n) enc"
  have "bench_rows mdim n * mdim \<le> 8192 * 8192" using assms(3) by (intro mult_le_mono) (simp_all add: bench_shape_def)
  then have w: "stuck Y (loopP ?body (i # js) g') (([], out'), t') (([], out'), t')" for g' out' t'
    unfolding loopP.simps by (intro stuck_bind stuck_worker_run)
  have "loopP ?body is g = bindP (loopP ?body (take k is) g) (loopP ?body (i # js))"
    unfolding loopP_append [symmetric] d [symmetric] by simp
  moreover have "runs_to Y (loopP ?body (take k is) g)
    ((to_worker C g (recv_nonce_ctr g) (concat (replicate k (bench_inputs enc n mdim A B w))), out), t)
    (advanced enc (2 * k) (2 * k) g)
    (([], out @ from_worker C g (send_nonce_ctr g) (bench_answers clock enc n mdim A B w t k)), t + 2 * k)"
    using worker_runs_wire [of C n mdim A B w g "take k is" Y clock c enc "[]" out t] assms(1-4)
    by (simp only: k append_Nil2 on_wire.simps)
  ultimately show ?thesis using w by (simp only: stuck_after)
qed

section \<open>A command\<close>

definition bench_request :: "libc_rand \<Rightarrow> bench_options \<Rightarrow> nat \<Rightarrow> nat \<Rightarrow> nat \<Rightarrow> nat \<Rightarrow> item list" where
  \<comment> \<open>what worker w is sent for dimension d up to its k-th run\<close>
  "bench_request R opt n w k d =
     (TAG_BENCH_CMD, encode_bench_cmd (bench_command opt n d w), True) #
     concat (replicate k (bench_inputs (b_encrypt opt) n d (fst (bench_matrices R d)) (snd (bench_matrices R d)) w))"

definition bench_response ::
  "(nat \<Rightarrow> dbl) \<Rightarrow> libc_rand \<Rightarrow> bench_options \<Rightarrow> nat \<Rightarrow> nat \<Rightarrow> nat \<Rightarrow> nat \<Rightarrow> nat \<Rightarrow> item list" where
  "bench_response clock R opt n w t k d =
     bench_answers clock (b_encrypt opt) n d (fst (bench_matrices R d)) (snd (bench_matrices R d)) w t k"

definition bench_case :: "bool \<Rightarrow> bench_options \<Rightarrow> nat \<Rightarrow> nat \<Rightarrow> nat \<Rightarrow> bool" where
  "bench_case skip opt n w d \<longleftrightarrow> bench_options_valid skip opt \<and> 1 \<le> d \<and> d \<le> 8192 \<and> n dvd d \<and> w < n"

lemma bench_case_shape:
  assumes "bench_case skip opt n w d"
  shows "bench_shape n d (fst (bench_matrices R d)) (snd (bench_matrices R d)) w"
proof -
  from assms have n: "n dvd d" "w < n" "d \<le> 8192" by (simp_all add: bench_case_def)
  obtain q where q: "d = n * q" using n(1) by (rule dvdE)
  have "Suc w * q \<le> d" unfolding q using n(2) by (intro mult_le_mono1) simp
  then have b: "w * q + q \<le> d" by simp
  have "(w * q + q) * d \<le> d * d" using b by (rule mult_le_mono1)
  then have "q * d \<le> d * d - w * q * d" by (simp add: add_mult_distrib)
  moreover have "q \<le> d" using b by simp
  moreover have "d div n = q" using q n(2) by simp
  ultimately show ?thesis using n(3)
    by (simp add: bench_shape_def bench_rows_def bench_block_def bench_row_start_def bench_matrices_def)
qed

lemma allocate_worker: "elements \<le> SIZE_MAX div 8 \<Longrightarrow>
    bindP (allocate_matrix (worker_mpi Y clock) elements) k = k True"
  by (rule ext) (auto simp: allocate_matrix_def bindP_def on_env_def)

lemma serve_bench_command:
  assumes "bench_case skip opt n w d"
  shows "serve_bench C (worker_mpi Y clock) c (bench_command opt n d w) g =
    bindP (loopP (bench_worker_run C (worker_mpi Y clock) c d (bench_rows d n) (b_encrypt opt)) [1..b_num_runs opt] g)
      (\<lambda>g. ret (Next g))"
proof -
  note v = assms [unfolded bench_case_def]
  have ok: "bench_cmd_ok (bench_command opt n d w)" using v by (intro bench_command_accepted [of skip]) simp_all
  have "bench_rows d n \<le> d" by (simp add: bench_rows_def)
  then have i: "sint (i32 (int d)) = int d" "sint (i32 (int (bench_rows d n))) = int (bench_rows d n)"
    "sint (i32 (b_num_runs opt)) = b_num_runs opt"
    using v by (auto intro!: sint_i32 simp: bench_options_valid_def)
  have "bench_rows d n * d \<le> 8192 * 8192" by (rule mult_le_mono) (use v \<open>bench_rows d n \<le> d\<close> in simp_all)
  moreover have "d * d \<le> 8192 * 8192" by (rule mult_le_mono) (use v in simp_all)
  ultimately have "\<not> bench_rows d n * d > INT_MAX" "\<not> d * d > INT_MAX"
    "bench_rows d n * d \<le> SIZE_MAX div 8" "d * d \<le> SIZE_MAX div 8"
    by (simp_all add: INT_MAX_def SIZE_MAX_def)
  then show ?thesis using ok i
    by (simp add: serve_bench_def Let_def bench_command_def allocate_worker)
qed

definition bench_after :: "bench_options \<Rightarrow> nat \<Rightarrow> worker_chan \<Rightarrow> worker_chan" where
  \<comment> \<open>the channel after a command and k runs\<close>
  "bench_after opt k g = advanced (b_encrypt opt) (2 * k) (2 * k) (advanced True 0 1 g)"

lemma bench_after_keys [simp]:
  "g_session_key (bench_after opt k g) = g_session_key g" "g_recv_key (bench_after opt k g) = g_recv_key g"
  "g_channel_binding (bench_after opt k g) = g_channel_binding g"
  by (simp_all add: bench_after_def)

lemma bench_after_counters:
  "send_nonce_ctr (bench_after opt k g) = send_nonce_ctr g + of_nat (sealed_count (bench_response clock R opt n w t k d))"
  "recv_nonce_ctr (bench_after opt k g) = recv_nonce_ctr g + of_nat (sealed_count (bench_request R opt n w k d))"
proof -
  have "sealed_count (concat (replicate k (bench_inputs enc n d A B w))) = (if enc then 2 * k else 0)" for enc A B
    by (induction k) simp_all
  then show "send_nonce_ctr (bench_after opt k g) = send_nonce_ctr g + of_nat (sealed_count (bench_response clock R opt n w t k d))"
    "recv_nonce_ctr (bench_after opt k g) = recv_nonce_ctr g + of_nat (sealed_count (bench_request R opt n w k d))"
    by (simp_all add: bench_after_def bench_response_def bench_request_def add_ac)
qed

lemma recv_command_wire:
  assumes "aead_documented C" and "aead_total C"
  shows "runs_to Y (worker_secure_recv C (worker_mpi Y clock) c g 24 TAG_BENCH_CMD)
    ((to_worker C g (recv_nonce_ctr g) ((TAG_BENCH_CMD, encode_bench_cmd cmd, True) # xs), out), t)
    (Some (encode_bench_cmd cmd, advanced True 0 1 g)) ((to_worker C g (recv_nonce_ctr (advanced True 0 1 g)) xs, out), t)"
  using secure_recv_wire [OF assms, of "encode_bench_cmd cmd" Y clock c g TAG_BENCH_CMD xs out t]
  by (simp add: channel_consts del: on_wire.simps)

lemma bench_step_wire:
  assumes C: "aead_documented C" "aead_total C" and d: "bench_case skip opt n w d" and room: "has_room g (2 * nat (b_num_runs opt))"
  shows "runs_to Y (bench_worker_step C (worker_mpi Y clock) c g)
    ((to_worker C g (recv_nonce_ctr g) (bench_request R opt n w (nat (b_num_runs opt)) d @ xs), out), t)
    (Next (bench_after opt (nat (b_num_runs opt)) g))
    ((to_worker C g (recv_nonce_ctr (bench_after opt (nat (b_num_runs opt)) g)) xs,
      out @ from_worker C g (send_nonce_ctr g) (bench_response clock R opt n w t (nat (b_num_runs opt)) d)),
     t + 2 * nat (b_num_runs opt))"
proof -
  let ?g = "advanced True 0 1 g" and ?r = "nat (b_num_runs opt)"
  have len: "length [1..b_num_runs opt] = ?r" by simp
  have "has_room ?g (2 * ?r)" using has_room_advanced [of g 0 "2 * ?r" True 1] room by simp
  note runs = worker_runs_wire [OF C bench_case_shape [OF d, of R], of ?g "[1..b_num_runs opt]" Y clock c "b_encrypt opt" xs out t,
      unfolded len advanced_keys bench_response_def [symmetric] bench_after_def [symmetric], OF this]
  have s: "send_nonce_ctr ?g = send_nonce_ctr g" by simp
  show ?thesis unfolding bench_worker_step_def bench_request_def append_Cons
    by (rule runs_to_bind [OF recv_command_wire [OF C]],
      simp only: option.case prod.case decode_encode_bench_cmd serve_bench_command [OF d],
      rule runs_to_bind [OF runs [unfolded s]], rule runs_to_ret)
qed

lemma bench_step_stuck:
  assumes C: "aead_documented C" "aead_total C" and d: "bench_case skip opt n w d" and room: "has_room g (2 * k)"
    and k: "k < nat (b_num_runs opt)"
  shows "stuck Y (bench_worker_step C (worker_mpi Y clock) c g)
    ((to_worker C g (recv_nonce_ctr g) (bench_request R opt n w k d), out), t)
    (([], out @ from_worker C g (send_nonce_ctr g) (bench_response clock R opt n w t k d)), t + 2 * k)"
proof -
  let ?g = "advanced True 0 1 g"
  have len: "k < length [1..b_num_runs opt]" using k by simp
  have "has_room ?g (2 * k)" using has_room_advanced [of g 0 "2 * k" True 1] room by simp
  note runs = worker_runs_stuck [OF C bench_case_shape [OF d, of R] this len, of Y clock c "b_encrypt opt" out t,
      unfolded advanced_keys bench_response_def [symmetric]]
  have s: "send_nonce_ctr ?g = send_nonce_ctr g" by simp
  show ?thesis unfolding bench_worker_step_def bench_request_def
    by (rule stuck_after [OF recv_command_wire [OF C]],
      simp only: option.case prod.case decode_encode_bench_cmd serve_bench_command [OF d],
      rule stuck_bind [OF runs [unfolded s]])
qed

lemma bench_step_idle: "stuck Y (bench_worker_step C (worker_mpi Y clock) c g) (([], out), t) (([], out), t)"
  using stuck_secure_recv [of 24 Y C clock c g TAG_BENCH_CMD out t]
  by (auto simp: bench_worker_step_def channel_consts intro!: stuck_bind)

lemma bench_step_done:
  assumes "aead_documented C" "aead_total C"
  shows "runs_to Y (bench_worker_step C (worker_mpi Y clock) c g)
    ((to_worker C g (recv_nonce_ctr g) [(TAG_BENCH_CMD, encode_bench_cmd (bench_cmd_zero\<lparr>bc_cmd := CMD_BENCH_DONE\<rparr>), True)], out), t)
    (Exit (advanced True 0 1 g)) (([], out), t)"
  unfolding bench_worker_step_def
  by (rule runs_to_bind [OF recv_command_wire [OF assms]])
    (simp add: serve_bench_def runs_to_ret)

section \<open>A worker's whole life\<close>

definition bench_history :: "libc_rand \<Rightarrow> bench_options \<Rightarrow> nat \<Rightarrow> nat \<Rightarrow> nat list \<Rightarrow> item list" where
  "bench_history R opt n w ds = concat (map (bench_request R opt n w (nat (b_num_runs opt))) ds)"

primrec bench_reports ::
  "(nat \<Rightarrow> dbl) \<Rightarrow> libc_rand \<Rightarrow> bench_options \<Rightarrow> nat \<Rightarrow> nat \<Rightarrow> nat \<Rightarrow> nat list \<Rightarrow> item list" where
  "bench_reports clock R opt n w t [] = []"
| "bench_reports clock R opt n w t (d # ds) =
     bench_response clock R opt n w t (nat (b_num_runs opt)) d @
     bench_reports clock R opt n w (t + 2 * nat (b_num_runs opt)) ds"

lemma bench_history_append [simp]: "bench_history R opt n w (ds @ [d]) =
    bench_history R opt n w ds @ bench_request R opt n w (nat (b_num_runs opt)) d"
  by (simp add: bench_history_def)

lemma bench_reports_append: "bench_reports clock R opt n w t (ds @ [d]) =
    bench_reports clock R opt n w t ds @
    bench_response clock R opt n w (t + 2 * nat (b_num_runs opt) * length ds) (nat (b_num_runs opt)) d"
  by (induction ds arbitrary: t) (simp_all add: add_ac)

lemma whileX_Suc:
  "whileX (Suc fuel) body s = bindP (body s) (\<lambda>f. case f of Next s' \<Rightarrow> whileX fuel body s' | Exit r \<Rightarrow> ret r)"
  by (rule ext) simp

text \<open>The channel after whole dimensions, and what is left to do then.\<close>

definition bench_afters :: "bench_options \<Rightarrow> nat \<Rightarrow> worker_chan \<Rightarrow> worker_chan" where
  "bench_afters opt k = (bench_after opt (nat (b_num_runs opt)) ^^ k)"

lemma bench_afters_keys [simp]:
  "g_session_key (bench_afters opt k g) = g_session_key g" "g_recv_key (bench_afters opt k g) = g_recv_key g"
  "g_channel_binding (bench_afters opt k g) = g_channel_binding g"
  by (induction k) (simp_all add: bench_afters_def)

lemma bench_after_room: "has_room g (2 * k + l) \<Longrightarrow> has_room (bench_after opt k g) l"
  unfolding bench_after_def using has_room_advanced [of g 0 "2 * k + l" True 1] by (intro has_room_advanced) simp

lemma bench_afters_room: "has_room g (2 * nat (b_num_runs opt) * k + l) \<Longrightarrow> has_room (bench_afters opt k g) l"
proof (induction k arbitrary: l)
  case (Suc k)
  then have "has_room (bench_afters opt k g) (2 * nat (b_num_runs opt) + l)" by (simp add: add_ac)
  then show ?case by (simp add: bench_afters_def bench_after_room)
qed (simp add: bench_afters_def)

lemma bench_afters_send:
  "send_nonce_ctr (bench_afters opt (length ds) g) = send_nonce_ctr g + of_nat (sealed_count (bench_reports clock R opt n w t ds))"
proof (induction ds rule: rev_induct)
  case (snoc d ds)
  have "send_nonce_ctr (bench_afters opt (length (ds @ [d])) g) =
      send_nonce_ctr (bench_after opt (nat (b_num_runs opt)) (bench_afters opt (length ds) g))" by (simp add: bench_afters_def)
  with snoc show ?case
    by (simp add: bench_reports_append bench_after_counters(1) [where clock = clock and R = R and n = n and w = w and d = d and
        t = "t + 2 * nat (b_num_runs opt) * length ds"] add_ac)
qed (simp add: bench_afters_def)

abbreviation honest_step ::
  "crypto \<Rightarrow> wait_sys \<Rightarrow> (nat \<Rightarrow> dbl) \<Rightarrow> worker_chan \<Rightarrow> (worker_net world, (worker_chan, worker_chan) flow) prog" where
  "honest_step C Y clock \<equiv> bench_worker_step C (worker_mpi Y clock) 0"

lemma bench_loop_wire:
  assumes C: "aead_documented C" "aead_total C" and ds: "\<forall>d \<in> set ds. bench_case skip opt n w d"
    and room: "has_room g (2 * nat (b_num_runs opt) * length ds)"
  shows "(stuck Y (whileX fuel (honest_step C Y clock) (bench_afters opt (length ds) g))
      ((to_worker C g (recv_nonce_ctr (bench_afters opt (length ds) g)) xs,
        out @ from_worker C g (send_nonce_ctr g) (bench_reports clock R opt n w t ds)), t + 2 * nat (b_num_runs opt) * length ds) e' \<longrightarrow>
      stuck Y (whileX (length ds + fuel) (honest_step C Y clock) g) ((to_worker C g (recv_nonce_ctr g) (bench_history R opt n w ds @ xs), out), t) e') \<and>
    (runs_to Y (whileX fuel (honest_step C Y clock) (bench_afters opt (length ds) g))
      ((to_worker C g (recv_nonce_ctr (bench_afters opt (length ds) g)) xs,
        out @ from_worker C g (send_nonce_ctr g) (bench_reports clock R opt n w t ds)), t + 2 * nat (b_num_runs opt) * length ds) x e' \<longrightarrow>
      runs_to Y (whileX (length ds + fuel) (honest_step C Y clock) g) ((to_worker C g (recv_nonce_ctr g) (bench_history R opt n w ds @ xs), out), t) x e')"
  using ds room
proof (induction ds arbitrary: g out t)
  case Nil
  then show ?case by (simp add: bench_afters_def bench_history_def)
next
  case (Cons d ds)
  let ?r = "nat (b_num_runs opt)" and ?g = "bench_after opt (nat (b_num_runs opt)) g"
  let ?o = "out @ from_worker C g (send_nonce_ctr g) (bench_response clock R opt n w t ?r d)"
  have room: "has_room g (2 * ?r)" "has_room ?g (2 * ?r * length ds)"
    using Cons.prems(2) by (simp add: has_room_def) (rule bench_after_room, use Cons.prems(2) in simp)
  have d: "bench_case skip opt n w d" "\<forall>d \<in> set ds. bench_case skip opt n w d" using Cons.prems(1) by simp_all
  have 1: "runs_to Y (honest_step C Y clock g) ((to_worker C g (recv_nonce_ctr g) (bench_history R opt n w (d # ds) @ xs), out), t) (Next ?g)
    ((to_worker C g (recv_nonce_ctr ?g) (bench_history R opt n w ds @ xs), ?o), t + 2 * ?r)"
    using bench_step_wire [OF C d(1) room(1)] by (simp add: bench_history_def)
  have 2: "?o @ from_worker C g (send_nonce_ctr ?g) (bench_reports clock R opt n w (t + 2 * ?r) ds) =
      out @ from_worker C g (send_nonce_ctr g) (bench_reports clock R opt n w t (d # ds))"
    using bench_after_counters(1) [of opt ?r g clock R n w t d] by (simp add: on_wire_append)
  have 3: "t + 2 * ?r + 2 * ?r * length ds = t + 2 * ?r * length (d # ds)" by simp
  have 4: "bench_afters opt (length ds) ?g = bench_afters opt (length (d # ds)) g"
    by (simp add: bench_afters_def funpow_swap1)
  have 5: "whileX (length (d # ds) + fuel) (honest_step C Y clock) g =
      bindP (honest_step C Y clock g) (\<lambda>f. case f of Next s' \<Rightarrow> whileX (length ds + fuel) (honest_step C Y clock) s' | Exit r \<Rightarrow> ret r)"
    using whileX_Suc [of "length ds + fuel" "honest_step C Y clock" g] by simp
  from Cons.IH [OF d(2) room(2), of ?o "t + 2 * ?r", unfolded 2 3 4 bench_after_keys] show ?case
    unfolding 5 by (auto intro!: stuck_after [OF 1] runs_to_bind [OF 1])
qed

section \<open>What a worker replies\<close>

definition bench_program :: "crypto \<Rightarrow> worker_chan \<Rightarrow> worker_net mpi \<Rightarrow> nat \<Rightarrow> (worker_net world, worker_chan) prog" where
  "bench_program C g M fuel = whileX fuel (bench_worker_step C M 0) g"

lemma wait_init_ready: "wait_sys_good Y \<Longrightarrow> wait_ready Y wait_init"
  by (simp add: wait_ready_def wait_reach_inv [OF reach_init]) (simp add: wait_init_def)

lemma length_bench_history: "length ds \<le> length (bench_history R opt n w ds)"
  by (induction ds) (simp_all add: bench_history_def bench_request_def)

lemma fuel_split: "length ds \<le> m \<Longrightarrow> \<exists>k. Suc m = length ds + Suc k"
  by (metis add_Suc_right le_iff_add)

lemma replies_history:
  assumes C: "aead_documented C" "aead_total C" and Y: "wait_sys_good Y" and ds: "\<forall>d \<in> set ds. bench_case skip opt n w d"
    and room: "has_room g (2 * nat (b_num_runs opt) * length ds)"
  shows "replies Y clock (bench_program C g) (to_worker C g (recv_nonce_ctr g) (bench_history R opt n w ds)) =
    from_worker C g (send_nonce_ctr g) (bench_reports clock R opt n w 0 ds)"
proof -
  let ?in = "to_worker C g (recv_nonce_ctr g) (bench_history R opt n w ds)"
  let ?e = "(([], from_worker C g (send_nonce_ctr g) (bench_reports clock R opt n w 0 ds)), 2 * nat (b_num_runs opt) * length ds)"
  obtain k where k: "Suc (length ?in) = length ds + Suc k" using fuel_split [OF length_bench_history] by (metis length_on_wire)
  have "stuck Y (whileX (Suc k) (honest_step C Y clock) (bench_afters opt (length ds) g)) ?e ?e"
    unfolding whileX_Suc by (intro stuck_bind bench_step_idle)
  with bench_loop_wire [OF C ds room, of Y "Suc k" clock "[]" "[]" R 0 ?e]
  have "stuck Y (whileX (length ds + Suc k) (honest_step C Y clock) g) ((?in, []), 0) ?e" by simp
  then show ?thesis using wait_init_ready [OF Y]
    unfolding replies_def bench_program_def k by (simp add: stuck_def)
qed

lemma replies_runs:
  assumes C: "aead_documented C" "aead_total C" and Y: "wait_sys_good Y" and ds: "\<forall>d \<in> set ds. bench_case skip opt n w d"
    and d: "bench_case skip opt n w d" and k: "k \<le> nat (b_num_runs opt)"
    and room: "has_room g (2 * nat (b_num_runs opt) * Suc (length ds))"
  shows "replies Y clock (bench_program C g)
      (to_worker C g (recv_nonce_ctr g) (bench_history R opt n w ds @ bench_request R opt n w k d)) =
    from_worker C g (send_nonce_ctr g)
      (bench_reports clock R opt n w 0 ds @ bench_response clock R opt n w (2 * nat (b_num_runs opt) * length ds) k d)"
proof (cases "k = nat (b_num_runs opt)")
  case True
  with replies_history [OF C Y, of "ds @ [d]" skip opt n w g clock R] ds d room
  show ?thesis by (simp add: bench_reports_append)
next
  case False
  let ?r = "nat (b_num_runs opt)" and ?g = "bench_afters opt (length ds) g"
  let ?xs = "bench_request R opt n w k d" and ?t = "2 * nat (b_num_runs opt) * length ds"
  let ?in = "to_worker C g (recv_nonce_ctr g) (bench_history R opt n w ds @ ?xs)"
  let ?o = "from_worker C g (send_nonce_ctr g) (bench_reports clock R opt n w 0 ds)"
  let ?e = "(([], ?o @ from_worker C ?g (send_nonce_ctr ?g) (bench_response clock R opt n w ?t k d)), ?t + 2 * k)"
  have "k < ?r" using k False by simp
  moreover have "has_room g (2 * ?r * length ds)" "has_room g (2 * ?r * length ds + 2 * k)"
    using room k by (simp_all add: has_room_def)
  ultimately have r: "has_room g (2 * ?r * length ds)" "has_room ?g (2 * k)" "k < ?r" by (auto intro: bench_afters_room)
  have "length ds \<le> length ?in" using length_bench_history [of ds R opt n w] by simp
  then obtain f where f: "Suc (length ?in) = length ds + Suc f" using fuel_split by blast
  have "stuck Y (whileX (Suc f) (honest_step C Y clock) ?g) ((to_worker C g (recv_nonce_ctr ?g) ?xs, ?o), ?t) ?e"
    unfolding whileX_Suc
    using stuck_bind [OF bench_step_stuck [OF C d r(2,3), of Y clock 0 R ?o ?t]] by simp
  with bench_loop_wire [OF C ds r(1), of Y "Suc f" clock ?xs "[]" R 0 ?e]
  have "stuck Y (whileX (length ds + Suc f) (honest_step C Y clock) g) ((?in, []), 0) ?e" by simp
  moreover have "snd (fst ?e) = from_worker C g (send_nonce_ctr g)
      (bench_reports clock R opt n w 0 ds @ bench_response clock R opt n w ?t k d)"
    by (simp add: on_wire_append bench_afters_send [of opt ds g clock R n w 0])
  ultimately show ?thesis using wait_init_ready [OF Y]
    unfolding replies_def bench_program_def f by (simp add: stuck_def)
qed

lemma program_ends:
  assumes C: "aead_documented C" "aead_total C" and ds: "\<forall>d \<in> set ds. bench_case skip opt n w d"
    and room: "has_room g (2 * nat (b_num_runs opt) * length ds)" and f: "length ds < fuel"
  shows "\<exists>g' e'. runs_to Y (bench_program C g (worker_mpi Y clock) fuel)
    ((to_worker C g (recv_nonce_ctr g)
       (bench_history R opt n w ds @ [(TAG_BENCH_CMD, encode_bench_cmd (bench_cmd_zero\<lparr>bc_cmd := CMD_BENCH_DONE\<rparr>), True)]), []), 0) g' e'"
proof -
  obtain k where k: "fuel = length ds + Suc k" using f by (metis less_iff_Suc_add add_Suc_right)
  let ?g = "bench_afters opt (length ds) g"
  let ?xs = "[(TAG_BENCH_CMD, encode_bench_cmd (bench_cmd_zero\<lparr>bc_cmd := CMD_BENCH_DONE\<rparr>), True)]"
  let ?o = "from_worker C g (send_nonce_ctr g) (bench_reports clock R opt n w 0 ds)" and ?t = "2 * nat (b_num_runs opt) * length ds"
  have "runs_to Y (whileX (Suc k) (honest_step C Y clock) ?g) ((to_worker C g (recv_nonce_ctr ?g) ?xs, ?o), ?t)
      (advanced True 0 1 ?g) (([], ?o), ?t)"
    unfolding whileX_Suc
    by (rule runs_to_bind [OF bench_step_done [OF C, of Y clock 0 ?g ?o ?t, unfolded bench_afters_keys]]) (simp add: runs_to_ret)
  from bench_loop_wire [OF C ds room, of Y "Suc k" clock ?xs "[]" R 0 "(([], ?o), ?t)" "advanced True 0 1 ?g",
      unfolded append_Nil add_0, THEN conjunct2, THEN mp, OF this]
  show ?thesis unfolding bench_program_def k by blast
qed

end
