(* ===== verification/Worker_Cluster.thy ===== *)
theory Worker_Cluster
  imports Worker_Process
begin

text \<open>
  The MPI of a central node whose workers are processes (\<open>cluster_mpi\<close>), where a conversation with a worker
  stands (\<open>at_link\<close>), how each call of the central node moves it, and loops over the workers.
\<close>

section \<open>The central node's network\<close>

text \<open>What each worker has been sent, how many of its messages have been delivered, and the clock readings.\<close>

record cluster =
  cl_sent :: "comm \<Rightarrow> frames"
  cl_taken :: "comm \<Rightarrow> nat"
  cl_ticks :: nat

definition cluster_start :: cluster where
  "cluster_start = \<lparr>cl_sent = (\<lambda>c. []), cl_taken = (\<lambda>c. 0), cl_ticks = 0\<rparr>"

definition cluster_send :: "comm \<Rightarrow> int \<Rightarrow> bytes \<Rightarrow> cluster \<Rightarrow> mpi_rc \<times> cluster" where
  "cluster_send c tag b e = (MPI_SUCCESS, e\<lparr>cl_sent := (cl_sent e)(c := cl_sent e c @ [(tag, b)])\<rparr>)"

definition cluster_next :: "(comm \<Rightarrow> frames \<Rightarrow> frames) \<Rightarrow> comm \<Rightarrow> cluster \<Rightarrow> frames" where
  "cluster_next W c e = drop (cl_taken e c) (W c (cl_sent e c))"

definition cluster_recv ::
  "(comm \<Rightarrow> frames \<Rightarrow> frames) \<Rightarrow> comm \<Rightarrow> int \<Rightarrow> nat \<Rightarrow> cluster \<Rightarrow> (mpi_rc \<times> bytes) \<times> cluster" where
  "cluster_recv W c tag n e =
     (case cluster_next W c e of
        [] \<Rightarrow> ((MPI_ERR_OTHER 0, []), e)
      | (t, b) # rest \<Rightarrow>
          if t \<noteq> tag then ((MPI_ERR_OTHER 1, []), e)
          else ((if length b > n then MPI_ERR_TRUNCATE else MPI_SUCCESS, take n b),
                e\<lparr>cl_taken := (cl_taken e)(c := Suc (cl_taken e c))\<rparr>))"

definition cluster_mpi :: "wait_sys \<Rightarrow> (nat \<Rightarrow> dbl) \<Rightarrow> (comm \<Rightarrow> frames \<Rightarrow> frames) \<Rightarrow> cluster mpi" where
  "cluster_mpi Y clock W = \<lparr>m_wait = Y, m_send = cluster_send, m_recv = cluster_recv W,
     m_get_count = (\<lambda>d. (MPI_SUCCESS, length d)),
     m_iprobe = (\<lambda>c tag e. ((MPI_SUCCESS, cluster_next W c e \<noteq> [] \<and> fst (hd (cluster_next W c e)) = tag), e)),
     m_disconnect = (\<lambda>c e. (MPI_SUCCESS, e)), m_init = (\<lambda>e. (MPI_SUCCESS, e)),
     m_finalize = (\<lambda>e. (MPI_SUCCESS, e)),
     m_wtime = (\<lambda>e. (clock (cl_ticks e), e\<lparr>cl_ticks := Suc (cl_ticks e)\<rparr>)),
     m_malloc = (\<lambda>n e. (True, e))\<rparr>"

lemma cluster_mpi_documented [simp]: "count_documented (cluster_mpi Y clock W)"
  by (simp add: count_documented_def cluster_mpi_def)

lemma cluster_mpi_calls [simp]:
  "m_wait (cluster_mpi Y clock W) = Y"
  "m_send (cluster_mpi Y clock W) c tag b e = (MPI_SUCCESS, e\<lparr>cl_sent := (cl_sent e)(c := cl_sent e c @ [(tag, b)])\<rparr>)"
  "m_malloc (cluster_mpi Y clock W) n e = (True, e)"
  "m_wtime (cluster_mpi Y clock W) e = (clock (cl_ticks e), e\<lparr>cl_ticks := Suc (cl_ticks e)\<rparr>)"
  "m_disconnect (cluster_mpi Y clock W) c e = (MPI_SUCCESS, e)"
  by (simp_all add: cluster_mpi_def cluster_send_def)

lemma cluster_mpi_recv:
  "cluster_next W c e = (tag, b) # rest \<Longrightarrow> m_recv (cluster_mpi Y clock W) c tag (length b) e =
    ((MPI_SUCCESS, b), e\<lparr>cl_taken := (cl_taken e)(c := Suc (cl_taken e c))\<rparr>)"
  by (simp add: cluster_mpi_def cluster_recv_def)

lemma cluster_malloc:
  "runs_to Y (k True) e x e' \<Longrightarrow> runs_to Y (bindP (on_env (m_malloc (cluster_mpi Y' clock W) n)) k) e x e'"
  by (rule runs_to_bind [OF runs_to_env]) simp_all

section \<open>Where a conversation stands\<close>

text \<open>The central node's table and the workers' channels as the enrolment leaves them.\<close>

definition links_match :: "nat \<Rightarrow> links \<Rightarrow> (comm \<Rightarrow> worker_chan) \<Rightarrow> bool" where
  "links_match n L G \<longleftrightarrow> n \<le> length (lk_workers L) \<and> distinct (lk_workers L) \<and>
     (\<forall>w < n. let g = G (lk_workers L ! w) in
        lk_tx_keys L ! w = g_recv_key g \<and> lk_rx_keys L ! w = g_session_key g \<and> lk_bindings L ! w = g_channel_binding g \<and>
        send_nonce_ctr g = 0 \<and> recv_nonce_ctr g = 0)"

text \<open>Worker w has been sent H, and R of what it has sent has been taken.\<close>

definition at_link ::
  "crypto \<Rightarrow> links \<Rightarrow> (comm \<Rightarrow> worker_chan) \<Rightarrow> master_state \<Rightarrow> cluster \<Rightarrow> nat \<Rightarrow> item list \<Rightarrow> item list \<Rightarrow> bool" where
  "at_link C L G m e w H R \<longleftrightarrow> (let c = lk_workers L ! w; g = G c in
     w < length (ms_send_nonce_ctr m) \<and> w < length (ms_recv_nonce_ctr m) \<and>
     cl_sent e c = to_worker C g 0 H \<and> cl_taken e c = length R \<and>
     ms_send_nonce_ctr m ! w = of_nat (sealed_count H) \<and> ms_recv_nonce_ctr m ! w = of_nat (sealed_count R))"

definition others_kept :: "links \<Rightarrow> nat \<Rightarrow> master_state \<Rightarrow> cluster \<Rightarrow> master_state \<Rightarrow> cluster \<Rightarrow> bool" where
  "others_kept L w m e m' e' \<longleftrightarrow>
     length (ms_send_nonce_ctr m') = length (ms_send_nonce_ctr m) \<and>
     length (ms_recv_nonce_ctr m') = length (ms_recv_nonce_ctr m) \<and>
     (\<forall>v. v \<noteq> w \<longrightarrow> ms_send_nonce_ctr m' ! v = ms_send_nonce_ctr m ! v \<and> ms_recv_nonce_ctr m' ! v = ms_recv_nonce_ctr m ! v) \<and>
     (\<forall>c. c \<noteq> lk_workers L ! w \<longrightarrow> cl_sent e' c = cl_sent e c \<and> cl_taken e' c = cl_taken e c)"

lemma others_kept_trans: "others_kept L w m e m1 e1 \<Longrightarrow> others_kept L w m1 e1 m2 e2 \<Longrightarrow> others_kept L w m e m2 e2"
  by (auto simp: others_kept_def)

lemma at_link_kept:
  assumes "others_kept L w m e m' e'" and "links_match n L G" and "v < n" and "w < n" and "v \<noteq> w" and "at_link C L G m e v H R"
  shows "at_link C L G m' e' v H R"
proof -
  have "lk_workers L ! v \<noteq> lk_workers L ! w"
    using assms(2-5) by (auto simp: links_match_def nth_eq_iff_index_eq)
  with assms show ?thesis by (simp add: at_link_def others_kept_def Let_def)
qed

lemma at_link_ticks [simp]: "at_link C L G m (e\<lparr>cl_ticks := t\<rparr>) w H R = at_link C L G m e w H R"
  by (simp add: at_link_def)

text \<open>The code that a worker runs in this view.\<close>

definition at_next ::
  "crypto \<Rightarrow> links \<Rightarrow> (comm \<Rightarrow> worker_chan) \<Rightarrow> (comm \<Rightarrow> frames \<Rightarrow> frames) \<Rightarrow> nat \<Rightarrow> item list \<Rightarrow> item list \<Rightarrow> bool" where
  \<comment> \<open>once worker w has been sent H it has sent R\<close>
  "at_next C L G W w H R \<longleftrightarrow> (let c = lk_workers L ! w; g = G c in W c (to_worker C g 0 H) = from_worker C g 0 R)"

section \<open>Calls of the central node\<close>

lemma at_link_sent:
  assumes "at_link C L G m e w H R" and "g = G (lk_workers L ! w)"
    and "f = (if enc then the (seal_frame C (g_recv_key g) (g_channel_binding g) DIRECTION_CENTRAL_TO_WORKER tag (ms_send_nonce_ctr m ! w) p) else p)"
    and "c = lk_workers L ! w" and "k = ms_send_nonce_ctr m ! w + (if enc then 1 else 0)"
  shows "at_link C L G (m\<lparr>ms_send_nonce_ctr := (ms_send_nonce_ctr m)[w := k]\<rparr>)
      (e\<lparr>cl_sent := (cl_sent e)(c := cl_sent e c @ [(tag, f)])\<rparr>) w (H @ [(tag, p, enc)]) R \<and>
    others_kept L w m e (m\<lparr>ms_send_nonce_ctr := (ms_send_nonce_ctr m)[w := k]\<rparr>)
      (e\<lparr>cl_sent := (cl_sent e)(c := cl_sent e c @ [(tag, f)])\<rparr>)"
  using assms by (auto simp: at_link_def others_kept_def Let_def on_wire_append)

lemma at_link_taken:
  assumes "at_link C L G m e w H R" and "c = lk_workers L ! w" and "k = ms_recv_nonce_ctr m ! w + (if enc then 1 else 0)"
  shows "at_link C L G (m\<lparr>ms_recv_nonce_ctr := (ms_recv_nonce_ctr m)[w := k]\<rparr>)
      (e\<lparr>cl_taken := (cl_taken e)(c := Suc (cl_taken e c))\<rparr>) w H (R @ [(tag, p, enc)]) \<and>
    others_kept L w m e (m\<lparr>ms_recv_nonce_ctr := (ms_recv_nonce_ctr m)[w := k]\<rparr>)
      (e\<lparr>cl_taken := (cl_taken e)(c := Suc (cl_taken e c))\<rparr>)"
  using assms by (auto simp: at_link_def others_kept_def Let_def)

lemma at_link_view:
  assumes "links_match n L G" and "w < n"
  shows "lk_tx_keys L ! w = g_recv_key (G (lk_workers L ! w))" "lk_rx_keys L ! w = g_session_key (G (lk_workers L ! w))"
    "lk_bindings L ! w = g_channel_binding (G (lk_workers L ! w))"
  using assms by (simp_all add: links_match_def Let_def)

lemma at_link_room:
  assumes "at_link C L G m e w H R" and "sealed_count H < 2 ^ 64 - 1"
  shows "ms_send_nonce_ctr m ! w \<noteq> - 1"
  using assms by (simp add: at_link_def Let_def minus_1_u64 unsigned_of_nat take_bit_nat_eq_self)

lemma bulk_to_link:
  assumes C: "aead_documented C" "aead_total C" and L: "links_match n L G" "w < n" and at: "at_link C L G m e w H R"
    and room: "sealed_count H < 2 ^ 64 - 1" and l: "NPUB + length p + ABYTES \<le> INT_MAX"
  shows "\<exists>m' e'. runs_to Y (bulk_to C (cluster_mpi Y clock W) L enc tag p w m) e m' e' \<and>
    at_link C L G m' e' w (H @ [(tag, p, enc)]) R \<and> others_kept L w m e m' e'"
proof -
  let ?M = "cluster_mpi Y clock W" and ?c = "lk_workers L ! w" and ?n = "ms_send_nonce_ctr m ! w"
  let ?g = "G ?c"
  obtain f where f: "seal_frame C (g_recv_key ?g) (g_channel_binding ?g) DIRECTION_CENTRAL_TO_WORKER tag ?n p = Some f"
    using seal_frame_total [OF C] by blast
  let ?p = "if enc then f else p" and ?k = "?n + (if enc then 1 else 0)"
  let ?e = "e\<lparr>cl_sent := (cl_sent e)(?c := cl_sent e ?c @ [(tag, ?p)])\<rparr>"
  have s: "runs_to Y (mpi_send_f ?M ?p tag ?c) e () ?e" by (intro runs_to_mpi_send cluster_mpi_calls)
  have "\<not> length p > INT_MAX" "\<not> length p > INT_MAX - NPUB - ABYTES" using l by auto
  then have b: "runs_to Y (master_send_bulk C ?M ?c (g_recv_key ?g) (g_channel_binding ?g) ?n p tag enc) e ?k ?e"
    using s f at_link_room [OF at room]
    by (cases enc) (auto simp: master_send_bulk_def intro!: runs_to_ret cluster_malloc elim!: runs_to_bind)
  have p: "?p = (if enc then the (seal_frame C (g_recv_key ?g) (g_channel_binding ?g) DIRECTION_CENTRAL_TO_WORKER tag ?n p) else p)"
    by (simp add: f)
  have "runs_to Y (bulk_to C ?M L enc tag p w m) e (m\<lparr>ms_send_nonce_ctr := (ms_send_nonce_ctr m)[w := ?k]\<rparr>) ?e"
    unfolding bulk_to_def at_link_view [OF L] by (rule runs_to_bind [OF b runs_to_ret(1)])
  with at_link_sent [OF at refl p refl refl] show ?thesis by blast
qed

lemma secure_to_link:
  assumes C: "aead_documented C" "aead_total C" and L: "links_match n L G" "w < n" and at: "at_link C L G m e w H R"
    and room: "sealed_count H < 2 ^ 64 - 1" and l: "int (length p) \<le> SECURE_MAX_PLAIN"
  shows "\<exists>m' e'. runs_to Y (secure_to C (cluster_mpi Y clock W) L tag p w m) e m' e' \<and>
    at_link C L G m' e' w (H @ [(tag, p, True)]) R \<and> others_kept L w m e m' e'"
proof -
  let ?M = "cluster_mpi Y clock W" and ?c = "lk_workers L ! w" and ?n = "ms_send_nonce_ctr m ! w"
  let ?g = "G ?c"
  obtain f where f: "seal_frame C (g_recv_key ?g) (g_channel_binding ?g) DIRECTION_CENTRAL_TO_WORKER tag ?n p = Some f"
    using seal_frame_total [OF C] by blast
  let ?e = "e\<lparr>cl_sent := (cl_sent e)(?c := cl_sent e ?c @ [(tag, f)])\<rparr>"
  have s: "runs_to Y (mpi_send_f ?M f tag ?c) e () ?e" by (intro runs_to_mpi_send cluster_mpi_calls)
  have b: "runs_to Y (master_secure_send C ?M ?c (g_recv_key ?g) (g_channel_binding ?g) ?n p tag) e (?n + 1) ?e"
    using s f l at_link_room [OF at room]
    by (auto simp: master_secure_send_def intro!: runs_to_ret elim!: runs_to_bind)
  have p: "f = (if True then the (seal_frame C (g_recv_key ?g) (g_channel_binding ?g) DIRECTION_CENTRAL_TO_WORKER tag ?n p) else p)"
    by (simp add: f)
  have "runs_to Y (secure_to C ?M L tag p w m) e (m\<lparr>ms_send_nonce_ctr := (ms_send_nonce_ctr m)[w := ?n + 1]\<rparr>) ?e"
    unfolding secure_to_def at_link_view [OF L] by (rule runs_to_bind [OF b runs_to_ret(1)])
  with at_link_sent [OF at refl p refl refl, unfolded if_True] show ?thesis by blast
qed

text \<open>A receive call gets the next message, when the worker has sent it.\<close>

lemma next_item:
  assumes "at_link C L G m e w H R" and "at_next C L G W w H (R @ (tag, p, enc) # Q)"
  shows "\<exists>rest. cluster_next W (lk_workers L ! w) e =
    (tag, if enc then the (seal_frame C (g_session_key (G (lk_workers L ! w))) (g_channel_binding (G (lk_workers L ! w)))
      DIRECTION_WORKER_TO_CENTRAL tag (ms_recv_nonce_ctr m ! w) p) else p) # rest"
  using assms by (auto simp: at_link_def at_next_def cluster_next_def Let_def on_wire_append)

lemma bulk_from_link:
  assumes C: "aead_documented C" "aead_total C" and L: "links_match n L G" "w < n" and at: "at_link C L G m e w H R"
    and nx: "at_next C L G W w H (R @ (tag, p, enc) # Q)" and l: "NPUB + length p + ABYTES \<le> INT_MAX"
  shows "\<exists>m' e'. runs_to Y (bulk_from C (cluster_mpi Y clock W) L enc tag (length p) w m) e (Some (p, m')) e' \<and>
    at_link C L G m' e' w H (R @ [(tag, p, enc)]) \<and> others_kept L w m e m' e'"
proof -
  let ?M = "cluster_mpi Y clock W" and ?c = "lk_workers L ! w" and ?n = "ms_recv_nonce_ctr m ! w"
  let ?g = "G ?c"
  obtain f where f: "seal_frame C (g_session_key ?g) (g_channel_binding ?g) DIRECTION_WORKER_TO_CENTRAL tag ?n p = Some f"
    using seal_frame_total [OF C] by blast
  let ?p = "if enc then f else p" and ?k = "?n + (if enc then 1 else 0)"
  let ?e = "e\<lparr>cl_taken := (cl_taken e)(?c := Suc (cl_taken e ?c))\<rparr>"
  from next_item [OF at nx] f obtain rest where "cluster_next W ?c e = (tag, ?p) # rest" by auto
  then have r: "runs_to Y (mpi_recv_f ?M (int (length ?p)) tag ?c) e ?p ?e"
    by (intro runs_to_mpi_recv cluster_mpi_recv) simp_all
  have len: "length ?p = (if enc then NPUB + length p + ABYTES else length p)" using seal_frame_length [OF f] by simp
  have "\<not> length p > INT_MAX" "\<not> length p > INT_MAX - NPUB - ABYTES" using l by auto
  then have b: "runs_to Y (master_recv_bulk C ?M ?c (g_session_key ?g) (g_channel_binding ?g) ?n (length p) tag enc) e (Some (p, ?k)) ?e"
    using r len open_seal [OF C(1) f]
    by (cases enc) (auto simp: master_recv_bulk_def Let_def count_documented_snd [OF cluster_mpi_documented]
      simp del: of_nat_add intro!: runs_to_ret cluster_malloc elim!: runs_to_bind)
  have "runs_to Y (bulk_from C ?M L enc tag (length p) w m) e
      (Some (p, m\<lparr>ms_recv_nonce_ctr := (ms_recv_nonce_ctr m)[w := ?k]\<rparr>)) ?e"
    unfolding bulk_from_def at_link_view [OF L]
    by (rule runs_to_bind [OF b]) (simp add: received_def runs_to_ret)
  with at_link_taken [OF at refl refl, of enc tag p] show ?thesis by blast
qed

lemma small_from_link:
  assumes C: "aead_documented C" "aead_total C" and L: "links_match n L G" "w < n" and at: "at_link C L G m e w H R"
    and nx: "at_next C L G W w H (R @ (tag, p, enc) # Q)" and l: "int (length p) \<le> SECURE_MAX_PLAIN"
  shows "\<exists>m' e'. runs_to Y (small_from C (cluster_mpi Y clock W) L enc tag (int (length p)) w m) e (Some (p, m')) e' \<and>
    at_link C L G m' e' w H (R @ [(tag, p, enc)]) \<and> others_kept L w m e m' e'"
proof -
  let ?M = "cluster_mpi Y clock W" and ?c = "lk_workers L ! w" and ?n = "ms_recv_nonce_ctr m ! w"
  let ?g = "G ?c"
  obtain f where f: "seal_frame C (g_session_key ?g) (g_channel_binding ?g) DIRECTION_WORKER_TO_CENTRAL tag ?n p = Some f"
    using seal_frame_total [OF C] by blast
  let ?p = "if enc then f else p" and ?k = "?n + (if enc then 1 else 0)"
  let ?e = "e\<lparr>cl_taken := (cl_taken e)(?c := Suc (cl_taken e ?c))\<rparr>"
  from next_item [OF at nx] f obtain rest where "cluster_next W ?c e = (tag, ?p) # rest" by auto
  then have r: "runs_to Y (mpi_recv_f ?M (int (length ?p)) tag ?c) e ?p ?e"
    by (intro runs_to_mpi_recv cluster_mpi_recv) simp_all
  have len: "int (length ?p) = (if enc then int NPUB + int (length p) + int ABYTES else int (length p))"
    using seal_frame_length [OF f] by simp
  have b: "runs_to Y (master_workload_recv_small C ?M ?c (g_session_key ?g) (g_channel_binding ?g) ?n (int (length p)) tag enc) e
      (Some (p, ?k)) ?e"
    using r len l open_seal [OF C(1) f]
    by (cases enc) (auto simp: master_workload_recv_small_def master_secure_recv_def Let_def
      count_documented_snd [OF cluster_mpi_documented] intro!: runs_to_ret elim!: runs_to_bind)
  have "runs_to Y (small_from C ?M L enc tag (int (length p)) w m) e
      (Some (p, m\<lparr>ms_recv_nonce_ctr := (ms_recv_nonce_ctr m)[w := ?k]\<rparr>)) ?e"
    unfolding small_from_def at_link_view [OF L]
    by (rule runs_to_bind [OF b]) (simp add: received_def runs_to_ret)
  with at_link_taken [OF at refl refl, of enc tag p] show ?thesis by blast
qed

section \<open>Loops over the workers\<close>

lemma links_loop:
  assumes L: "links_match n L G"
    and body: "\<And>w m e. w < n \<Longrightarrow> at_link C L G m e w (H w) (R w) \<Longrightarrow>
      \<exists>m' e'. runs_to Y (body w m) e m' e' \<and> at_link C L G m' e' w (H' w) (R' w) \<and> others_kept L w m e m' e'"
    and start: "\<forall>w < n. at_link C L G m e w (H w) (R w)"
  shows "\<exists>m' e'. runs_to Y (loopP body [0..<n] m) e m' e' \<and> (\<forall>w < n. at_link C L G m' e' w (H' w) (R' w))"
proof -
  let ?I = "\<lambda>i m e. \<forall>w < n. at_link C L G m e w (if w < i then H' w else H w) (if w < i then R' w else R w)"
  have "\<exists>m' e'. runs_to Y (loopP body [0..<n] m) e m' e' \<and> ?I n m' e'"
  proof (rule runs_to_loop [where I = ?I])
    fix i m e assume i: "i < n" and I: "?I i m e"
    then have "at_link C L G m e i (H i) (R i)" by auto
    from body [OF i this] obtain m' e' where b: "runs_to Y (body i m) e m' e'"
      "at_link C L G m' e' i (H' i) (R' i)" and k: "others_kept L i m e m' e'" by blast
    have "?I (Suc i) m' e'"
    proof (intro allI impI)
      fix w assume w: "w < n"
      show "at_link C L G m' e' w (if w < Suc i then H' w else H w) (if w < Suc i then R' w else R w)"
      proof (cases "w = i")
        case False
        with I w at_link_kept [OF k L w i False] show ?thesis by (auto simp: less_Suc_eq)
      qed (simp add: b(2))
    qed
    with b(1) show "\<exists>m' e'. runs_to Y (body i m) e m' e' \<and> ?I (Suc i) m' e'" by blast
  qed (use start in simp)
  then show ?thesis by auto
qed

definition all_links ::
  "crypto \<Rightarrow> links \<Rightarrow> (comm \<Rightarrow> worker_chan) \<Rightarrow> nat \<Rightarrow> master_state \<Rightarrow> cluster \<Rightarrow> (nat \<Rightarrow> item list) \<Rightarrow> (nat \<Rightarrow> item list) \<Rightarrow> bool" where
  "all_links C L G n m e H R \<longleftrightarrow> (\<forall>w < n. at_link C L G m e w (H w) (R w))"

lemma all_links_cong:
  "all_links C L G n m e H R \<Longrightarrow> (\<And>w. w < n \<Longrightarrow> H w = H' w) \<Longrightarrow> (\<And>w. w < n \<Longrightarrow> R w = R' w) \<Longrightarrow> all_links C L G n m e H' R'"
  by (simp add: all_links_def)

lemma all_links_ticks [simp]: "all_links C L G n m (e\<lparr>cl_ticks := t\<rparr>) H R = all_links C L G n m e H R"
  by (simp add: all_links_def)

section \<open>Calls that concern no worker\<close>

lemma runs_to_wtime:
  "runs_to Y (k (clock (cl_ticks e))) (e\<lparr>cl_ticks := Suc (cl_ticks e)\<rparr>) x e' \<Longrightarrow>
    runs_to Y (bindP (mpi_wtime (cluster_mpi Y' clock W)) k) e x e'"
  unfolding mpi_wtime_def by (rule runs_to_bind [OF runs_to_env]) simp_all

lemma runs_to_disconnect: "runs_to Y (npb_mpi_disconnect (cluster_mpi Y clock W) c) e MPI_SUCCESS e"
  unfolding runs_to_def
proof (intro allI impI)
  fix s assume "wait_ready Y s"
  from npb_scope.scoped_call [OF this, of NPB_WAIT_SHUTDOWN "m_disconnect (cluster_mpi Y clock W) c" "\<lambda>_. True" id undefined e]
  show "\<exists>s'. wait_ready Y s' \<and> npb_mpi_disconnect (cluster_mpi Y clock W) c (s, e) = Done MPI_SUCCESS (s', e)"
    by (auto simp: npb_mpi_disconnect_def)
qed

end
