(* ===== verification/Bench_Complete.thy ===== *)
theory Bench_Complete
  imports Bench_Process Worker_Cluster
begin

text \<open>
  Both sides of the DGEMM benchmark over one network: the central node of src/master_bench.c runs with an MPI
  behind whose communicators the workers of src/worker_bench.c run. The state of every conversation is known
  before and after each step (\<open>said\<close>, \<open>answered\<close>), so every receive call finds the message it waits for.
\<close>

section \<open>Matrices\<close>

lemma matrix_to_bulk:
  assumes "8 * length d \<le> INT_MAX"
  shows "matrix_to C M L enc tag d w m = bulk_to C M L enc tag (bytes_of_dbls d) w m"
  by (simp add: matrix_to_def bulk_to_def master_send_matrix_bulk [OF assms])

lemma matrix_from_bulk:
  assumes "8 * k \<le> INT_MAX"
  shows "matrix_from C M L enc tag k w m =
    bindP (bulk_from C M L enc tag (8 * k) w m) (\<lambda>r. ret (map_option (map_prod dbls_of_bytes id) r))"
  unfolding matrix_from_def bulk_from_def master_recv_matrix_bulk [OF assms] bindP_assoc
  by (rule ext) (simp add: bindP_def received_def option.map_comp comp_def case_prod_unfold split: outcome.splits)

definition bench_fits :: "nat \<Rightarrow> bool" where
  "bench_fits k \<longleftrightarrow> k \<le> 8192 * 8192"

lemma bench_fitsD: "bench_fits k \<Longrightarrow> 8 * k \<le> INT_MAX" "bench_fits k \<Longrightarrow> NPUB + 8 * k + ABYTES \<le> INT_MAX"
  by (simp_all add: bench_fits_def INT_MAX_def channel_consts)

lemma bench_shape_fits:
  assumes "bench_shape n mdim A B w"
  shows "bench_fits (bench_rows mdim n * mdim)" "bench_fits (mdim * mdim)"
proof -
  have "mdim \<le> 8192" "bench_rows mdim n \<le> 8192" using assms by (simp_all add: bench_shape_def)
  then show "bench_fits (bench_rows mdim n * mdim)" "bench_fits (mdim * mdim)"
    unfolding bench_fits_def by (simp_all only: mult_le_mono)
qed

lemma matrix_to_link:
  assumes "aead_documented C" "aead_total C" "links_match n L G" "w < n" "at_link C L G m e w H R"
    and "sealed_count H < 2 ^ 64 - 1" and "bench_fits (length d)"
  shows "\<exists>m' e'. runs_to Y (matrix_to C (cluster_mpi Y clock W) L enc tag d w m) e m' e' \<and>
    at_link C L G m' e' w (H @ [(tag, bytes_of_dbls d, enc)]) R \<and> others_kept L w m e m' e'"
  unfolding matrix_to_bulk [OF bench_fitsD(1) [OF assms(7)]]
  by (rule bulk_to_link [OF assms(1-6)]) (use bench_fitsD(2) [OF assms(7)] in simp)

lemma matrix_from_link:
  assumes "aead_documented C" "aead_total C" "links_match n L G" "w < n" "at_link C L G m e w H R"
    and "at_next C L G W w H (R @ (tag, bytes_of_dbls d, enc) # Q)" and "bench_fits (length d)"
  shows "\<exists>m' e'. runs_to Y (matrix_from C (cluster_mpi Y clock W) L enc tag (length d) w m) e (Some (d, m')) e' \<and>
    at_link C L G m' e' w H (R @ [(tag, bytes_of_dbls d, enc)]) \<and> others_kept L w m e m' e'"
proof -
  have "NPUB + length (bytes_of_dbls d) + ABYTES \<le> INT_MAX" using bench_fitsD(2) [OF assms(7)] by simp
  from bulk_from_link [OF assms(1-6) this, where Y = Y and clock = clock] obtain m' e' where
    r: "runs_to Y (bulk_from C (cluster_mpi Y clock W) L enc tag (8 * length d) w m) e (Some (bytes_of_dbls d, m')) e'" and
    s: "at_link C L G m' e' w H (R @ [(tag, bytes_of_dbls d, enc)])" "others_kept L w m e m' e'" by auto
  have "runs_to Y (matrix_from C (cluster_mpi Y clock W) L enc tag (length d) w m) e (Some (d, m')) e'"
    unfolding matrix_from_bulk [OF bench_fitsD(1) [OF assms(7)]]
    by (rule runs_to_bind [OF r]) (simp add: dbls_bytes_roundtrip runs_to_ret)
  with s show ?thesis by blast
qed

section \<open>Scattering and collecting\<close>

lemma bench_scatter_link:
  assumes C: "aead_documented C" "aead_total C" and L: "links_match n L G" "w < n" and at: "at_link C L G m e w H R"
    and room: "length H < 2 ^ 32" and s: "bench_shape n mdim A B w"
  shows "\<exists>m' e'. runs_to Y (bench_scatter C (cluster_mpi Y clock W) L n enc mdim A B w m) e m' e' \<and>
    at_link C L G m' e' w (H @ bench_inputs enc n mdim A B w) R \<and> others_kept L w m e m' e'"
proof -
  have f: "bench_fits (length (bench_block mdim n A w))" "bench_fits (length B)"
    using bench_shape_fits [OF s] s by (simp_all add: bench_shape_def)
  have r: "sealed_count H < 2 ^ 64 - 1" "sealed_count (H @ [(TAG_BENCH_A, p, enc)]) < 2 ^ 64 - 1" for p
    using room sealed_count_le [of H] by simp_all
  from matrix_to_link [OF C L at r(1) f(1), where Y = Y and clock = clock] obtain m1 e1 where
    1: "runs_to Y (matrix_to C (cluster_mpi Y clock W) L enc TAG_BENCH_A (bench_block mdim n A w) w m) e m1 e1"
      "at_link C L G m1 e1 w (H @ [(TAG_BENCH_A, bytes_of_dbls (bench_block mdim n A w), enc)]) R" "others_kept L w m e m1 e1"
    by blast
  from matrix_to_link [OF C L 1(2) r(2) f(2), where Y = Y and clock = clock and W = W and tag = TAG_BENCH_B and enc = enc] obtain m2 e2 where
    2: "runs_to Y (matrix_to C (cluster_mpi Y clock W) L enc TAG_BENCH_B B w m1) e1 m2 e2"
      "at_link C L G m2 e2 w (H @ bench_inputs enc n mdim A B w) R" "others_kept L w m1 e1 m2 e2"
    by (auto simp: bench_inputs_def)
  from 1(1) 2(1) have "runs_to Y (bench_scatter C (cluster_mpi Y clock W) L n enc mdim A B w m) e m2 e2"
    unfolding bench_scatter_def by (rule runs_to_bind)
  with 2(2) others_kept_trans [OF 1(3) 2(3)] show ?thesis by blast
qed

definition clock_good :: "(nat \<Rightarrow> dbl) \<Rightarrow> bool" where
  \<comment> \<open>the time between two readings is a non-negative number of milliseconds\<close>
  "clock_good clock \<longleftrightarrow>
     (\<forall>t. d_isfinite (elapsed_ms (clock t) (clock (Suc t))) \<and> \<not> d_lt (elapsed_ms (clock t) (clock (Suc t))) 0)"

lemma bench_collect_link:
  assumes C: "aead_documented C" "aead_total C" and L: "links_match n L G" "w < n" and at: "at_link C L G m e w H R"
    and nx: "at_next C L G W w H (R @ bench_outputs clk enc n mdim A B w t)" and s: "bench_shape n mdim A B w"
    and clk: "clock_good clk"
  shows "\<exists>m' tmax' e'. runs_to Y (bench_collect C (cluster_mpi Y clock W) L n enc mdim w (m, Cm, tmax)) e
      (m', bench_store mdim n w (bench_part_of n mdim A B w) Cm, tmax') e' \<and>
    at_link C L G m' e' w H (R @ bench_outputs clk enc n mdim A B w t) \<and> others_kept L w m e m' e'"
proof -
  let ?P = "bench_part_of n mdim A B w" and ?x = "elapsed_ms (clk t) (clk (Suc t))" and ?M = "cluster_mpi Y clock W"
  have l: "length ?P = bench_rows mdim n * mdim" by (simp add: bench_part_of_def)
  have f: "bench_fits (length ?P)" using bench_shape_fits [OF s] by (simp add: l)
  have nx1: "at_next C L G W w H (R @ (TAG_BENCH_C, bytes_of_dbls ?P, enc) # [(TAG_BENCH_TIME, le_enc 8 ?x, enc)])"
    and nx2: "at_next C L G W w H ((R @ [(TAG_BENCH_C, bytes_of_dbls ?P, enc)]) @ (TAG_BENCH_TIME, le_enc 8 ?x, enc) # [])"
    using nx by (simp_all add: bench_outputs_def)
  from matrix_from_link [OF C L at nx1 f, where Y = Y and clock = clock] obtain m1 e1 where
    1: "runs_to Y (matrix_from C ?M L enc TAG_BENCH_C (bench_rows mdim n * mdim) w m) e (Some (?P, m1)) e1"
      "at_link C L G m1 e1 w H (R @ [(TAG_BENCH_C, bytes_of_dbls ?P, enc)])" "others_kept L w m e m1 e1"
    unfolding l by blast
  from small_from_link [OF C L 1(2) nx2, where Y = Y and clock = clock] obtain m2 e2 where
    2: "runs_to Y (small_from C ?M L enc TAG_BENCH_TIME 8 w m1) e1 (Some (le_enc 8 ?x, m2)) e2"
      "at_link C L G m2 e2 w H (R @ bench_outputs clk enc n mdim A B w t)" "others_kept L w m1 e1 m2 e2"
    by (auto simp: channel_consts bench_outputs_def)
  let ?t = "if d_lt tmax ?x then ?x else tmax"
  have ok: "d_isfinite ?x" "\<not> d_lt ?x 0" using clk by (simp_all add: clock_good_def)
  have "runs_to Y (bench_collect C ?M L n enc mdim w (m, Cm, tmax)) e (m2, bench_store mdim n w ?P Cm, ?t) e2"
    unfolding bench_collect_def prod.case
    by (rule runs_to_bind [OF 1(1)], simp only: option.case prod.case Let_def, rule runs_to_bind [OF 2(1)])
      (simp add: Let_def ok runs_to_ret)
  with 2(2) others_kept_trans [OF 1(3) 2(3)] show ?thesis by blast
qed

section \<open>A run\<close>

lemma collect_loop:
  assumes C: "aead_documented C" "aead_total C" and L: "links_match n L G" and at: "all_links C L G n m e H R"
    and nx: "\<And>w. w < n \<Longrightarrow> at_next C L G W w (H w) (R w @ bench_outputs (clk w) enc n mdim A B w t)"
    and s: "\<And>w. w < n \<Longrightarrow> bench_shape n mdim A B w" and clk: "\<And>w. w < n \<Longrightarrow> clock_good (clk w)"
  shows "\<exists>m' tmax e'. runs_to Y (loopP (bench_collect C (cluster_mpi Y clock W) L n enc mdim) [0..<n] (m, Cm, 0)) e
      (m', bench_place mdim n (bench_part_of n mdim A B) n Cm, tmax) e' \<and>
    all_links C L G n m' e' H (\<lambda>w. R w @ bench_outputs (clk w) enc n mdim A B w t)"
proof -
  let ?R = "\<lambda>w. R w @ bench_outputs (clk w) enc n mdim A B w t"
  let ?I = "\<lambda>i (s :: master_state \<times> dbl list \<times> dbl) e. fst (snd s) = bench_place mdim n (bench_part_of n mdim A B) i Cm \<and>
    (\<forall>w < n. at_link C L G (fst s) e w (H w) (if w < i then ?R w else R w))"
  have "\<exists>s' e'. runs_to Y (loopP (bench_collect C (cluster_mpi Y clock W) L n enc mdim) [0..<n] (m, Cm, 0)) e s' e' \<and> ?I n s' e'"
  proof (rule runs_to_loop [where I = ?I])
    fix i s e assume i: "i < n" and I: "?I i s e"
    obtain m Cm' tm where st: "s = (m, Cm', tm)" by (cases s)
    with I i have at: "at_link C L G m e i (H i) (R i)" by auto
    from bench_collect_link [OF C L i at nx [OF i] s [OF i] clk [OF i], where Y = Y and clock = clock and Cm = Cm' and tmax = tm]
    obtain m' t' e' where
      b: "runs_to Y (bench_collect C (cluster_mpi Y clock W) L n enc mdim i s) e
        (m', bench_store mdim n i (bench_part_of n mdim A B i) Cm', t') e'" "at_link C L G m' e' i (H i) (?R i)"
      and k: "others_kept L i m e m' e'" unfolding st by blast
    have "at_link C L G m' e' w (H w) (if w < Suc i then ?R w else R w)" if w: "w < n" for w
    proof (cases "w = i")
      case False
      with I st w at_link_kept [OF k L w i False] show ?thesis by (auto simp: less_Suc_eq)
    qed (simp add: b(2))
    with I st have "?I (Suc i) (m', bench_store mdim n i (bench_part_of n mdim A B i) Cm', t') e'"
      by (simp add: bench_place_def)
    with b(1) show "\<exists>s' e'. runs_to Y (bench_collect C (cluster_mpi Y clock W) L n enc mdim i s) e s' e' \<and> ?I (Suc i) s' e'"
      by blast
  qed (use at in \<open>simp add: bench_place_def all_links_def\<close>)
  then show ?thesis by (auto simp: all_links_def)
qed

lemma checks_pass:
  assumes "\<And>w. w \<in> set ws \<Longrightarrow> verify_row A B Cm mdim (bench_checked_row mdim n w) = 0"
  shows "runs_to Y (loopP (bench_check_worker mdim n A B Cm) ws ()) e () e"
  using assms
proof (induction ws)
  case (Cons w ws)
  then show ?case by (auto simp: bench_check_worker_def runs_to_ret)
qed (simp add: runs_to_ret)

lemma checked_row_less:
  assumes "n dvd mdim" and "w < n" and "0 < mdim"
  shows "bench_checked_row mdim n w < mdim"
proof -
  obtain q where q: "mdim = n * q" using assms(1) by (rule dvdE)
  have "Suc w * q \<le> mdim" unfolding q using assms(2) by (intro mult_le_mono1) simp
  moreover have "0 < q" using q assms(3) by (cases q) auto
  ultimately have "w * q + q div 2 < mdim" by simp
  then show ?thesis using q assms(2) by (simp add: bench_checked_row_def bench_row_start_def bench_rows_def)
qed

section \<open>A dimension\<close>

definition bench_workers ::
  "crypto \<Rightarrow> wait_sys \<Rightarrow> (comm \<Rightarrow> nat \<Rightarrow> dbl) \<Rightarrow> (comm \<Rightarrow> worker_chan) \<Rightarrow> comm \<Rightarrow> frames \<Rightarrow> frames" where
  \<comment> \<open>behind each communicator the worker of src/worker_bench.c, after its enrolment\<close>
  "bench_workers C Y clk G c = replies Y (clk c) (bench_program C (G c))"

definition honest_setup ::
  "bool \<Rightarrow> bench_options \<Rightarrow> nat \<Rightarrow> crypto \<Rightarrow> wait_sys \<Rightarrow> (comm \<Rightarrow> nat \<Rightarrow> dbl) \<Rightarrow> links \<Rightarrow> (comm \<Rightarrow> worker_chan) \<Rightarrow> bool" where
  "honest_setup skip opt n C Y clk L G \<longleftrightarrow> bench_options_valid skip opt \<and> 0 < n \<and> aead_documented C \<and> aead_total C \<and>
     wait_sys_good Y \<and> (\<forall>c. clock_good (clk c)) \<and> links_match n L G"

definition bench_dim :: "nat \<Rightarrow> nat \<Rightarrow> bool" where
  "bench_dim n d \<longleftrightarrow> 1 \<le> d \<and> d \<le> 8192 \<and> n dvd d"

text \<open>The conversation with worker w after the dimensions ds and k runs of the dimension d.\<close>

definition said :: "libc_rand \<Rightarrow> bench_options \<Rightarrow> nat \<Rightarrow> nat list \<Rightarrow> nat \<Rightarrow> nat \<Rightarrow> nat \<Rightarrow> item list" where
  "said R opt n ds d k w = bench_history R opt n w ds @ bench_request R opt n w k d"

definition answered ::
  "links \<Rightarrow> (comm \<Rightarrow> nat \<Rightarrow> dbl) \<Rightarrow> libc_rand \<Rightarrow> bench_options \<Rightarrow> nat \<Rightarrow> nat list \<Rightarrow> nat \<Rightarrow> nat \<Rightarrow> nat \<Rightarrow> item list" where
  "answered L clk R opt n ds d k w = bench_reports (clk (lk_workers L ! w)) R opt n w 0 ds @
     bench_response (clk (lk_workers L ! w)) R opt n w (2 * nat (b_num_runs opt) * length ds) k d"

lemma said_Suc: "said R opt n ds d (Suc k) w = said R opt n ds d k w @
    bench_inputs (b_encrypt opt) n d (fst (bench_matrices R d)) (snd (bench_matrices R d)) w"
proof -
  have "concat (replicate (Suc k) x) = concat (replicate k x) @ x" for x :: "item list"
    by (induction k) simp_all
  then show ?thesis by (simp add: said_def bench_request_def del: replicate.simps)
qed

lemma answered_Suc: "answered L clk R opt n ds d (Suc k) w = answered L clk R opt n ds d k w @
    bench_outputs (clk (lk_workers L ! w)) (b_encrypt opt) n d (fst (bench_matrices R d)) (snd (bench_matrices R d)) w
      (2 * nat (b_num_runs opt) * length ds + 2 * k)"
  by (simp add: answered_def bench_response_def)

lemma said_length:
  assumes "bench_options_valid skip opt" and "length ds < 32" and "k \<le> nat (b_num_runs opt)"
  shows "length (said R opt n ds d k w) < 2 ^ 32"
proof -
  have r: "nat (b_num_runs opt) \<le> 1000" using assms(1) by (auto simp: bench_options_valid_def)
  have q: "length (bench_request R opt n w j d) = 1 + 2 * j" for j d
    by (simp add: bench_request_def length_concat bench_inputs_def sum_list_replicate)
  have "length (bench_history R opt n w ds) = length ds * (1 + 2 * nat (b_num_runs opt))"
    by (induction ds) (simp_all add: bench_history_def q)
  also have "\<dots> \<le> 32 * 2001" using r assms(2) by (intro mult_le_mono) simp_all
  finally show ?thesis using r assms(3) by (simp add: said_def q)
qed

lemma honest_next:
  assumes S: "honest_setup skip opt n C Y clk L G" and ds: "\<forall>x \<in> set ds. bench_dim n x" "length ds < 32"
    and d: "bench_dim n d" and k: "k \<le> nat (b_num_runs opt)" and w: "w < n"
  shows "at_next C L G (bench_workers C Y clk G) w (said R opt n ds d k w) (answered L clk R opt n ds d k w)"
proof -
  let ?g = "G (lk_workers L ! w)" and ?r = "nat (b_num_runs opt)"
  note S = S [unfolded honest_setup_def]
  have g: "send_nonce_ctr ?g = 0" "recv_nonce_ctr ?g = 0" using S w by (simp_all add: links_match_def Let_def)
  have "?r \<le> 1000" using S by (auto simp: bench_options_valid_def)
  then have "?r * Suc (length ds) \<le> 1000 * 32" using ds(2) by (intro mult_le_mono) simp_all
  then have room: "has_room ?g (2 * ?r * Suc (length ds))" by (simp add: has_room_def g)
  have c: "\<forall>x \<in> set ds. bench_case skip opt n w x" "bench_case skip opt n w d"
    using ds d w S by (auto simp: bench_case_def bench_dim_def)
  from replies_runs [OF _ _ _ c k room, of C Y "clk (lk_workers L ! w)" R] S show ?thesis
    by (simp add: at_next_def Let_def bench_workers_def said_def answered_def g)
qed

lemma honest_shape:
  assumes "honest_setup skip opt n C Y clk L G" and "bench_dim n d" and "w < n"
  shows "bench_shape n d (fst (bench_matrices R d)) (snd (bench_matrices R d)) w"
  using assms by (intro bench_case_shape [of skip opt]) (auto simp: honest_setup_def bench_case_def bench_dim_def)

lemma bench_run_link:
  assumes S: "honest_setup skip opt n C Y clk L G" and ds: "\<forall>x \<in> set ds. bench_dim n x" "length ds < 32"
    and d: "bench_dim n d" and k: "k < nat (b_num_runs opt)" and AB: "bench_matrices R d = (A, B)"
    and at: "all_links C L G n (bn_ms (fst s)) e (said R opt n ds d k) (answered L clk R opt n ds d k)"
    and room: "length (bn_results (fst s)) < MAX_BENCH_RESULTS" and len: "length (snd s) = d * d"
  shows "\<exists>s' e' r. runs_to Y (bench_run C (cluster_mpi Y clock (bench_workers C Y clk G)) L n opt d A B run s) e s' e' \<and>
    all_links C L G n (bn_ms (fst s')) e' (said R opt n ds d (Suc k)) (answered L clk R opt n ds d (Suc k)) \<and>
    snd s' = ppdpc_dgemm A B d d d \<and> bn_results (fst s') = bn_results (fst s) @ [r] \<and> br_matrix_size r = d \<and> br_run r = run"
proof -
  let ?W = "bench_workers C Y clk G" and ?enc = "b_encrypt opt" and ?t = "2 * nat (b_num_runs opt) * length ds + 2 * k"
  let ?M = "cluster_mpi Y clock ?W"
  note S' = S [unfolded honest_setup_def]
  have C: "aead_documented C" "aead_total C" and L: "links_match n L G" using S' by simp_all
  have shape: "bench_shape n d A B w" if "w < n" for w using honest_shape [OF S d that, of R] by (simp add: AB)
  let ?e1 = "e\<lparr>cl_ticks := Suc (cl_ticks e)\<rparr>"
  have "\<exists>m1 e1. runs_to Y (loopP (bench_scatter C ?M L n ?enc d A B) [0..<n] (bn_ms (fst s))) ?e1 m1 e1 \<and>
      (\<forall>w < n. at_link C L G m1 e1 w (said R opt n ds d (Suc k) w) (answered L clk R opt n ds d k w))"
  proof (rule links_loop [OF L])
    fix w m e assume w: "w < n" and at: "at_link C L G m e w (said R opt n ds d k w) (answered L clk R opt n ds d k w)"
    have "length (said R opt n ds d k w) < 2 ^ 32" using said_length [OF _ ds(2), of skip opt k] S' k by simp
    from bench_scatter_link [OF C L w at this shape [OF w], where Y = Y and clock = clock and W = ?W and enc = ?enc]
    show "\<exists>m' e'. runs_to Y (bench_scatter C ?M L n ?enc d A B w m) e m' e' \<and>
        at_link C L G m' e' w (said R opt n ds d (Suc k) w) (answered L clk R opt n ds d k w) \<and> others_kept L w m e m' e'"
      by (simp add: said_Suc AB)
  qed (use at in \<open>simp add: all_links_def\<close>)
  then obtain m1 e1 where 1: "runs_to Y (loopP (bench_scatter C ?M L n ?enc d A B) [0..<n] (bn_ms (fst s))) ?e1 m1 e1"
    and at1: "all_links C L G n m1 e1 (said R opt n ds d (Suc k)) (answered L clk R opt n ds d k)"
    unfolding all_links_def by blast
  let ?e2 = "e1\<lparr>cl_ticks := Suc (cl_ticks e1)\<rparr>"
  have at2: "all_links C L G n m1 ?e2 (said R opt n ds d (Suc k)) (answered L clk R opt n ds d k)" using at1 by simp
  have a: "answered L clk R opt n ds d (Suc k) w =
      answered L clk R opt n ds d k w @ bench_outputs (clk (lk_workers L ! w)) ?enc n d A B w ?t" for w
    by (simp add: answered_Suc AB)
  have nx: "at_next C L G ?W w (said R opt n ds d (Suc k) w)
      (answered L clk R opt n ds d k w @ bench_outputs (clk (lk_workers L ! w)) ?enc n d A B w ?t)" if "w < n" for w
    unfolding a [symmetric] using k that by (intro honest_next [OF S ds d]) simp_all
  from collect_loop [OF C L at2 nx shape, where Y = Y and clock = clock and Cm = "snd s"] S' obtain m2 tm e2 where
    2: "runs_to Y (loopP (bench_collect C ?M L n ?enc d) [0..<n] (m1, snd s, 0)) ?e2
      (m2, bench_place d n (bench_part_of n d A B) n (snd s), tm) e2"
    and at3: "all_links C L G n m2 e2 (said R opt n ds d (Suc k)) (answered L clk R opt n ds d (Suc k))"
    unfolding a [abs_def] by auto
  have AB': "length A = d * d" using AB by (auto simp: bench_matrices_def)
  have Cm: "bench_place d n (bench_part_of n d A B) n (snd s) = ppdpc_dgemm A B d d d"
    unfolding bench_part_of_def using S' d by (intro dgemm_placed [OF _ _ AB' len]) (simp_all add: bench_dim_def)
  let ?e3 = "e2\<lparr>cl_ticks := Suc (cl_ticks e2)\<rparr>"
  have 3: "runs_to Y (if b_verify opt \<and> run = b_num_runs opt
      then loopP (bench_check_worker d n A B (ppdpc_dgemm A B d d d)) [0..<n] () else ret ()) ?e3 () ?e3"
    using d by (auto simp: runs_to_ret bench_dim_def intro!: checks_pass dgemm_verified checked_row_less)
  let ?r = "bench_result_of n opt d run (clock (cl_ticks e)) (clock (cl_ticks e1)) (clock (cl_ticks e2)) tm"
  have "bench_record ?r (bn_results (fst s)) = bn_results (fst s) @ [?r]" using room by (simp add: bench_record_def)
  moreover have "runs_to Y (bench_run C ?M L n opt d A B run s) e
      (\<lparr>bn_ms = m2, bn_results = bench_record ?r (bn_results (fst s))\<rparr>, ppdpc_dgemm A B d d d) ?e3"
    unfolding bench_run_def Let_def
    by (rule runs_to_wtime, rule runs_to_bind [OF 1], rule runs_to_wtime, rule runs_to_bind [OF 2], simp only: prod.case Cm,
      rule runs_to_wtime, rule runs_to_bind [OF 3], rule runs_to_ret)
  moreover have "br_matrix_size ?r = d" "br_run ?r = run" by (simp_all add: bench_result_of_def Let_def)
  ultimately show ?thesis using at3
    by (intro exI [of _ "(\<lparr>bn_ms = m2, bn_results = bench_record ?r (bn_results (fst s))\<rparr>, ppdpc_dgemm A B d d d)"]
      exI [of _ ?e3] exI [of _ ?r]) simp
qed

lemma loopP_map: "loopP body (map f xs) s = loopP (\<lambda>x. body (f x)) xs s"
  by (induction xs arbitrary: s) (auto simp: bindP_def fun_eq_iff split: outcome.split)

lemma upto_map: "[1..r] = map (\<lambda>i. int i + 1) [0..<nat r]"
  by (rule nth_equalityI) (auto simp: nth_upto)

definition at_dims ::
  "crypto \<Rightarrow> links \<Rightarrow> (comm \<Rightarrow> worker_chan) \<Rightarrow> (comm \<Rightarrow> nat \<Rightarrow> dbl) \<Rightarrow> libc_rand \<Rightarrow> bench_options \<Rightarrow> nat \<Rightarrow> nat list
    \<Rightarrow> master_state \<Rightarrow> cluster \<Rightarrow> bool" where
  \<comment> \<open>between two dimensions\<close>
  "at_dims C L G clk R opt n ds m e \<longleftrightarrow> all_links C L G n m e (\<lambda>w. bench_history R opt n w ds)
     (\<lambda>w. bench_reports (clk (lk_workers L ! w)) R opt n w 0 ds)"

lemma at_dims_done:
  "all_links C L G n m e (said R opt n ds d (nat (b_num_runs opt))) (answered L clk R opt n ds d (nat (b_num_runs opt))) \<Longrightarrow>
    at_dims C L G clk R opt n (ds @ [d]) m e"
  unfolding at_dims_def by (erule all_links_cong) (simp_all add: said_def answered_def bench_reports_append)

definition of_runs :: "nat \<Rightarrow> int \<Rightarrow> bench_result list \<Rightarrow> bool" where
  "of_runs d r rs \<longleftrightarrow> map (\<lambda>x. (br_matrix_size x, br_run x)) rs = map (Pair d) [1..r]"

lemma commands_link:
  assumes S: "honest_setup skip opt n C Y clk L G" and ds: "length ds < 32"
    and at: "at_dims C L G clk R opt n ds m e"
  shows "\<exists>m' e'. runs_to Y (loopP (bench_send_command C (cluster_mpi Y clock W) L n opt d) [0..<n] m) e m' e' \<and>
    all_links C L G n m' e' (said R opt n ds d 0) (answered L clk R opt n ds d 0)"
proof -
  note S' = S [unfolded honest_setup_def]
  have "\<exists>m' e'. runs_to Y (loopP (bench_send_command C (cluster_mpi Y clock W) L n opt d) [0..<n] m) e m' e' \<and>
      (\<forall>w < n. at_link C L G m' e' w (said R opt n ds d 0 w) (answered L clk R opt n ds d 0 w))"
  proof (rule links_loop [where R = "answered L clk R opt n ds d 0"])
    fix w m e assume w: "w < n"
      and at: "at_link C L G m e w (bench_history R opt n w ds) (answered L clk R opt n ds d 0 w)"
    have "length (said R opt n ds d 0 w) < 2 ^ 32" using said_length [OF _ ds, of skip opt 0] S' by simp
    then have "sealed_count (bench_history R opt n w ds) < 2 ^ 64 - 1"
      using sealed_count_le [of "bench_history R opt n w ds"] by (simp add: said_def)
    from secure_to_link [OF _ _ _ w at this, of "encode_bench_cmd (bench_command opt n d w)" Y clock W TAG_BENCH_CMD] S'
    show "\<exists>m' e'. runs_to Y (bench_send_command C (cluster_mpi Y clock W) L n opt d w m) e m' e' \<and>
        at_link C L G m' e' w (said R opt n ds d 0 w) (answered L clk R opt n ds d 0 w) \<and> others_kept L w m e m' e'"
      by (simp add: bench_send_command_def said_def bench_request_def channel_consts)
  qed (use S' at in \<open>simp_all add: at_dims_def all_links_def answered_def bench_response_def\<close>)
  then show ?thesis by (simp add: all_links_def)
qed

lemma bench_size_link:
  assumes S: "honest_setup skip opt n C Y clk L G" and ds: "\<forall>x \<in> set ds. bench_dim n x" "length ds < 32"
    and d: "bench_dim n (nat sz)" and at: "at_dims C L G clk R opt n ds (bn_ms s) e"
    and room: "length (bn_results s) + nat (b_num_runs opt) \<le> MAX_BENCH_RESULTS"
  shows "\<exists>s' e' rs. runs_to Y (bench_size C (cluster_mpi Y clock (bench_workers C Y clk G)) R L n opt sz s) e s' e' \<and>
    at_dims C L G clk R opt n (ds @ [nat sz]) (bn_ms s') e' \<and> bn_results s' = bn_results s @ rs \<and>
    of_runs (nat sz) (b_num_runs opt) rs"
proof -
  let ?M = "cluster_mpi Y clock (bench_workers C Y clk G)" and ?d = "nat sz" and ?r = "nat (b_num_runs opt)"
  obtain A B where AB: "bench_matrices R ?d = (A, B)" by fastforce
  from commands_link [OF S ds(2) at, of clock "bench_workers C Y clk G" ?d] obtain m e1 where
    1: "runs_to Y (loopP (bench_send_command C ?M L n opt ?d) [0..<n] (bn_ms s)) e m e1"
    and at1: "all_links C L G n m e1 (said R opt n ds ?d 0) (answered L clk R opt n ds ?d 0)" by blast
  let ?I = "\<lambda>i (s' :: bench_state \<times> dbl list) e'. all_links C L G n (bn_ms (fst s')) e' (said R opt n ds ?d i) (answered L clk R opt n ds ?d i) \<and>
    length (snd s') = ?d * ?d \<and> (\<exists>rs. bn_results (fst s') = bn_results s @ rs \<and>
      map (\<lambda>x. (br_matrix_size x, br_run x)) rs = map (\<lambda>j. (?d, int j + 1)) [0..<i])"
  let ?s = "(s\<lparr>bn_ms := m\<rparr>, replicate (?d * ?d) (0 :: dbl))"
  have "\<exists>s' e'. runs_to Y (loopP (\<lambda>i. bench_run C ?M L n opt ?d A B (int i + 1)) [0..<?r] ?s) e1 s' e' \<and> ?I ?r s' e'"
  proof (rule runs_to_loop [where I = ?I])
    fix i s1 e assume i: "i < ?r" and I: "?I i s1 e"
    then obtain rs where rs: "bn_results (fst s1) = bn_results s @ rs"
      "map (\<lambda>x. (br_matrix_size x, br_run x)) rs = map (\<lambda>j. (?d, int j + 1)) [0..<i]" by blast
    have "length rs = i" using arg_cong [OF rs(2), of length] by simp
    then have "length (bn_results (fst s1)) < MAX_BENCH_RESULTS" using room i rs(1) by simp
    from bench_run_link [OF S ds d i AB _ this, of e clock "int i + 1"] I obtain s' e' r where
      "runs_to Y (bench_run C ?M L n opt ?d A B (int i + 1) s1) e s' e'"
      "all_links C L G n (bn_ms (fst s')) e' (said R opt n ds ?d (Suc i)) (answered L clk R opt n ds ?d (Suc i))"
      "snd s' = ppdpc_dgemm A B ?d ?d ?d" "bn_results (fst s') = bn_results (fst s1) @ [r]" "br_matrix_size r = ?d" "br_run r = int i + 1"
      by blast
    with rs show "\<exists>s' e'. runs_to Y (bench_run C ?M L n opt ?d A B (int i + 1) s1) e s' e' \<and> ?I (Suc i) s' e'"
      by (intro exI [of _ s'] exI [of _ e'] conjI exI [of _ "rs @ [r]"]) simp_all
  qed (use at1 in simp)
  then obtain s' e' where 2: "runs_to Y (loopP (bench_run C ?M L n opt ?d A B) [1..b_num_runs opt] ?s) e1 s' e'" and I: "?I ?r s' e'"
    unfolding upto_map loopP_map by blast
  from I obtain rs where rs: "bn_results (fst s') = bn_results s @ rs"
    "map (\<lambda>x. (br_matrix_size x, br_run x)) rs = map (\<lambda>j. (?d, int j + 1)) [0..<?r]" by blast
  have mod: "?d mod n = 0" using d by (simp add: bench_dim_def dvd_eq_mod_eq_0)
  have "?d * ?d \<le> 8192 * 8192" using d by (intro mult_le_mono) (simp_all add: bench_dim_def)
  then have le: "\<not> ?d * ?d > INT_MAX" by (simp add: INT_MAX_def)
  have "runs_to Y (bench_size C ?M R L n opt sz s) e (fst s') e'"
    unfolding bench_size_def Let_def AB prod.case
    using mod le by (auto simp del: upto.simps intro!: cluster_malloc runs_to_bind [OF 1] runs_to_bind [OF 2] runs_to_ret split: prod.split)
  moreover have "of_runs ?d (b_num_runs opt) rs" using rs(2) by (simp add: of_runs_def upto_map)
  ultimately show ?thesis using at_dims_done [OF conjunct1 [OF I]] rs(1) by blast
qed

lemma bench_size_skipped:
  "\<not> n dvd nat sz \<Longrightarrow> runs_to Y (bench_size C M R L n opt sz s) e s e"
  by (simp add: bench_size_def Let_def dvd_eq_mod_eq_0 runs_to_ret)

section \<open>All dimensions\<close>

lemma bench_sizes_link:
  assumes S: "honest_setup skip opt n C Y clk L G" and szs: "\<forall>sz \<in> set szs. 1 \<le> sz \<and> sz \<le> 8192"
    and ds: "\<forall>x \<in> set ds. bench_dim n x" "length ds + length szs \<le> 32"
    and at: "at_dims C L G clk R opt n ds (bn_ms s) e"
    and room: "length (bn_results s) + nat (b_num_runs opt) * length szs \<le> MAX_BENCH_RESULTS"
  shows "\<exists>s' e' rs. runs_to Y (loopP (bench_size C (cluster_mpi Y clock (bench_workers C Y clk G)) R L n opt) szs s) e s' e' \<and>
    at_dims C L G clk R opt n (ds @ filter (\<lambda>d. n dvd d) (map nat szs)) (bn_ms s') e' \<and> bn_results s' = bn_results s @ rs \<and>
    map (\<lambda>x. (br_matrix_size x, br_run x)) rs =
      concat (map (\<lambda>d. map (Pair d) [1..b_num_runs opt]) (filter (\<lambda>d. n dvd d) (map nat szs)))"
  using szs ds at room
proof (induction szs arbitrary: ds s e)
  case Nil
  then show ?case by (auto intro!: runs_to_ret exI)
next
  case (Cons sz szs)
  let ?M = "cluster_mpi Y clock (bench_workers C Y clk G)"
  show ?case
  proof (cases "n dvd nat sz")
    case False
    from Cons.prems have "length (bn_results s) + nat (b_num_runs opt) * length szs \<le> MAX_BENCH_RESULTS" by simp
    from Cons.IH [OF _ Cons.prems(2) _ Cons.prems(4) this] Cons.prems(1,3) obtain s' e' rs where
      "runs_to Y (loopP (bench_size C ?M R L n opt) szs s) e s' e'"
      "at_dims C L G clk R opt n (ds @ filter (\<lambda>d. n dvd d) (map nat szs)) (bn_ms s') e'" "bn_results s' = bn_results s @ rs"
      "map (\<lambda>x. (br_matrix_size x, br_run x)) rs =
        concat (map (\<lambda>d. map (Pair d) [1..b_num_runs opt]) (filter (\<lambda>d. n dvd d) (map nat szs)))" by auto
    then show ?thesis using False
      by (intro exI [of _ s'] exI [of _ e'] exI [of _ rs]) (auto intro!: runs_to_bind [OF bench_size_skipped])
  next
    case True
    then have d: "bench_dim n (nat sz)" using Cons.prems(1) by (auto simp: bench_dim_def)
    have "length ds < 32" "length (bn_results s) + nat (b_num_runs opt) \<le> MAX_BENCH_RESULTS" using Cons.prems(3,5) by simp_all
    from bench_size_link [OF S Cons.prems(2) this(1) d Cons.prems(4) this(2), of clock] obtain s1 e1 rs1 where
      1: "runs_to Y (bench_size C ?M R L n opt sz s) e s1 e1" "at_dims C L G clk R opt n (ds @ [nat sz]) (bn_ms s1) e1"
        "bn_results s1 = bn_results s @ rs1" "of_runs (nat sz) (b_num_runs opt) rs1" by blast
    have "length rs1 = nat (b_num_runs opt)" using arg_cong [OF 1(4) [unfolded of_runs_def], of length] by simp
    then have room: "length (bn_results s1) + nat (b_num_runs opt) * length szs \<le> MAX_BENCH_RESULTS"
      using Cons.prems(5) 1(3) by simp
    have ds: "\<forall>x \<in> set (ds @ [nat sz]). bench_dim n x" "length (ds @ [nat sz]) + length szs \<le> 32"
      using Cons.prems(2,3) d by simp_all
    from Cons.IH [OF _ ds 1(2) room] Cons.prems(1) obtain s' e' rs where
      "runs_to Y (loopP (bench_size C ?M R L n opt) szs s1) e1 s' e'"
      "at_dims C L G clk R opt n ((ds @ [nat sz]) @ filter (\<lambda>d. n dvd d) (map nat szs)) (bn_ms s') e'" "bn_results s' = bn_results s1 @ rs"
      "map (\<lambda>x. (br_matrix_size x, br_run x)) rs =
        concat (map (\<lambda>d. map (Pair d) [1..b_num_runs opt]) (filter (\<lambda>d. n dvd d) (map nat szs)))" by auto
    then show ?thesis using True 1
      by (intro exI [of _ s'] exI [of _ e'] exI [of _ "rs1 @ rs"]) (auto simp: of_runs_def intro!: runs_to_bind [OF 1(1)])
  qed
qed

section \<open>The end\<close>

abbreviation done_item :: item where
  "done_item \<equiv> (TAG_BENCH_CMD, encode_bench_cmd (bench_cmd_zero\<lparr>bc_cmd := CMD_BENCH_DONE\<rparr>), True)"

lemma bench_done_link:
  assumes S: "honest_setup skip opt n C Y clk L G" and ds: "length ds < 33"
    and at: "at_dims C L G clk R opt n ds m e"
  shows "\<exists>m' e'. runs_to Y (loopP (bench_send_done C (cluster_mpi Y clock W) L) [0..<n] m) e m' e' \<and>
    (\<forall>w < n. cl_sent e' (lk_workers L ! w) =
      to_worker C (G (lk_workers L ! w)) 0 (bench_history R opt n w ds @ [done_item]))"
proof -
  note S' = S [unfolded honest_setup_def]
  let ?H = "\<lambda>w. bench_history R opt n w ds" and ?R = "\<lambda>w. bench_reports (clk (lk_workers L ! w)) R opt n w 0 ds"
  have "\<exists>m' e'. runs_to Y (loopP (bench_send_done C (cluster_mpi Y clock W) L) [0..<n] m) e m' e' \<and>
      (\<forall>w < n. at_link C L G m' e' w (?H w @ [done_item]) (?R w))"
  proof (rule links_loop [where R = ?R])
    fix w m e assume w: "w < n" and at: "at_link C L G m e w (?H w) (?R w)"
    have "nat (b_num_runs opt) \<le> 1000" using S' by (auto simp: bench_options_valid_def)
    moreover have "length (?H w) = length ds * (1 + 2 * nat (b_num_runs opt))"
      by (induction ds) (simp_all add: bench_history_def bench_request_def length_concat bench_inputs_def sum_list_replicate)
    moreover have "length ds * (1 + 2 * nat (b_num_runs opt)) \<le> 33 * 2001" using calculation(1) ds by (intro mult_le_mono) simp_all
    ultimately have "sealed_count (?H w) < 2 ^ 64 - 1" using sealed_count_le [of "?H w"] by simp
    from secure_to_link [OF _ _ _ w at this, of "fst (snd done_item)" Y clock W TAG_BENCH_CMD] S' obtain m1 e1 where
      1: "runs_to Y (secure_to C (cluster_mpi Y clock W) L TAG_BENCH_CMD (fst (snd done_item)) w m) e m1 e1"
      "at_link C L G m1 e1 w (?H w @ [done_item]) (?R w)" "others_kept L w m e m1 e1" by (auto simp: channel_consts)
    have "runs_to Y (bench_send_done C (cluster_mpi Y clock W) L w m) e m1 e1"
      unfolding bench_send_done_def using 1(1) by (auto intro!: runs_to_bind runs_to_bind [OF runs_to_disconnect] runs_to_ret)
    with 1(2,3) show "\<exists>m' e'. runs_to Y (bench_send_done C (cluster_mpi Y clock W) L w m) e m' e' \<and>
        at_link C L G m' e' w (?H w @ [done_item]) (?R w) \<and> others_kept L w m e m' e'" by blast
  qed (use S' at in \<open>simp_all add: at_dims_def all_links_def\<close>)
  then show ?thesis by (auto simp: at_link_def Let_def)
qed

lemma at_dims_start:
  assumes "links_match n L G" and "n \<le> 128"
  shows "at_dims C L G clk R opt n [] (bn_ms bench_init) cluster_start"
  using assms by (simp add: at_dims_def all_links_def at_link_def Let_def bench_init_def cluster_start_def bench_history_def)

lemma worker_ends:
  assumes S: "honest_setup skip opt n C Y clk L G" and ds: "\<forall>d \<in> set ds. bench_dim n d" "length ds \<le> 32"
    and w: "w < n" "c = lk_workers L ! w"
    and sent: "frames = to_worker C (G c) 0 (bench_history R opt n w ds @ [done_item])"
  shows "\<exists>g z. bench_program C (G c) (worker_mpi Y (clk c)) (Suc (length frames)) (wait_init, ((frames, []), 0)) = Done g z"
proof -
  note S = S [unfolded honest_setup_def]
  have g: "send_nonce_ctr (G c) = 0" "recv_nonce_ctr (G c) = 0" using S w by (simp_all add: links_match_def Let_def)
  have "nat (b_num_runs opt) \<le> 1000" using S by (auto simp: bench_options_valid_def)
  with ds(2) have "length ds * nat (b_num_runs opt) \<le> 32 * 1000" by (intro mult_le_mono)
  then have room: "has_room (G c) (2 * nat (b_num_runs opt) * length ds)" by (simp add: has_room_def g)
  have Y: "wait_sys_good Y" using S by simp
  have cases: "\<forall>d \<in> set ds. bench_case skip opt n w d" using ds(1) S w by (auto simp: bench_case_def bench_dim_def)
  have "length ds < Suc (length frames)" using length_bench_history [of ds R opt n w] by (simp add: sent)
  from program_ends [OF _ _ cases room this, of C Y "clk c" R] S
  obtain g' z where
    "runs_to Y (bench_program C (G c) (worker_mpi Y (clk c)) (Suc (length frames))) ((frames, []), 0) g' z"
    unfolding g sent [symmetric] by blast
  from runs_toE [OF this wait_init_ready [OF Y]] show ?thesis by blast
qed

text \<open>
  C9: A benchmark with honest workers completes. Let the workers of src/worker_bench.c, as the enrolment leaves
  them, stand behind the central node's communicators, with the same keys, channel binding and counters at 0
  on both sides. Then, with any options that the command line accepts, with or without encryption and
  verification, for any matrices, the measurements of the central node end: no call waits for a message that
  does not come, no message is refused, no time is refused, no row fails its check; exactly one result for each
  run is recorded, in order, for exactly the dimensions that the number of workers divides; the final commands
  are sent; and every worker, given what it was sent, leaves its loop and has not been stopped before.
\<close>

theorem bench_completes:
  assumes "bench_options_valid skip opt" and "n = nat (b_target opt)" and "aead_documented C" and "aead_total C"
    and "wait_sys_good Y" and "\<And>c. clock_good (clk c)" and "links_match n L G"
  shows "\<exists>s v m u e. let M = cluster_mpi Y clock (bench_workers C Y clk G) in
    bench_sizes C M R L n opt (wait_init, cluster_start) = Done s v \<and>
    map (\<lambda>r. (br_matrix_size r, br_run r)) (bn_results s) =
      concat (map (\<lambda>d. map (Pair d) [1..b_num_runs opt]) (filter (\<lambda>d. n dvd d) (map nat (b_sizes opt)))) \<and>
    loopP (bench_send_done C M L) [0..<n] (bn_ms s) v = Done m (u, e) \<and>
    list_all (\<lambda>c. \<exists>g z. bench_program C (G c) (worker_mpi Y (clk c)) (Suc (length (cl_sent e c)))
      (wait_init, ((cl_sent e c, []), 0)) = Done g z) (take n (lk_workers L))"
proof -
  let ?M = "cluster_mpi Y clock (bench_workers C Y clk G)" and ?ds = "filter (\<lambda>d. n dvd d) (map nat (b_sizes opt))"
  have n: "0 < n" "n \<le> 128" using assms(1,2) by (auto simp: bench_options_valid_def)
  then have S: "honest_setup skip opt n C Y clk L G" using assms by (simp add: honest_setup_def)
  have v: "\<forall>sz \<in> set (b_sizes opt). 1 \<le> sz \<and> sz \<le> 8192" "length (b_sizes opt) \<le> 32" "nat (b_num_runs opt) \<le> 1000"
    using assms(1) by (auto simp: bench_options_valid_def list_all_iff)
  then have ds: "\<forall>d \<in> set ?ds. bench_dim n d" by (auto simp: bench_dim_def)
  have l: "length ?ds \<le> 32"
    using length_filter_le [of "\<lambda>d. n dvd d" "map nat (b_sizes opt)"] v(2) unfolding length_map by (rule order_trans)
  have "nat (b_num_runs opt) * length (b_sizes opt) \<le> 1000 * 32" using v(2,3) by (intro mult_le_mono)
  then have room: "length (bn_results bench_init) + nat (b_num_runs opt) * length (b_sizes opt) \<le> MAX_BENCH_RESULTS"
    by (simp add: bench_init_def)
  from bench_sizes_link [OF S v(1) _ _ at_dims_start [OF assms(7) n(2)] room, of clock R] v(2) obtain s e rs where
    1: "runs_to Y (bench_sizes C ?M R L n opt) cluster_start s e" and at: "at_dims C L G clk R opt n ?ds (bn_ms s) e"
    and rs: "bn_results s = rs" "map (\<lambda>x. (br_matrix_size x, br_run x)) rs = concat (map (\<lambda>d. map (Pair d) [1..b_num_runs opt]) ?ds)"
    by (auto simp: bench_sizes_def bench_init_def)
  from bench_done_link [OF S _ at, of clock "bench_workers C Y clk G"] l obtain m e' where
    2: "runs_to Y (loopP (bench_send_done C ?M L) [0..<n] (bn_ms s)) e m e'"
    and h: "\<And>w. w < n \<Longrightarrow> cl_sent e' (lk_workers L ! w) =
      to_worker C (G (lk_workers L ! w)) 0 (bench_history R opt n w ?ds @ [done_item])" by auto
  from 1 wait_init_ready [OF assms(5)] obtain x where x: "wait_ready Y x" "bench_sizes C ?M R L n opt (wait_init, cluster_start) = Done s (x, e)"
    by (rule runs_toE)
  from 2 x(1) obtain y where y: "loopP (bench_send_done C ?M L) [0..<n] (bn_ms s) (x, e) = Done m (y, e')" by (rule runs_toE)
  have "list_all (\<lambda>c. \<exists>g z. bench_program C (G c) (worker_mpi Y (clk c)) (Suc (length (cl_sent e' c)))
      (wait_init, ((cl_sent e' c, []), 0)) = Done g z) (take n (lk_workers L))"
    unfolding list_all_iff by (rule ballI) (use worker_ends [OF S ds l _ _ h] in \<open>auto simp: in_set_conv_nth\<close>)
  with x(2) y rs show ?thesis unfolding Let_def by (intro exI conjI) simp_all
qed

definition demo_options :: bench_options where
  "demo_options = bench_defaults\<lparr>b_num_runs := 3, b_verify := True, b_sizes := [4, 3, 6]\<rparr>"

definition demo_cluster_links :: links where
  "demo_cluster_links = \<lparr>lk_workers = [7, 5], lk_tx_keys = [[1], [2]], lk_rx_keys = [[3], [4]], lk_bindings = [[8], [9]]\<rparr>"

definition demo_channels :: "comm \<Rightarrow> worker_chan" where
  "demo_channels c = (if c = 7 then \<lparr>g_session_key = [3], g_recv_key = [1], g_channel_binding = [8], send_nonce_ctr = 0, recv_nonce_ctr = 0\<rparr>
     else \<lparr>g_session_key = [4], g_recv_key = [2], g_channel_binding = [9], send_nonce_ctr = 0, recv_nonce_ctr = 0\<rparr>)"

lemma clock_good_stopped: "clock_good (\<lambda>t. 0)"
proof -
  have s: "d_mag (d_sub 0 0) = 0" by (rule d_sub_self) (rule d_zero)
  have k: "d_isfinite (d_of_nat 1000)" by (rule d_of_nat_props) simp
  have "\<not> d_isnan (d_sub 0 0)" "\<not> d_isinf (d_sub 0 0)" using s by (simp_all add: d_isnan_def d_isinf_def d_inf_mag_def)
  then have "d_mag (elapsed_ms 0 0) = 0"
    using s finite_not_special [OF k] by (simp add: elapsed_ms_def d_mul_def Let_def d_pack)
  then have "d_mag (elapsed_ms 0 0) = 0 \<and> d_key (elapsed_ms 0 0) = 0 \<and> d_key 0 = 0" by (simp add: d_key_def d_zero)
  then show ?thesis by (simp add: clock_good_def d_isfinite_def d_lt_def d_inf_mag_def)
qed

theorem bench_completes_witness:
  "\<exists>s v. bench_sizes demo_crypto (cluster_mpi demo_wait_sys (\<lambda>t. 0) (bench_workers demo_crypto demo_wait_sys (\<lambda>c t. 0) demo_channels))
      demo_rand demo_cluster_links 2 demo_options (wait_init, cluster_start) = Done s v \<and>
    map (\<lambda>r. (br_matrix_size r, br_run r)) (bn_results s) = [(4, 1), (4, 2), (4, 3), (6, 1), (6, 2), (6, 3)]"
proof -
  have o: "bench_options_valid False demo_options" "2 = nat (b_target demo_options)"
    by (simp_all add: bench_options_valid_def demo_options_def bench_defaults_def)
  have L: "links_match 2 demo_cluster_links demo_channels"
    by (simp add: links_match_def demo_cluster_links_def demo_channels_def less_2_cases_iff Let_def)
  have t: "aead_total demo_crypto" by (simp add: aead_total_def demo_crypto_def)
  have r: "concat (map (\<lambda>d. map (Pair d) [1..b_num_runs demo_options]) (filter (\<lambda>d. 2 dvd d) (map nat (b_sizes demo_options)))) =
      [(4, 1), (4, 2), (4, 3), (6, 1), (6, 2), (6, 3)]"
    by (simp add: demo_options_def upto.simps)
  from bench_completes [OF o demo_crypto_documented t demo_wait_sys_good clock_good_stopped L, of "\<lambda>t. 0" demo_rand]
  show ?thesis unfolding r Let_def by (elim exE conjE) (intro exI conjI)
qed

end
