(* ===== verification/Run_Summary.thy ===== *)
theory Run_Summary
  imports Bench_Master Npb_Kernels
begin

text \<open>
  The statistics that the central nodes print when all runs of a workload are done (src/master_bench.c,
  src/master_npb.c): mean and standard deviation of the times of the runs, and the rate of EP and CG. The arrays
  of the code hold the times of the results of these runs, in the order of the runs. A text is a list of
  lines. The means are right to the digits that are printed (\<open>bench_means_printed\<close> and the lemmas after it), and the square root is
  never taken of a negative number (\<open>compute_stddev_ok\<close>).
\<close>

section \<open>Mean and deviation\<close>

definition compute_mean :: "dbl list \<Rightarrow> nat \<Rightarrow> dbl" where
  "compute_mean v n = d_div (fold (\<lambda>i s. d_add s (v ! i)) [0..<n] 0) (d_of_nat n)"

definition compute_stddev :: "libm \<Rightarrow> dbl list \<Rightarrow> nat \<Rightarrow> dbl \<Rightarrow> dbl" where
  "compute_stddev B v n mean =
     m_sqrt B (d_div (fold (\<lambda>i s. d_add s (d_mul (d_sub (v ! i) mean) (d_sub (v ! i) mean))) [0..<n] 0) (d_of_nat n))"

section \<open>What is printed\<close>

definition pad_left :: "nat \<Rightarrow> string \<Rightarrow> string" where
  "pad_left w s = replicate (w - length s) (CHR '' '') @ s"

definition mean_line :: "libm \<Rightarrow> string \<Rightarrow> nat \<Rightarrow> nat \<Rightarrow> nat \<Rightarrow> nat \<Rightarrow> dbl list \<Rightarrow> string" where
  \<comment> \<open>two leading blanks, the label, then mean and deviation with widths w and w' and k decimals\<close>
  "mean_line B label w w' k n v =
     (let mean = compute_mean v n in
      ''  '' @ label @ '' : '' @ pad_left w (fixed k mean) @ '' +/- '' @
      pad_left w' (fixed k (compute_stddev B v n mean)) @ '' ms'')"

definition bench_run_line :: "int \<Rightarrow> bench_result \<Rightarrow> string" where
  "bench_run_line num_runs r =
     ''[BENCH] M='' @ dec_nat (br_matrix_size r) @ '' run '' @ dec_int (br_run r) @ ''/'' @ dec_int num_runs @
     '': scatter='' @ fixed 1 (br_t_scatter_ms r) @ '' compute='' @ fixed 1 (br_t_compute_max_ms r) @
     '' gather='' @ fixed 1 (br_t_gather_ms r) @ '' round='' @ fixed 1 (br_t_round_ms r) @
     '' comm='' @ fixed 1 (br_t_comm_ms r) @ '' ms''"

definition bench_summary :: "libm \<Rightarrow> nat \<Rightarrow> int \<Rightarrow> bench_result list \<Rightarrow> string list" where
  "bench_summary B mdim num_runs rs =
     (let n = nat num_runs in
      ['''', ''[BENCH] M='' @ dec_nat mdim @ ''  Summary ('' @ dec_int num_runs @ '' runs):'',
       mean_line B ''scatter'' 8 6 1 n (map br_t_scatter_ms rs),
       mean_line B ''compute'' 8 6 1 n (map br_t_compute_max_ms rs),
       mean_line B ''gather '' 8 6 1 n (map br_t_gather_ms rs),
       mean_line B ''round  '' 8 6 1 n (map br_t_round_ms rs),
       mean_line B ''comm   '' 8 6 1 n (map br_t_comm_ms rs) @ ''  (round - compute)'', ''''])"

definition ep_run_line :: "int \<Rightarrow> npb_result \<Rightarrow> string" where
  "ep_run_line num_runs r =
     ''[NPB-EP] run '' @ dec_int (r_run r) @ ''/'' @ dec_int num_runs @
     '': scatter='' @ fixed 2 (r_t_scatter_ms r) @ '' compute='' @ fixed 1 (r_t_compute_max_ms r) @
     '' gather='' @ fixed 2 (r_t_gather_ms r) @ '' round='' @ fixed 1 (r_t_round_ms r) @ '' ms''"

definition mops :: "dbl \<Rightarrow> dbl list \<Rightarrow> nat \<Rightarrow> dbl" where
  \<comment> \<open>work / (mean / 1000.0) / 1e6\<close>
  "mops work v n = d_div (d_div work (d_div (compute_mean v n) (d_of_nat 1000))) (d_of_nat 1000000)"

definition ep_summary :: "libm \<Rightarrow> int \<Rightarrow> int \<Rightarrow> nat \<Rightarrow> npb_result list \<Rightarrow> string list" where
  "ep_summary B num_runs ep_n nworkers rs =
     (let n = nat num_runs; rounds = map r_t_round_ms rs in
      ['''', ''[NPB-EP] Summary ('' @ dec_int num_runs @ '' runs):'',
       mean_line B ''scatter'' 0 0 2 n (map r_t_scatter_ms rs),
       mean_line B ''compute'' 0 0 1 n (map r_t_compute_max_ms rs),
       mean_line B ''gather '' 0 0 2 n (map r_t_gather_ms rs),
       mean_line B ''round  '' 0 0 1 n rounds,
       ''  Mop/s   : '' @ fixed 1 (mops (d_of_nat (nat (ep_n * int nworkers))) rounds n), ''''])"

definition cg_run_line :: "int \<Rightarrow> int \<Rightarrow> npb_result \<Rightarrow> string" where
  "cg_run_line num_runs cg_iters r =
     ''[NPB-CG] run '' @ dec_int (r_run r) @ ''/'' @ dec_int num_runs @
     '': scatter='' @ fixed 1 (r_t_scatter_ms r) @ '' compute='' @ fixed 1 (r_t_compute_max_ms r) @
     '' gather='' @ fixed 1 (r_t_gather_ms r) @ '' round='' @ fixed 1 (r_t_round_ms r) @
     '' ms ('' @ dec_int cg_iters @ '' iters)''"

definition cg_summary :: "libm \<Rightarrow> int \<Rightarrow> int \<Rightarrow> int \<Rightarrow> int \<Rightarrow> npb_result list \<Rightarrow> string list" where
  "cg_summary B num_runs cg_n cg_nzpc cg_iters rs =
     (let n = nat num_runs; rounds = map r_t_round_ms rs;
          work = d_mul (d_mul (d_mul (d_of_nat (nat cg_n)) (d_of_nat (nat cg_nzpc))) (d_of_nat 2)) (d_of_nat (nat cg_iters))
      in
      ['''', ''[NPB-CG] Summary ('' @ dec_int num_runs @ '' runs, '' @ dec_int cg_iters @ '' iters each):'',
       mean_line B ''scatter'' 0 0 1 n (map r_t_scatter_ms rs) @ '' (total over '' @ dec_int cg_iters @ '' iters)'',
       mean_line B ''compute'' 0 0 1 n (map r_t_compute_max_ms rs),
       mean_line B ''gather '' 0 0 1 n (map r_t_gather_ms rs),
       mean_line B ''round  '' 0 0 1 n rounds,
       ''  Mop/s   : '' @ fixed 1 (mops work rounds n), ''''])"

section \<open>The mean is accurate\<close>

lemma d_add_error:
  assumes "d_isfinite a" and "d_isfinite b" and "\<bar>d_val a + d_val b\<bar> \<le> 2 ^ k" and "k \<le> 1000"
  shows "d_isfinite (d_add a b)" and "\<bar>d_val (d_add a b) - (d_val a + d_val b)\<bar> \<le> 2 ^ k / 2 ^ 53"
proof -
  have "d_isfinite (d_add a b) \<and> \<bar>d_val (d_add a b) - (d_val a + d_val b)\<bar> \<le> 2 ^ k / 2 ^ 53"
  proof (cases "d_val a + d_val b = 0")
    case True
    then show ?thesis using finite_not_special [OF assms(1)] finite_not_special [OF assms(2)]
      by (simp add: d_add_def Let_def d_pack_0)
  next
    case False
    have lt: "\<bar>d_val a + d_val b\<bar> < 2 ^ k * (1 + 1 / 2 ^ 53)"
    proof -
      have "(2 :: rat) ^ k * 1 < 2 ^ k * (1 + 1 / 2 ^ 53)" by (rule mult_strict_left_mono) simp_all
      with assms(3) show ?thesis by linarith
    qed
    have "d_add a b = d_round (d_val a + d_val b)"
      using False finite_not_special [OF assms(1)] finite_not_special [OF assms(2)] by (simp add: d_add_def Let_def)
    then show ?thesis using d_round_error [OF False lt assms(4)] d_bounded_finite [OF d_round_bounded [OF False lt]] assms(4)
      by simp
  qed
  then show "d_isfinite (d_add a b)" "\<bar>d_val (d_add a b) - (d_val a + d_val b)\<bar> \<le> 2 ^ k / 2 ^ 53" by blast+
qed

lemma d_add_sign: "\<not> d_sign a \<Longrightarrow> \<not> d_sign b \<Longrightarrow> \<not> d_sign (d_add a b)"
  using d_val_nonneg [of a] d_val_nonneg [of b]
  by (auto simp: d_add_def Let_def d_sign_round d_pack d_qnan_def) (auto simp: d_sign_def bit_simps)

definition time_ok :: "nat \<Rightarrow> dbl \<Rightarrow> bool" where
  \<comment> \<open>a time in milliseconds, at most 2^k of them\<close>
  "time_ok k x \<longleftrightarrow> \<not> d_sign x \<and> d_bounded k x"

lemma time_sum:
  assumes "\<forall>i < n. time_ok k (f i)" and "n \<le> 1000" and "k \<le> 900"
  shows "let s = fold (\<lambda>i s. d_add s (f i)) [0..<n] 0 in d_isfinite s \<and> \<not> d_sign s \<and>
    \<bar>d_val s - (\<Sum>i<n. d_val (f i))\<bar> \<le> of_nat n * (2 ^ (k + 11) / 2 ^ 53)"
  using assms(1,2)
proof (induction n)
  case 0
  then show ?case by (simp add: d_zero)
next
  case (Suc n)
  let ?s = "fold (\<lambda>i s. d_add s (f i)) [0..<n] 0" and ?x = "f n" and ?e = "2 ^ (k + 11) / 2 ^ 53 :: rat"
    and ?S = "\<Sum>i<n. d_val (f i)"
  from Suc have s: "d_isfinite ?s" "\<not> d_sign ?s" "\<bar>d_val ?s - ?S\<bar> \<le> of_nat n * ?e" by (simp_all add: Let_def)
  have ok: "\<not> d_sign (f i)" "d_bounded k (f i)" if "i \<le> n" for i
    using Suc.prems(1) that by (simp_all add: time_ok_def)
  have b: "0 \<le> d_val (f i)" "d_val (f i) \<le> 2 ^ k" if "i \<le> n" for i
    using d_val_nonneg [OF ok(1) [OF that]] d_bounded_val [OF ok(2) [OF that]] by simp_all
  have x: "d_isfinite ?x" using d_bounded_finite [OF ok(2) [of n]] assms(3) by simp
  have "0 \<le> ?S" using b by (intro sum_nonneg) simp
  moreover have "?S \<le> of_nat (card {..<n}) * 2 ^ k" using b by (intro sum_bounded_above) simp
  ultimately have S: "0 \<le> ?S" "?S \<le> of_nat n * 2 ^ k" by simp_all
  have h1: "of_nat n * ?e \<le> 2 ^ k"
  proof -
    have "of_nat n * ?e \<le> 1000 * ?e" using Suc.prems(2) by (intro mult_right_mono) simp_all
    also have "\<dots> \<le> 2 ^ k" by (simp add: power_add)
    finally show ?thesis .
  qed
  have h2: "of_nat n * 2 ^ k \<le> (1000 :: rat) * 2 ^ k" using Suc.prems(2) by (intro mult_right_mono) simp_all
  have "(0 :: rat) < 2 ^ k" "(2 :: rat) ^ (k + 11) = 2048 * 2 ^ k" by (simp_all add: power_add)
  with h1 h2 s(3) b [of n] S d_val_nonneg [OF s(2)] have le: "\<bar>d_val ?s + d_val ?x\<bar> \<le> 2 ^ (k + 11)" by linarith
  have k: "k + 11 \<le> 1000" using assms(3) by simp
  note a = d_add_error [OF s(1) x le k]
  have "\<bar>d_val (d_add ?s ?x) - (?S + d_val ?x)\<bar> \<le> of_nat n * ?e + ?e" using a(2) s(3) by linarith
  then have "\<bar>d_val (d_add ?s ?x) - (?S + d_val ?x)\<bar> \<le> of_nat (Suc n) * ?e" by (simp add: distrib_right add.commute)
  with a(1) d_add_sign [OF s(2) ok(1) [of n]] show ?case by (simp add: Let_def)
qed

lemma d_div_error:
  assumes "d_isfinite a" and "\<not> d_sign a" and "0 < n" and "n < 2 ^ 53" and "d_val a / of_nat n \<le> 2 ^ k" and "k \<le> 1000"
  shows "d_isfinite (d_div a (d_of_nat n)) \<and> \<not> d_sign (d_div a (d_of_nat n)) \<and>
    d_bounded k (d_div a (d_of_nat n)) \<and> \<bar>d_val (d_div a (d_of_nat n)) - d_val a / of_nat n\<bar> \<le> 2 ^ k / 2 ^ 53"
proof -
  note n = d_of_nat_props [OF assms(4)]
  note ns = finite_not_special [OF assms(1)] finite_not_special [OF n(2)]
  show ?thesis
  proof (cases "d_val a = 0")
    case True
    then have "d_mag a = 0" by (simp add: d_val_0_iff)
    then show ?thesis using ns n assms(2,3) True by (simp add: d_div_def Let_def d_pack_0 d_pack d_bounded_0)
  next
    case False
    let ?q = "d_val a / of_nat n"
    have p: "0 < d_val a" using False d_val_nonneg [OF assms(2)] by simp
    then have q: "?q \<noteq> 0" "0 < ?q" using assms(3) by simp_all
    have "(2 :: rat) ^ k * 1 < 2 ^ k * (1 + 1 / 2 ^ 53)" by (rule mult_strict_left_mono) simp_all
    with assms(5) q(2) have lt: "\<bar>?q\<bar> < 2 ^ k * (1 + 1 / 2 ^ 53)" by linarith
    have "d_div a (d_of_nat n) = d_round ?q"
      using ns n False assms(3) by (simp add: d_div_def Let_def d_val_0_iff)
    then show ?thesis
      using d_round_error [OF q(1) lt assms(6)] d_round_bounded [OF q(1) lt] d_bounded_finite [OF d_round_bounded [OF q(1) lt]]
        assms(6) q(2) by (simp add: d_sign_round)
  qed
qed

text \<open>The quotient of such a sum and their number, for the mean and for the radicand of the deviation.\<close>

lemma mean_error:
  assumes "\<forall>i < n. time_ok k (f i)" and "0 < n" and "n \<le> 1000" and "k \<le> 900"
  shows "let x = d_div (fold (\<lambda>i s. d_add s (f i)) [0..<n] 0) (d_of_nat n) in time_ok (k + 1) x \<and>
    \<bar>d_val x - (\<Sum>i<n. d_val (f i)) / of_nat n\<bar> \<le> 2 ^ (k + 12) / 2 ^ 53"
proof -
  let ?s = "fold (\<lambda>i s. d_add s (f i)) [0..<n] 0" and ?S = "\<Sum>i<n. d_val (f i)"
  from time_sum [OF assms(1,3,4)] have
    s: "d_isfinite ?s" "\<not> d_sign ?s" "\<bar>d_val ?s - ?S\<bar> \<le> of_nat n * (2 ^ (k + 11) / 2 ^ 53)" by (simp_all add: Let_def)
  have n: "0 < (of_nat n :: rat)" using assms(2) by simp
  have "?S \<le> of_nat (card {..<n}) * 2 ^ k"
    using assms(1) d_bounded_val by (intro sum_bounded_above) (force simp: time_ok_def)
  then have m: "?S / of_nat n \<le> 2 ^ k" using n by (simp add: pos_divide_le_eq mult.commute)
  have "\<bar>d_val ?s / of_nat n - ?S / of_nat n\<bar> = \<bar>d_val ?s - ?S\<bar> / of_nat n"
    using n by (simp add: diff_divide_distrib [symmetric])
  also have "\<dots> \<le> 2 ^ (k + 11) / 2 ^ 53" using s(3) n by (simp add: pos_divide_le_eq mult.commute)
  finally have d: "\<bar>d_val ?s / of_nat n - ?S / of_nat n\<bar> \<le> 2 ^ (k + 11) / 2 ^ 53" .
  have "(2 :: rat) ^ (k + 11) / 2 ^ 53 \<le> 2 ^ k" by (simp add: power_add)
  moreover have "(2 :: rat) ^ (k + 1) = 2 * 2 ^ k" by simp
  ultimately have q: "d_val ?s / of_nat n \<le> 2 ^ (k + 1)" using d m by linarith
  have "n < 2 ^ 53" "k + 1 \<le> 1000" using assms(3,4) by simp_all
  note e = d_div_error [OF s(1,2) assms(2) this(1) q this(2)]
  have "2 ^ (k + 1) / 2 ^ 53 + 2 ^ (k + 11) / 2 ^ 53 \<le> (2 ^ (k + 12) / 2 ^ 53 :: rat)" by (simp add: power_add)
  with e d have "\<bar>d_val (d_div ?s (d_of_nat n)) - ?S / of_nat n\<bar> \<le> 2 ^ (k + 12) / 2 ^ 53" by linarith
  with e show ?thesis by (simp add: Let_def time_ok_def)
qed

lemma compute_mean_error:
  assumes "list_all (time_ok k) v" and "n = length v" and "0 < n" and "n \<le> 1000" and "k \<le> 900"
  shows "time_ok (k + 1) (compute_mean v n)"
    and "\<bar>d_val (compute_mean v n) - sum_list (map d_val v) / of_nat n\<bar> \<le> 2 ^ (k + 12) / 2 ^ 53"
proof -
  have "(\<Sum>i<n. d_val (v ! i)) = sum_list (map d_val v)" by (simp add: assms(2) sum_list_sum_nth atLeast0LessThan)
  moreover have "\<forall>i < n. time_ok k (v ! i)" using assms(1,2) by (simp add: list_all_length)
  ultimately show "time_ok (k + 1) (compute_mean v n)"
    "\<bar>d_val (compute_mean v n) - sum_list (map d_val v) / of_nat n\<bar> \<le> 2 ^ (k + 12) / 2 ^ 53"
    using mean_error [of n k "\<lambda>i. v ! i"] assms(3,4,5) by (simp_all add: compute_mean_def Let_def)
qed

text \<open>The square root is taken of a number that is not negative, so the deviation is a number too.\<close>

lemma d_square_ok:
  assumes "d_bounded k x" and "k \<le> 500"
  shows "time_ok (2 * k) (d_mul x x)"
proof -
  have "d_bounded (k + k) (d_mul x x)" using assms by (intro d_mul_bounded) simp_all
  moreover have "\<not> d_sign (d_mul x x)"
    using finite_not_special [OF d_bounded_finite [OF assms(1)]] assms(2) d_pack [of 0 False]
    by (auto simp: d_mul_def Let_def d_sign_round not_less)
  ultimately show ?thesis by (simp add: time_ok_def mult_2)
qed

lemma d_sub_times:
  assumes "time_ok k a" and "time_ok k b" and "k \<le> 900"
  shows "d_bounded (k + 1) (d_sub a b)"
proof -
  have f: "d_isfinite a" "d_isfinite b" using assms d_bounded_finite [of k] by (simp_all add: time_ok_def)
  have v: "\<bar>d_val a - d_val b\<bar> \<le> 2 ^ k + 2 ^ k"
    using d_bounded_val [of k a] d_bounded_val [of k b] assms(1,2) by (simp add: time_ok_def)
  show ?thesis
  proof (cases "d_val a - d_val b = 0")
    case True
    then show ?thesis using finite_not_special [OF f(1)] finite_not_special [OF f(2)]
      by (simp add: d_sub_def d_add_def d_neg_props d_isnan_def d_isinf_def Let_def d_bounded_0 d_pack)
  next
    case False
    have "(2 :: rat) ^ (k + 1) * 1 < 2 ^ (k + 1) * (1 + 1 / 2 ^ 53)" by (rule mult_strict_left_mono) simp_all
    moreover have "(2 :: rat) ^ (k + 1) = 2 ^ k + 2 ^ k" by simp
    ultimately have "\<bar>d_val a - d_val b\<bar> < 2 ^ (k + 1) * (1 + 1 / 2 ^ 53)" using v by linarith
    from d_round_bounded [OF False this] assms(3) False show ?thesis
      using finite_not_special [OF f(1)] finite_not_special [OF f(2)]
      by (simp add: d_sub_def d_add_def d_neg_props d_isnan_def d_isinf_def Let_def)
  qed
qed

lemma compute_stddev_ok:
  assumes "libm_documented B" and "list_all (time_ok k) v" and "n = length v" and "0 < n" and "n \<le> 1000" and "k \<le> 400"
  shows "time_ok (k + 3) (compute_stddev B v n (compute_mean v n))"
proof -
  let ?m = "compute_mean v n" and ?f = "\<lambda>i. d_mul (d_sub (v ! i) (compute_mean v n)) (d_sub (v ! i) (compute_mean v n))"
  have m: "time_ok (k + 1) ?m" using compute_mean_error [OF assms(2-5)] assms(6) by simp
  have "time_ok (2 * (k + 2)) (?f i)" if "i < n" for i
  proof -
    have "time_ok (k + 1) (v ! i)" using assms(2,3) that by (auto simp: list_all_length time_ok_def intro: d_bounded_mono)
    from d_sub_times [OF this m] show ?thesis using assms(6) by (intro d_square_ok) simp_all
  qed
  then have "time_ok (2 * (k + 2) + 1) (d_div (fold (\<lambda>i s. d_add s (?f i)) [0..<n] 0) (d_of_nat n))"
    using mean_error [of n "2 * (k + 2)" ?f] assms(4,5,6) by (simp add: Let_def)
  then have "time_ok (2 * (k + 3)) (d_div (fold (\<lambda>i s. d_add s (?f i)) [0..<n] 0) (d_of_nat n))"
    by (auto simp: time_ok_def intro: d_bounded_mono)
  moreover have "time_ok j (m_sqrt B x)" if "time_ok (2 * j) x" for j x
    using assms(1) that unfolding libm_documented_def time_ok_def by blast
  ultimately show ?thesis by (simp only: compute_stddev_def)
qed

section \<open>What is read in a summary\<close>

lemma dec_value_pad_left: "dec_value (pad_left w s) = dec_value s"
proof -
  have "foldl (\<lambda>n c. 10 * n + (of_char c - 48)) 0 (replicate m (CHR '' '')) = (0 :: nat)" for m
    by (induction m) simp_all
  then show ?thesis by (simp add: pad_left_def dec_value_def)
qed

lemma decimal_pad_left:
  assumes "d_isfinite x" and "\<not> d_sign x"
  shows "decimal_value k (pad_left w (fixed k x)) = decimal_value k (fixed k x)"
proof -
  obtain i r where t: "fixed k x = i @ CHR ''.'' # r" "list_all is_digit i" "list_all is_digit r"
    by (rule fixed_parts [OF assms])
  have "CHR ''.'' \<notin> set (replicate m (CHR '' '') @ i)" for m using t(2) no_comma_digits by auto
  then have "split_at (CHR ''.'') (pad_left w (fixed k x)) = [pad_left (w - Suc (length r)) i, r]"
    using t(2,3) no_comma_digits split_at_append(1) [of "CHR ''.''" "replicate (w - length (fixed k x)) (CHR '' '') @ i" r]
    by (simp add: pad_left_def t(1) split_at_append)
  moreover have "split_at (CHR ''.'') (fixed k x) = [i, r]"
    using t(2,3) no_comma_digits by (simp add: t(1) split_at_append)
  ultimately show ?thesis by (simp add: decimal_value_def Let_def dec_value_pad_left)
qed

text \<open>
  A line that shows a mean and a deviation: the mean is at most half of the last decimal and 0.001 away from the
  exact mean of the values, the deviation is a decimal number without sign.
\<close>

definition shows_mean :: "string \<Rightarrow> nat \<Rightarrow> nat \<Rightarrow> dbl list \<Rightarrow> string \<Rightarrow> bool" where
  "shows_mean label w' k v line \<longleftrightarrow>
     (\<exists>m i f. line = ''  '' @ label @ '' : '' @ m @ '' +/- '' @ pad_left w' (i @ ''.'' @ f) @ '' ms'' \<and>
        list_all is_digit i \<and> list_all is_digit f \<and>
        \<bar>of_nat (decimal_value k m) / 10 ^ k - sum_list (map d_val v) / of_nat (length v)\<bar> \<le> 1 / (2 * 10 ^ k) + 1 / 1000)"

lemma mean_line_accurate:
  assumes "libm_documented B" and "list_all (time_ok 30) v" and "n = length v" and "0 < n" and "n \<le> 1000"
  shows "shows_mean label w' k v (mean_line B label w w' k n v)"
proof -
  let ?x = "compute_mean v n" and ?d = "compute_stddev B v n (compute_mean v n)"
  have num: "d_isfinite x \<and> \<not> d_sign x" if "time_ok j x" "j \<le> 900" for j x
    using that d_bounded_finite by (auto simp: time_ok_def)
  have x: "time_ok 31 ?x" "\<bar>d_val ?x - sum_list (map d_val v) / of_nat n\<bar> \<le> 2 ^ 42 / 2 ^ 53"
    using compute_mean_error [OF assms(2-5)] by simp_all
  have d: "time_ok 33 ?d" using compute_stddev_ok [OF assms] by simp
  have fx: "d_isfinite ?x" "\<not> d_sign ?x" and fd: "d_isfinite ?d" "\<not> d_sign ?d" using num [OF x(1)] num [OF d] by simp_all
  obtain i f where sd: "fixed k ?d = i @ CHR ''.'' # f" "list_all is_digit i" "list_all is_digit f"
    by (rule fixed_parts [OF fd])
  let ?m = "pad_left w (fixed k ?x)"
  have e: "\<bar>of_nat (decimal_value k ?m) - 10 ^ k * d_val ?x\<bar> \<le> 1 / 2"
    using fixed_decimal [OF fx, of k] decimal_pad_left [OF fx, of k w] by simp
  have p: "(0 :: rat) < 10 ^ k" by simp
  have "of_nat (decimal_value k ?m) / 10 ^ k - d_val ?x = (of_nat (decimal_value k ?m) - 10 ^ k * d_val ?x) / 10 ^ k"
    by (simp add: diff_divide_distrib)
  then have "\<bar>of_nat (decimal_value k ?m) / 10 ^ k - d_val ?x\<bar> = \<bar>of_nat (decimal_value k ?m) - 10 ^ k * d_val ?x\<bar> / 10 ^ k"
    by (simp only: abs_divide abs_of_pos [OF p])
  also have "\<dots> \<le> 1 / 2 / 10 ^ k" by (rule divide_right_mono [OF e]) simp
  finally have "\<bar>of_nat (decimal_value k ?m) / 10 ^ k - d_val ?x\<bar> \<le> 1 / (2 * 10 ^ k)" by simp
  moreover have "\<bar>d_val ?x - sum_list (map d_val v) / of_nat n\<bar> \<le> 1 / 1000" using x(2) by simp
  ultimately have "\<bar>of_nat (decimal_value k ?m) / 10 ^ k - sum_list (map d_val v) / of_nat n\<bar> \<le> 1 / (2 * 10 ^ k) + 1 / 1000"
    by linarith
  then show ?thesis unfolding shows_mean_def assms(3) [symmetric]
    by (intro exI [of _ ?m] exI [of _ i] exI [of _ f] conjI) (simp_all add: mean_line_def Let_def sd)
qed

text \<open>
  The four lines of a summary, of the benchmark, of EP and of CG, if the times are at most 2^30 ms (twelve days).
\<close>

definition times_ok :: "('r \<Rightarrow> dbl) list \<Rightarrow> int \<Rightarrow> 'r list \<Rightarrow> bool" where
  "times_ok ts num_runs rs \<longleftrightarrow> length rs = nat num_runs \<and> 1 \<le> num_runs \<and> num_runs \<le> 1000 \<and>
     list_all (\<lambda>t. list_all (time_ok 30) (map t rs)) ts"

lemma lines_accurate:
  assumes "libm_documented B" and "times_ok ts num_runs rs" and "t \<in> set ts"
  shows "shows_mean label w' k (map t rs) (mean_line B label w w' k (nat num_runs) (map t rs))"
  using assms(2,3) by (intro mean_line_accurate [OF assms(1)]) (auto simp: times_ok_def list_all_iff)

theorem bench_means_printed:
  assumes "libm_documented B" and "times_ok [br_t_scatter_ms, br_t_compute_max_ms, br_t_gather_ms, br_t_round_ms] num_runs rs"
  shows "list_all2 (\<lambda>(label, t). shows_mean label 6 1 (map t rs))
    [(''scatter'', br_t_scatter_ms), (''compute'', br_t_compute_max_ms), (''gather '', br_t_gather_ms), (''round  '', br_t_round_ms)]
    (take 4 (drop 2 (bench_summary B mdim num_runs rs)))"
  using lines_accurate [OF assms] by (simp add: bench_summary_def Let_def)

theorem ep_means_printed:
  assumes "libm_documented B" and "times_ok [r_t_scatter_ms, r_t_compute_max_ms, r_t_gather_ms, r_t_round_ms] num_runs rs"
  shows "list_all2 (\<lambda>(label, k, t). shows_mean label 0 k (map t rs))
    [(''scatter'', 2, r_t_scatter_ms), (''compute'', 1, r_t_compute_max_ms), (''gather '', 2, r_t_gather_ms), (''round  '', 1, r_t_round_ms)]
    (take 4 (drop 2 (ep_summary B num_runs ep_n nworkers rs)))"
  using lines_accurate [OF assms] by (simp add: ep_summary_def Let_def)

theorem cg_means_printed:
  assumes "libm_documented B" and "times_ok [r_t_scatter_ms, r_t_compute_max_ms, r_t_gather_ms, r_t_round_ms] num_runs rs"
  shows "list_all2 (\<lambda>(label, t). shows_mean label 0 1 (map t rs))
    [(''compute'', r_t_compute_max_ms), (''gather '', r_t_gather_ms), (''round  '', r_t_round_ms)]
    (take 3 (drop 3 (cg_summary B num_runs cg_n cg_nzpc cg_iters rs)))"
  using lines_accurate [OF assms] by (simp add: cg_summary_def Let_def)

end
