(* ===== verification/Star_Channel.thy ===== *)
theory Star_Channel
  imports Secure_Channel
begin

text \<open>
  The message layer of the first protocol version (src/master.c, src/worker.c; src/master_star.c and
  src/worker_star.c are copies of them): MPI calls without deadlines, one symmetric key for both
  directions, the counter in host byte order as nonce, no additional data, and a receiver that accepts
  every counter that is not below the expected one.

  The programs here are over the environment alone. \<open>m_probe\<close> is \<open>MPI_Probe\<close> with
  \<open>MPI_Get_count\<close>: a return code, the tag and the number of bytes of the next message.
  \<open>m_stack\<close> gives the indeterminate content of a fresh buffer, which a message that is too short
  leaves in place.
\<close>

record 'e star_mpi = "'e mpi" +
  m_probe :: "comm \<Rightarrow> 'e \<Rightarrow> (mpi_rc \<times> int \<times> int) \<times> 'e"
  m_stack :: "nat \<Rightarrow> 'e \<Rightarrow> bytes \<times> 'e"

section \<open>MPI calls\<close>

definition call :: "('e \<Rightarrow> 'a \<times> 'e) \<Rightarrow> ('e, 'a) prog" where
  "call f e = (case f e of (x, e') \<Rightarrow> Done x e')"

lemma call_Done [simp]: "call f e = Done x e' \<longleftrightarrow> f e = (x, e')"
  by (auto simp: call_def split: prod.splits)

lemma spinless_call [spinless_intros]: "spinless (call f)"
  by (auto simp: spinless_def call_def split: prod.splits)

definition star_mpi_send :: "'e star_mpi \<Rightarrow> bytes \<Rightarrow> int \<Rightarrow> comm \<Rightarrow> ('e, unit) prog" where
  "star_mpi_send M buf tag comm =
     bindP (call (m_send M comm tag buf)) (\<lambda>rc. if rc \<noteq> MPI_SUCCESS then halt 1 else ret ())"

definition star_mpi_recv :: "'e star_mpi \<Rightarrow> nat \<Rightarrow> int \<Rightarrow> comm \<Rightarrow> ('e, bytes) prog" where
  "star_mpi_recv M count tag comm =
     bindP (call (m_recv M comm tag count)) (\<lambda>(rc, data). if rc \<noteq> MPI_SUCCESS then halt 1 else ret data)"

definition star_mpi_iprobe :: "'e star_mpi \<Rightarrow> int \<Rightarrow> comm \<Rightarrow> ('e, bool) prog" where
  "star_mpi_iprobe M tag comm =
     bindP (call (m_iprobe M comm tag)) (\<lambda>(rc, flag). if rc \<noteq> MPI_SUCCESS then halt 1 else ret flag)"

definition star_mpi_probe :: "'e star_mpi \<Rightarrow> comm \<Rightarrow> ('e, int \<times> int) prog" where
  "star_mpi_probe M comm =
     bindP (call (m_probe M comm)) (\<lambda>(rc, st). if rc \<noteq> MPI_SUCCESS then halt 1 else ret st)"

definition overlay :: "bytes \<Rightarrow> bytes \<Rightarrow> bytes" where
  \<comment> \<open>a buffer after its first bytes were written\<close>
  "overlay new old = new @ drop (length new) old"

section \<open>Frames\<close>

definition star_nonce :: "u64 \<Rightarrow> bytes" where
  "star_nonce nonce_ctr = le_enc 8 nonce_ctr @ replicate (NPUB - 8) 0"

definition star_seal :: "crypto \<Rightarrow> bytes \<Rightarrow> bytes \<Rightarrow> u64 \<Rightarrow> bytes \<Rightarrow> bytes" where
  \<comment> \<open>what the buffer holds when it is sent; the result of the encryption is not looked at\<close>
  "star_seal C buf key nonce_ctr plaintext =
     star_nonce nonce_ctr @ take (length plaintext + ABYTES)
       (overlay (case aead_enc C key (star_nonce nonce_ctr) [] plaintext of None \<Rightarrow> [] | Some c \<Rightarrow> c) (drop NPUB buf))"

definition star_open :: "crypto \<Rightarrow> bytes \<Rightarrow> u64 \<Rightarrow> nat \<Rightarrow> bytes \<Rightarrow> (bytes \<times> u64) option" where
  \<comment> \<open>the plaintext and the new counter\<close>
  "star_open C key nonce_ctr plain_len buf =
     (let received_ctr = le_dec (take 8 buf) in
      if received_ctr < nonce_ctr then None
      else case aead_dec C key (take NPUB buf) [] (take (plain_len + ABYTES) (drop NPUB buf)) of
             None \<Rightarrow> None
           | Some p \<Rightarrow> if length p \<noteq> plain_len then None else Some (p, received_ctr + 1))"

definition star_master_secure_send ::
  "crypto \<Rightarrow> 'e star_mpi \<Rightarrow> comm \<Rightarrow> bytes \<Rightarrow> u64 \<Rightarrow> bytes \<Rightarrow> int \<Rightarrow> ('e, u64) prog" where
  "star_master_secure_send C M comm key nonce_ctr plaintext tag =
     (if int (length plaintext) > SECURE_MAX_PLAIN then halt 1
      else bindP (call (m_stack M (NPUB + nat SECURE_MAX_PLAIN + ABYTES))) (\<lambda>buf.
           bindP (star_mpi_send M (star_seal C buf key nonce_ctr plaintext) tag comm) (\<lambda>_.
           ret (nonce_ctr + 1))))"

definition star_master_secure_recv ::
  "crypto \<Rightarrow> 'e star_mpi \<Rightarrow> comm \<Rightarrow> bytes \<Rightarrow> u64 \<Rightarrow> nat \<Rightarrow> int \<Rightarrow> ('e, (bytes \<times> u64) option) prog" where
  "star_master_secure_recv C M comm key nonce_ctr plain_len tag =
     (if int plain_len > SECURE_MAX_PLAIN then ret None
      else bindP (call (m_stack M (NPUB + nat SECURE_MAX_PLAIN + ABYTES))) (\<lambda>buf.
           bindP (star_mpi_recv M (NPUB + plain_len + ABYTES) tag comm) (\<lambda>data.
           ret (star_open C key nonce_ctr plain_len (overlay data buf)))))"

text \<open>The worker keeps the key and its counters in static variables.\<close>

record star_chan =
  sc_key :: bytes
  sc_send_ctr :: u64
  sc_recv_ctr :: u64

definition star_worker_secure_send ::
  "crypto \<Rightarrow> 'e star_mpi \<Rightarrow> comm \<Rightarrow> star_chan \<Rightarrow> bytes \<Rightarrow> int \<Rightarrow> ('e, star_chan) prog" where
  "star_worker_secure_send C M comm g plaintext tag =
     (if int (length plaintext) > SECURE_MAX_PLAIN then halt 1
      else bindP (call (m_stack M (NPUB + nat SECURE_MAX_PLAIN + ABYTES))) (\<lambda>buf.
           bindP (star_mpi_send M (star_seal C buf (sc_key g) (sc_send_ctr g) plaintext) tag comm) (\<lambda>_.
           ret (g\<lparr>sc_send_ctr := sc_send_ctr g + 1\<rparr>))))"

definition star_worker_secure_recv ::
  "crypto \<Rightarrow> 'e star_mpi \<Rightarrow> comm \<Rightarrow> star_chan \<Rightarrow> nat \<Rightarrow> int \<Rightarrow> ('e, (bytes \<times> star_chan) option) prog" where
  "star_worker_secure_recv C M comm g plain_len tag =
     (if int plain_len > SECURE_MAX_PLAIN then ret None
      else bindP (call (m_stack M (NPUB + nat SECURE_MAX_PLAIN + ABYTES))) (\<lambda>buf.
           bindP (star_mpi_recv M (NPUB + plain_len + ABYTES) tag comm) (\<lambda>data.
           ret (map_option (\<lambda>(p, n). (p, g\<lparr>sc_recv_ctr := n\<rparr>))
                  (star_open C (sc_key g) (sc_recv_ctr g) plain_len (overlay data buf))))))"

lemma spinless_star [spinless_intros]:
  "spinless (star_mpi_send M buf tag comm)" "spinless (star_mpi_recv M count tag comm)"
  "spinless (star_mpi_iprobe M tag comm)" "spinless (star_mpi_probe M comm)"
  "spinless (star_master_secure_send C M comm key n p tag)" "spinless (star_master_secure_recv C M comm key n len tag)"
  "spinless (star_worker_secure_send C M comm g p tag)" "spinless (star_worker_secure_recv C M comm g len tag)"
  unfolding star_mpi_send_def star_mpi_recv_def star_mpi_iprobe_def star_mpi_probe_def
    star_master_secure_send_def star_master_secure_recv_def star_worker_secure_send_def star_worker_secure_recv_def
  by (intro spinless_intros)+

section \<open>The layer works between honest ends\<close>

lemma length_star_nonce [simp]: "length (star_nonce c) = NPUB"
  by (simp add: star_nonce_def channel_consts)

lemma star_nonce_ctr [simp]: "take 8 (star_nonce c) = le_enc 8 c" "8 - NPUB = 0" "8 - (NPUB + k) = 0"
  by (simp_all add: star_nonce_def NPUB_def)

lemma star_nonce_inj: "star_nonce c = star_nonce c' \<longleftrightarrow> c = c'"
  by (metis star_nonce_ctr(1) le_dec_enc64)

lemma star_seal_eq:
  assumes "aead_documented C" and "aead_enc C key (star_nonce n) [] p = Some c"
  shows "star_seal C buf key n p = star_nonce n @ c"
  using aead_length [OF assms] by (simp add: star_seal_def overlay_def assms(2))

lemma star_open_seal:
  assumes "aead_documented C" and "aead_enc C key (star_nonce n) [] p = Some c" and "m \<le> n"
  shows "star_open C key m (length p) (star_seal C buf key n p @ rest) = Some (p, n + 1)"
  using aead_length [OF assms(1,2)] aead_dec_enc [OF assms(1,2)] assms(3)
  by (simp add: star_seal_eq [OF assms(1,2)] star_open_def Let_def not_less)

lemma star_open_Some:
  assumes "aead_documented C" and "star_open C key m len buf = Some (p, n)"
  shows "\<exists>k. k = le_dec (take 8 buf) \<and> m \<le> k \<and> n = k + 1 \<and> length p = len \<and>
    aead_enc C key (take NPUB buf) [] p = Some (take (len + ABYTES) (drop NPUB buf))"
  using assms(2) aead_enc_dec [OF assms(1)]
  by (auto simp: star_open_def Let_def not_less split: if_splits option.splits)

section \<open>What the counters reject\<close>

text \<open>
  A receiver that is given one buffer after the other: what it accepts, and its counter at the end.
\<close>

fun filter_run :: "(u64 \<Rightarrow> 'f \<Rightarrow> ('m \<times> u64) option) \<Rightarrow> u64 \<Rightarrow> 'f list \<Rightarrow> ('f \<times> 'm) list \<times> u64" where
  "filter_run accept n [] = ([], n)"
| "filter_run accept n (f # fs) =
     (case accept n f of
        None \<Rightarrow> filter_run accept n fs
      | Some (m, n') \<Rightarrow> (case filter_run accept n' fs of (acc, k) \<Rightarrow> ((f, m) # acc, k)))"

locale counter_filter =
  fixes accept :: "u64 \<Rightarrow> 'f \<Rightarrow> ('m \<times> u64) option"
    and ctr :: "'f \<Rightarrow> u64"
  assumes above: "accept n f = Some (m, n') \<Longrightarrow> n \<le> ctr f \<and> n' = ctr f + 1"
begin

lemma increasing:
  assumes "filter_run accept n fs = (acc, k)" and "\<forall>(f, m)\<in>set acc. ctr f \<noteq> - 1"
  shows "sorted_wrt (<) (map (\<lambda>x. ctr (fst x)) acc) \<and> (\<forall>(f, m)\<in>set acc. n \<le> ctr f)"
  using assms
proof (induction fs arbitrary: n acc)
  case (Cons f fs)
  show ?case
  proof (cases "accept n f")
    case None
    with Cons show ?thesis by simp
  next
    case (Some mn)
    then obtain m n' acc' where a: "accept n f = Some (m, n')" and r: "filter_run accept n' fs = (acc', k)"
      and acc: "acc = (f, m) # acc'"
      using Cons.prems(1) by (cases mn) (auto split: prod.splits)
    note IH = Cons.IH [OF r]
    have s: "sorted_wrt (<) (map (\<lambda>x. ctr (fst x)) acc')" "\<forall>(g, m)\<in>set acc'. n' \<le> ctr g"
      using IH Cons.prems(2) by (auto simp: acc)
    have c: "n \<le> ctr f" "ctr f < n'"
      using above [OF a] Cons.prems(2) by (auto simp: acc word_less_nat_alt unat_succ)
    from s c show ?thesis by (fastforce simp: acc o_def)
  qed
qed simp

lemma no_replay:
  assumes "filter_run accept n fs = (acc, k)" and "\<forall>(f, m)\<in>set acc. ctr f \<noteq> - 1"
  shows "distinct (map fst acc)"
proof -
  have "sorted_wrt (<) (map (\<lambda>x. ctr (fst x)) acc)" using increasing [OF assms] by simp
  then have "distinct (map ctr (map fst acc))" by (simp add: strict_sorted_iff o_def)
  then show ?thesis unfolding distinct_map [of ctr] by blast
qed

end

definition star_ctr :: "bytes \<Rightarrow> u64" where
  "star_ctr buf = le_dec (take 8 buf)"

interpretation star_filter: counter_filter "\<lambda>n (len, buf). star_open C key n len buf" "\<lambda>(len, buf). star_ctr buf"
  for C key
  by unfold_locales
    (auto simp: star_open_def star_ctr_def Let_def not_less split: if_splits option.splits)

text \<open>
  C23: Whatever is delivered to a receiver of the first protocol version, the frames it accepts have
  strictly increasing counters, so that none is accepted twice (as long as nobody sends the counter
  2^64 - 1). A frame is not rejected for being early: an honest frame whose counter is ahead of the
  expected one is accepted, and the frames that were skipped are rejected from then on.
\<close>

theorem star_replays_rejected:
  assumes "aead_documented C"
    and "filter_run (\<lambda>n (len, buf). star_open C key n len buf) 0 fs = (acc, k)"
    and "\<forall>((len, buf), p)\<in>set acc. star_ctr buf \<noteq> - 1"
    and "aead_enc C key (star_nonce n) [] p = Some c" and "m \<le> n" and "n \<noteq> - 1" and "i \<le> n"
  shows "distinct (map fst acc) \<and> sorted_wrt (<) (map (\<lambda>((len, buf), p). star_ctr buf) acc) \<and>
    star_open C key m (length p) (star_seal C buf key n p) = Some (p, n + 1) \<and>
    star_open C key (n + 1) len (star_seal C buf' key i q) = None"
proof -
  have a: "\<forall>(f, m)\<in>set acc. (case f of (len, buf) \<Rightarrow> star_ctr buf) \<noteq> - 1" using assms(3) by fastforce
  have "sorted_wrt (<) (map (\<lambda>x. case fst x of (len, buf) \<Rightarrow> star_ctr buf) acc)"
    using star_filter.increasing [OF assms(2) a] by simp
  moreover have "(\<lambda>x :: (nat \<times> bytes) \<times> bytes. case fst x of (len, buf) \<Rightarrow> star_ctr buf) =
      (\<lambda>((len, buf), p). star_ctr buf)" by (rule ext) (simp split: prod.split)
  moreover have "star_open C key m (length p) (star_seal C buf key n p) = Some (p, n + 1)"
    using star_open_seal [OF assms(1,4,5), of buf "[]"] by simp
  moreover have "i < n + 1" using assms(6,7) by (simp add: word_less_nat_alt word_le_nat_alt unat_succ)
  then have "star_open C key (n + 1) len (star_seal C buf' key i q) = None"
    by (simp add: star_open_def star_seal_def)
  ultimately show ?thesis using star_filter.no_replay [OF assms(2) a] by simp
qed

text \<open>Two frames out of order: the early one is accepted, the late one and the replay are not.\<close>

theorem star_replays_rejected_witness:
  "let f = (\<lambda>n. (1, star_nonce n @ [7] @ demo_tag [9])) in
   filter_run (\<lambda>n (len, buf). star_open demo_crypto [9] n len buf) 0 [f 1, f 0, f 1, f 2] = ([(f 1, [7]), (f 2, [7])], 3) \<and>
   distinct [f 1, f 2]"
proof -
  let ?f = "\<lambda>n. (1, star_nonce n @ [7] @ demo_tag [9])"
  have r: "filter_run (\<lambda>n (len, buf). star_open demo_crypto [9] n len buf) 0 [?f 1, ?f 0, ?f 1, ?f 2]
      = ([(?f 1, [7]), (?f 2, [7])], 3)"
    by (simp add: star_open_def demo_crypto_def ABYTES_def)
  have e: "aead_enc demo_crypto [9] (star_nonce 0) [] [7] = Some ([7] @ demo_tag [9])"
    by (simp add: demo_crypto_def)
  have "distinct (map fst [(?f 1, [7 :: u8]), (?f 2, [7])])"
    using star_replays_rejected [OF demo_crypto_documented r _ e, of 0 0] by (simp add: star_ctr_def)
  with r show ?thesis by simp
qed

section \<open>One key for both directions\<close>

text \<open>
  The structure of the cipher (RFC 8439): a keystream of the key and the nonce, and a tag.
\<close>

definition stream_aead :: "crypto \<Rightarrow> (bytes \<Rightarrow> bytes \<Rightarrow> bytes) \<Rightarrow> bool" where
  "stream_aead C ks \<longleftrightarrow> (\<forall>k n a p. length p \<le> 256 \<longrightarrow> 256 \<le> length (ks k n) \<and>
     (\<exists>t. length t = ABYTES \<and> aead_enc C k n a p = Some (map2 (XOR) p (ks k n) @ t)))"

definition star_server_key :: "crypto \<Rightarrow> bytes \<Rightarrow> bytes \<Rightarrow> bytes \<Rightarrow> bytes option" where
  \<comment> \<open>the central node derives app_key from tx\<close>
  "star_server_key C server_pk server_sk client_pk =
     (case kx_server C server_pk server_sk client_pk of
        None \<Rightarrow> None
      | Some (rx, tx) \<Rightarrow> Some (generichash C KEYB [] (tx @ map of_char ''app_key'')))"

definition star_client_key :: "crypto \<Rightarrow> bytes \<Rightarrow> bytes \<Rightarrow> bytes \<Rightarrow> bytes option" where
  \<comment> \<open>the worker derives it from rx\<close>
  "star_client_key C client_pk client_sk server_pk =
     (case kx_client C client_pk client_sk server_pk of
        None \<Rightarrow> None
      | Some (rx, tx) \<Rightarrow> Some (generichash C KEYB [] (rx @ map of_char ''app_key'')))"

lemma xor_cancel: "((p :: u8) XOR k) XOR (q XOR k) = p XOR q"
  by (rule bit_word_eqI) (auto simp: bit_simps)

lemma xor_streams:
  "length p \<le> length ks \<Longrightarrow> length q \<le> length ks \<Longrightarrow>
   map2 (XOR) (map2 (XOR) p ks) (map2 (XOR) q ks) = map2 (XOR) p (q :: bytes)"
proof (induction p ks arbitrary: q rule: list_induct2')
  case (4 a p k ks)
  then show ?case by (cases q) (simp_all add: xor_cancel)
qed simp_all

lemma zip_take_left: "zip xs (take (length xs) ys) = zip xs ys"
  by (induction xs ys rule: list_induct2') simp_all

text \<open>
  C27: In the first protocol version the two directions are not separated: both ends derive the same
  key, both count from 0, so the i-th frame of the central node and the i-th frame of the worker use one
  key with one nonce, and whoever sees both frames learns the exclusive or of the two messages without
  the key.
\<close>

theorem star_keystream_reused:
  assumes "stream_aead C ks" and "length p \<le> length q" and "length q \<le> 256"
    and "kx_server C server_pk server_sk client_pk = Some (rx, tx)"
    and "kx_client C client_pk client_sk server_pk = Some (tx, rx)"
    and "star_server_key C server_pk server_sk client_pk = Some k1"
    and "star_client_key C client_pk client_sk server_pk = Some k2"
  shows "take NPUB (star_seal C buf k1 i p) = take NPUB (star_seal C buf' k2 i q) \<and> k1 = k2 \<and>
    map2 (XOR) (take (length p) (drop NPUB (star_seal C buf k1 i p)))
      (take (length p) (drop NPUB (star_seal C buf' k2 i q))) = map2 (XOR) p (take (length p) q)"
proof -
  have k: "k1 = k2" using assms(4-7) by (simp add: star_server_key_def star_client_key_def)
  have s: "drop NPUB (star_seal C b k2 i x) = map2 (XOR) x (ks k2 (star_nonce i)) @ drop (length x) (drop NPUB (star_seal C b k2 i x))
    \<and> length x \<le> length (ks k2 (star_nonce i))" if x: "length x \<le> 256" for x b
  proof -
    obtain t where l: "256 \<le> length (ks k2 (star_nonce i))" "length t = ABYTES"
      and e: "aead_enc C k2 (star_nonce i) [] x = Some (map2 (XOR) x (ks k2 (star_nonce i)) @ t)"
      using assms(1) x unfolding stream_aead_def by blast
    with x show ?thesis by (simp add: star_seal_def overlay_def)
  qed
  have p: "length p \<le> 256" using assms(2,3) by simp
  have t: "take (length p) (map2 (XOR) q z) = map2 (XOR) (take (length p) q) z"
    if "length q \<le> length z" for z :: bytes
    using that assms(2) zip_take_left [of "take (length p) q" z] by (simp add: take_map take_zip)
  have "map2 (XOR) (take (length p) (drop NPUB (star_seal C buf k2 i p)))
      (take (length p) (drop NPUB (star_seal C buf' k2 i q))) =
    map2 (XOR) (map2 (XOR) p (ks k2 (star_nonce i))) (map2 (XOR) (take (length p) q) (ks k2 (star_nonce i)))"
    by (subst (1) s [THEN conjunct1, OF p], subst s [THEN conjunct1, OF assms(3)])
      (use s [OF p, of buf] s [OF assms(3), of buf'] assms(2) in \<open>simp add: t\<close>)
  also have "\<dots> = map2 (XOR) p (take (length p) q)"
    by (rule xor_streams) (use s [OF p, of buf] in \<open>simp_all add: min.coboundedI2\<close>)
  finally show ?thesis by (simp add: k star_seal_def)
qed

definition demo_stream_crypto :: crypto where
  "demo_stream_crypto = demo_crypto\<lparr>aead_enc := (\<lambda>k n a p. Some (map2 (XOR) p (replicate 256 (hd n)) @ demo_tag k))\<rparr>"

theorem star_keystream_reused_witness:
  "\<exists>key. star_server_key demo_stream_crypto [1] [2] [3] = Some key \<and>
    star_client_key demo_stream_crypto [3] [4] [1] = Some key \<and>
    map2 (XOR) (take 2 (drop NPUB (star_seal demo_stream_crypto [] key 5 [6, 0])))
      (take 2 (drop NPUB (star_seal demo_stream_crypto [] key 5 [6, 0, 36]))) = [0, 0]"
proof -
  have a: "stream_aead demo_stream_crypto (\<lambda>k n. replicate 256 (hd n))"
    by (simp add: stream_aead_def demo_stream_crypto_def ABYTES_def)
  obtain key where k: "star_server_key demo_stream_crypto [1] [2] [3] = Some key"
    "star_client_key demo_stream_crypto [3] [4] [1] = Some key"
    by (simp add: star_server_key_def star_client_key_def demo_stream_crypto_def demo_crypto_def)
  have kx: "kx_server demo_stream_crypto [1] [2] [3] = Some ([3], [1])"
    "kx_client demo_stream_crypto [3] [4] [1] = Some ([1], [3])"
    by (simp_all add: demo_stream_crypto_def demo_crypto_def)
  from star_keystream_reused [OF a _ _ kx k, of "[6, 0]" "[6, 0, 36]" "[]" 5 "[]"] k
  show ?thesis by (simp add: numeral_2_eq_2)
qed

end
