(* ===== verification/Star_Node.thy ===== *)
theory Star_Node
  imports Star_Channel Snp_Report
begin

text \<open>
  The computation phase of the first protocol version: the central node's distribution of the nine
  tasks (\<open>main\<close> of src/master.c from the task list on, with \<open>secure_send_task\<close>,
  \<open>secure_send_ctrl\<close>, \<open>secure_recv_result\<close>) and the worker's loop (\<open>main\<close> of src/worker.c,
  with \<open>secure_recv_ctrl\<close>, \<open>secure_recv_task\<close>, \<open>secure_send_result\<close>). What is printed and the
  sleep between two polls are not modelled.
\<close>

abbreviation TAG_TASK :: int where "TAG_TASK \<equiv> 10"
abbreviation TAG_RESULT :: int where "TAG_RESULT \<equiv> 11"
abbreviation TAG_IDLE :: int where "TAG_IDLE \<equiv> 13"
abbreviation TAG_SHUTDOWN :: int where "TAG_SHUTDOWN \<equiv> 99"
abbreviation CTRL_MAGIC_SHUTDOWN :: u32 where "CTRL_MAGIC_SHUTDOWN \<equiv> 0xDEAD0001"
abbreviation CTRL_MAGIC_IDLE :: u32 where "CTRL_MAGIC_IDLE \<equiv> 0xDEAD0002"

section \<open>Central node\<close>

record star_links =
  sl_workers :: "comm list"
  sl_keys :: "bytes list"

record star_state =
  ss_send :: "u64 list"
  ss_recv :: "u64 list"
  ss_next :: nat
  ss_received :: nat

definition star_tasks :: "u32 list" where
  "star_tasks = [2, 3, 4, 5, 6, 7, 8, 9, 10]"

abbreviation NT :: nat where "NT \<equiv> length star_tasks"

definition star_send ::
  "crypto \<Rightarrow> 'e star_mpi \<Rightarrow> star_links \<Rightarrow> nat \<Rightarrow> int \<Rightarrow> u32 \<Rightarrow> star_state \<Rightarrow> ('e, star_state) prog" where
  \<comment> \<open>secure_send_task and secure_send_ctrl: one int\<close>
  "star_send C M L wid tag x s =
     bindP (star_master_secure_send C M (sl_workers L ! wid) (sl_keys L ! wid) (ss_send s ! wid) (le_enc 4 x) tag) (\<lambda>n.
     ret (s\<lparr>ss_send := (ss_send s)[wid := n]\<rparr>))"

definition star_assign :: "crypto \<Rightarrow> 'e star_mpi \<Rightarrow> star_links \<Rightarrow> nat \<Rightarrow> star_state \<Rightarrow> ('e, star_state) prog" where
  "star_assign C M L i s =
     (if ss_next s < NT
      then star_send C M L i TAG_TASK (star_tasks ! ss_next s) (s\<lparr>ss_next := ss_next s + 1\<rparr>)
      else star_send C M L i TAG_IDLE CTRL_MAGIC_IDLE s)"

definition star_poll :: "crypto \<Rightarrow> 'e star_mpi \<Rightarrow> star_links \<Rightarrow> nat \<Rightarrow> star_state \<Rightarrow> ('e, star_state) prog" where
  \<comment> \<open>the printed pair of a result is not looked at\<close>
  "star_poll C M L i s =
     bindP (star_mpi_iprobe M TAG_RESULT (sl_workers L ! i)) (\<lambda>flag.
     if \<not> flag then ret s
     else
       bindP (star_master_secure_recv C M (sl_workers L ! i) (sl_keys L ! i) (ss_recv s ! i) 8 TAG_RESULT) (\<lambda>r.
       case r of
         None \<Rightarrow> ret s
       | Some (pair, n) \<Rightarrow>
           star_assign C M L i (s\<lparr>ss_recv := (ss_recv s)[i := n], ss_received := Suc (ss_received s)\<rparr>)))"

definition star_pass ::
  "crypto \<Rightarrow> 'e star_mpi \<Rightarrow> star_links \<Rightarrow> nat \<Rightarrow> star_state \<Rightarrow> ('e, (star_state, star_state) flow) prog" where
  "star_pass C M L nworkers s =
     (if ss_received s < NT
      then bindP (loopP (star_poll C M L) [0..<nworkers] s) (\<lambda>s. ret (Next s))
      else ret (Exit s))"

definition star_shutdown :: "crypto \<Rightarrow> 'e star_mpi \<Rightarrow> star_links \<Rightarrow> nat \<Rightarrow> star_state \<Rightarrow> ('e, star_state) prog" where
  "star_shutdown C M L i s =
     bindP (star_send C M L i TAG_SHUTDOWN CTRL_MAGIC_SHUTDOWN s) (\<lambda>s.
     bindP (call (m_disconnect M (sl_workers L ! i))) (\<lambda>_. ret s))"

definition star_distribute ::
  "nat \<Rightarrow> crypto \<Rightarrow> 'e star_mpi \<Rightarrow> star_links \<Rightarrow> star_state \<Rightarrow> ('e, star_state) prog" where
  \<comment> \<open>fuel bounds the passes over the workers\<close>
  "star_distribute fuel C M L s =
     (let nworkers = length (sl_workers L) in
      if nworkers = 0 then ret s
      else
        bindP (loopP (star_assign C M L) [0..<nworkers] s) (\<lambda>s.
        bindP (whileX fuel (star_pass C M L nworkers) s) (\<lambda>s.
        loopP (star_shutdown C M L) [0..<nworkers] s)))"

section \<open>Worker\<close>

definition star_recv_ctrl ::
  "crypto \<Rightarrow> 'e star_mpi \<Rightarrow> comm \<Rightarrow> star_chan \<Rightarrow> int \<Rightarrow> u32 \<Rightarrow> ('e, bool \<times> star_chan) prog" where
  \<comment> \<open>a wrong sentinel has moved the counter all the same\<close>
  "star_recv_ctrl C M icomm g tag expected_magic =
     bindP (star_worker_secure_recv C M icomm g 4 tag) (\<lambda>r.
     case r of
       None \<Rightarrow> ret (False, g)
     | Some (bs, g) \<Rightarrow> ret (le_dec bs = expected_magic, g))"

definition square_int :: "int \<Rightarrow> int option" where
  \<comment> \<open>x * x of an int; an overflow has no defined result\<close>
  "square_int x = (if x * x \<le> 2147483647 then Some (x * x) else None)"

definition star_serve_task ::
  "crypto \<Rightarrow> 'e star_mpi \<Rightarrow> comm \<Rightarrow> star_chan \<Rightarrow> ('e, star_chan) prog" where
  "star_serve_task C M icomm g =
     bindP (star_worker_secure_recv C M icomm g 4 TAG_TASK) (\<lambda>r.
     case r of
       None \<Rightarrow> ret g
     | Some (bs, g) \<Rightarrow>
         let x = sint (le_dec bs :: u32) in
         case square_int x of
           None \<Rightarrow> halt 134
         | Some y \<Rightarrow>
             star_worker_secure_send C M icomm g (le_enc 4 (word_of_int x :: u32) @ le_enc 4 (word_of_int y :: u32)) TAG_RESULT)"

definition star_discard ::
  "'e star_mpi \<Rightarrow> comm \<Rightarrow> int \<Rightarrow> int \<Rightarrow> star_chan \<Rightarrow> ('e, (star_chan, star_chan) flow) prog" where
  \<comment> \<open>a message under an unknown tag is received and dropped; MPI_UNDEFINED is negative\<close>
  "star_discard M icomm tag count g =
     (let msg_count = (if count < 0 then 0 else if count > 65536 then 65536 else count) in
      bindP (call (m_malloc M (nat (if msg_count > 0 then msg_count else 1)))) (\<lambda>ok.
      if ok then bindP (star_mpi_recv M (nat msg_count) tag icomm) (\<lambda>_. ret (Next g))
      else ret (Exit g)))"

definition star_worker_step ::
  "crypto \<Rightarrow> 'e star_mpi \<Rightarrow> comm \<Rightarrow> star_chan \<Rightarrow> ('e, (star_chan, star_chan) flow) prog" where
  "star_worker_step C M icomm g =
     bindP (star_mpi_probe M icomm) (\<lambda>(tag, count).
     if tag = TAG_SHUTDOWN then
       bindP (star_recv_ctrl C M icomm g TAG_SHUTDOWN CTRL_MAGIC_SHUTDOWN) (\<lambda>(ok, g).
       ret (if ok then Exit g else Next g))
     else if tag = TAG_IDLE then
       bindP (star_recv_ctrl C M icomm g TAG_IDLE CTRL_MAGIC_IDLE) (\<lambda>(ok, g). ret (Next g))
     else if tag = TAG_TASK then
       bindP (star_serve_task C M icomm g) (\<lambda>g. ret (Next g))
     else star_discard M icomm tag count g)"

definition star_worker_loop ::
  "nat \<Rightarrow> crypto \<Rightarrow> 'e star_mpi \<Rightarrow> comm \<Rightarrow> bytes \<Rightarrow> ('e, unit) prog" where
  \<comment> \<open>fuel bounds the messages; then the key is wiped and the connection closed\<close>
  "star_worker_loop fuel C M icomm app_key =
     bindP (whileX fuel (star_worker_step C M icomm) \<lparr>sc_key = app_key, sc_send_ctr = 0, sc_recv_ctr = 0\<rparr>) (\<lambda>_.
     bindP (call (m_disconnect M icomm)) (\<lambda>_.
     bindP (call (m_finalize M)) (\<lambda>_. ret ())))"

section \<open>Logged runs\<close>

text \<open>The messages a program sends, in order: communicator, tag and bytes.\<close>

type_synonym star_log = "(comm \<times> int \<times> bytes) list"

definition with_log :: "('e \<Rightarrow> 'a \<times> 'e) \<Rightarrow> star_log \<times> 'e \<Rightarrow> 'a \<times> star_log \<times> 'e" where
  "with_log f w = (case f (snd w) of (x, e) \<Rightarrow> (x, fst w, e))"

definition star_logged :: "'e star_mpi \<Rightarrow> (star_log \<times> 'e) star_mpi" where
  "star_logged M = \<lparr>m_wait = m_wait M,
     m_send = (\<lambda>c tag buf w. case m_send M c tag buf (snd w) of (rc, e) \<Rightarrow> (rc, fst w @ [(c, tag, buf)], e)),
     m_recv = (\<lambda>c tag n. with_log (m_recv M c tag n)), m_get_count = m_get_count M,
     m_iprobe = (\<lambda>c tag. with_log (m_iprobe M c tag)), m_disconnect = (\<lambda>c. with_log (m_disconnect M c)),
     m_init = with_log (m_init M), m_finalize = with_log (m_finalize M), m_wtime = with_log (m_wtime M),
     m_malloc = (\<lambda>n. with_log (m_malloc M n)), m_probe = (\<lambda>c. with_log (m_probe M c)),
     m_stack = (\<lambda>n. with_log (m_stack M n))\<rparr>"

lemma with_log_Done: "call (with_log f) w = Done x w' \<Longrightarrow> fst w' = fst w"
  by (cases w) (auto simp: with_log_def split: prod.splits)

lemma star_send_logged:
  assumes "star_send C (star_logged M) L wid tag x s w = Done s' w'"
  shows "(\<exists>buf. fst w' = fst w @ [(sl_workers L ! wid, tag, star_seal C buf (sl_keys L ! wid) (ss_send s ! wid) (le_enc 4 x))]) \<and>
    s' = s\<lparr>ss_send := (ss_send s)[wid := ss_send s ! wid + 1]\<rparr>"
  using assms
  by (cases w) (auto simp: star_send_def star_master_secure_send_def star_mpi_send_def star_logged_def
      with_log_def SECURE_MAX_PLAIN_def split: if_splits prod.splits, blast)

text \<open>A message that carries a task to one of the workers, and the task messages of a log.\<close>

definition carries :: "crypto \<Rightarrow> star_links \<Rightarrow> u32 \<Rightarrow> comm \<times> int \<times> bytes \<Rightarrow> bool" where
  "carries C L x m \<longleftrightarrow> (\<exists>w buf ctr. w < length (sl_workers L) \<and>
     m = (sl_workers L ! w, TAG_TASK, star_seal C buf (sl_keys L ! w) ctr (le_enc 4 x)))"

definition task_frames :: "star_log \<Rightarrow> star_log" where
  "task_frames l = filter (\<lambda>(c, tag, buf). tag = TAG_TASK) l"

definition stop_frames :: "star_log \<Rightarrow> comm list" where
  "stop_frames l = map fst (filter (\<lambda>(c, tag, buf). tag = TAG_SHUTDOWN) l)"

definition tasks_sent :: "crypto \<Rightarrow> star_links \<Rightarrow> star_state \<Rightarrow> star_log \<Rightarrow> bool" where
  "tasks_sent C L s l \<longleftrightarrow> ss_next s \<le> NT \<and> list_all2 (carries C L) (take (ss_next s) star_tasks) (task_frames l) \<and>
     stop_frames l = []"

lemma carriesI:
  "w < length (sl_workers L) \<Longrightarrow> carries C L x (sl_workers L ! w, TAG_TASK, star_seal C buf (sl_keys L ! w) ctr (le_enc 4 x))"
  unfolding carries_def by blast

lemma star_assign_logged:
  assumes "star_assign C (star_logged M) L i s w = Done s' w'" and "i < length (sl_workers L)"
    and "tasks_sent C L s (fst w)"
  shows "tasks_sent C L s' (fst w') \<and> ss_next s' = min NT (ss_next s + 1) \<and> ss_received s' = ss_received s"
proof (cases "ss_next s < NT")
  case True
  from star_send_logged [OF assms(1) [unfolded star_assign_def if_P [OF True]]] obtain buf ctr where
    l: "fst w' = fst w @ [(sl_workers L ! i, TAG_TASK, star_seal C buf (sl_keys L ! i) ctr (le_enc 4 (star_tasks ! ss_next s)))]"
    and s: "ss_next s' = ss_next s + 1" "ss_received s' = ss_received s" by auto
  have "list_all2 (carries C L) (take (ss_next s) star_tasks @ [star_tasks ! ss_next s]) (task_frames (fst w'))"
    using assms(2,3) by (auto simp: tasks_sent_def l task_frames_def intro!: list_all2_appendI carriesI)
  with True assms(3) s show ?thesis
    by (simp add: tasks_sent_def take_Suc_conv_app_nth l stop_frames_def)
next
  case False
  from star_send_logged [OF assms(1) [unfolded star_assign_def if_not_P [OF False]]] False assms(3)
  show ?thesis by (auto simp: tasks_sent_def task_frames_def stop_frames_def)
qed

lemma star_poll_logged:
  assumes "star_poll C (star_logged M) L i s w = Done s' w'" and "i < length (sl_workers L)"
    and "tasks_sent C L s (fst w)"
  shows "tasks_sent C L s' (fst w') \<and>
    (s' = s \<or> ss_next s' = min NT (ss_next s + 1) \<and> ss_received s' = ss_received s + 1)"
proof -
  from assms(1) obtain flag v where f: "star_mpi_iprobe (star_logged M) TAG_RESULT (sl_workers L ! i) w = Done flag v"
    and k: "(if \<not> flag then ret s else bindP (star_master_secure_recv C (star_logged M) (sl_workers L ! i) (sl_keys L ! i)
        (ss_recv s ! i) 8 TAG_RESULT) (\<lambda>r. case r of None \<Rightarrow> ret s | Some (pair, n) \<Rightarrow> star_assign C (star_logged M) L i
          (s\<lparr>ss_recv := (ss_recv s)[i := n], ss_received := Suc (ss_received s)\<rparr>))) v = Done s' w'"
    by (auto simp: star_poll_def)
  have v: "fst v = fst w"
    using f by (auto simp: star_mpi_iprobe_def star_logged_def with_log_def split: if_splits prod.splits)
  show ?thesis
  proof (cases flag)
    case True
    with k obtain r u where r: "star_master_secure_recv C (star_logged M) (sl_workers L ! i) (sl_keys L ! i)
        (ss_recv s ! i) 8 TAG_RESULT v = Done r u"
      and a: "(case r of None \<Rightarrow> ret s | Some (pair, n) \<Rightarrow> star_assign C (star_logged M) L i
          (s\<lparr>ss_recv := (ss_recv s)[i := n], ss_received := Suc (ss_received s)\<rparr>)) u = Done s' w'"
      by auto
    have u: "fst u = fst v"
      using r by (auto simp: star_master_secure_recv_def star_mpi_recv_def star_logged_def with_log_def
          split: if_splits prod.splits)
    show ?thesis
    proof (cases r)
      case None
      with a u v assms(3) show ?thesis by auto
    next
      case (Some pn)
      then obtain pair n where a': "star_assign C (star_logged M) L i
          (s\<lparr>ss_recv := (ss_recv s)[i := n], ss_received := Suc (ss_received s)\<rparr>) u = Done s' w'"
        using a by (cases pn) auto
      have "tasks_sent C L (s\<lparr>ss_recv := (ss_recv s)[i := n], ss_received := Suc (ss_received s)\<rparr>) (fst u)"
        using assms(3) u v by (simp add: tasks_sent_def)
      from star_assign_logged [OF a' assms(2) this] show ?thesis by simp
    qed
  next
    case False
    with k v assms(3) show ?thesis by auto
  qed
qed


lemma loopP_index:
  assumes "loopP body [a..<b] s w = Done s' w'" and "P a s w" and "a \<le> b"
    and "\<And>i s w s' w'. a \<le> i \<Longrightarrow> i < b \<Longrightarrow> P i s w \<Longrightarrow> body i s w = Done s' w' \<Longrightarrow> P (Suc i) s' w'"
  shows "P b s' w'"
  using assms
proof (induction "b - a" arbitrary: a s w)
  case (Suc d)
  then have ab: "a < b" by simp
  with Suc.prems(1) obtain t v where b: "body a s w = Done t v" and l: "loopP body [Suc a..<b] t v = Done s' w'"
    by (auto simp: upt_conv_Cons)
  have "P (Suc a) t v" using Suc.prems(4) [OF _ ab Suc.prems(2) b] by simp
  with l Suc.hyps(2) ab Suc.prems(4) show ?case by (intro Suc.hyps(1)) auto
qed simp

text \<open>The states of the distribution, after the first assignments: every accepted result led to one more.\<close>

definition star_inv :: "crypto \<Rightarrow> star_links \<Rightarrow> nat \<Rightarrow> star_state \<Rightarrow> star_log \<times> 'e \<Rightarrow> bool" where
  "star_inv C L k s w \<longleftrightarrow> tasks_sent C L s (fst w) \<and> ss_next s = min NT (k + ss_received s)"

lemma star_pass_inv:
  assumes "star_pass C (star_logged M) L (length (sl_workers L)) s w = Done (Next s') w'" and "star_inv C L k s w"
  shows "star_inv C L k s' w' \<and> ss_received s' < NT + length (sl_workers L)"
proof -
  let ?n = "length (sl_workers L)"
  from assms(1) have r: "ss_received s < NT" and l: "loopP (star_poll C (star_logged M) L) [0..<?n] s w = Done s' w'"
    by (auto simp: star_pass_def split: if_splits)
  have "star_inv C L k s' w' \<and> ss_received s' \<le> ss_received s + ?n"
  proof (rule loopP_index [OF l, of "\<lambda>i t v. star_inv C L k t v \<and> ss_received t \<le> ss_received s + i"])
    fix i t v t' v'
    assume i: "i < ?n" and P: "star_inv C L k t v \<and> ss_received t \<le> ss_received s + i"
      and b: "star_poll C (star_logged M) L i t v = Done t' v'"
    from star_poll_logged [OF b i] P show "star_inv C L k t' v' \<and> ss_received t' \<le> ss_received s + Suc i"
      by (auto simp: star_inv_def)
  qed (use assms(2) in simp_all)
  with r show ?thesis by simp
qed

lemma star_shutdown_logged:
  assumes "star_shutdown C (star_logged M) L i s w = Done s' w'"
  shows "stop_frames (fst w') = stop_frames (fst w) @ [sl_workers L ! i] \<and> task_frames (fst w') = task_frames (fst w) \<and>
    ss_next s' = ss_next s \<and> ss_received s' = ss_received s"
proof -
  from assms obtain v u where "star_send C (star_logged M) L i TAG_SHUTDOWN CTRL_MAGIC_SHUTDOWN s w = Done s' v"
    and "call (m_disconnect (star_logged M) (sl_workers L ! i)) v = Done u w'"
    by (auto simp: star_shutdown_def)
  from star_send_logged [OF this(1)] this(2) show ?thesis
    by (auto simp: star_logged_def with_log_def stop_frames_def task_frames_def split: prod.splits)
qed

definition star_init :: "nat \<Rightarrow> star_state" where
  "star_init n = \<lparr>ss_send = replicate n 0, ss_recv = replicate n 0, ss_next = 0, ss_received = 0\<rparr>"

lemma star_tasks_first:
  assumes "loopP (star_assign C (star_logged M) L) [0..<n] (star_init 128) ([], e) = Done s w" and "n = length (sl_workers L)"
  shows "tasks_sent C L s (fst w) \<and> ss_next s = min NT n \<and> ss_received s = 0"
proof (rule loopP_index [OF assms(1), of "\<lambda>i s w. tasks_sent C L s (fst w) \<and> ss_next s = min NT i \<and> ss_received s = 0"])
  fix i s w s' w'
  assume "i < n" and P: "tasks_sent C L s (fst w) \<and> ss_next s = min NT i \<and> ss_received s = 0"
    and "star_assign C (star_logged M) L i s w = Done s' w'"
  from star_assign_logged [OF this(3) this(1) [unfolded assms(2)]] P
  show "tasks_sent C L s' (fst w') \<and> ss_next s' = min NT (Suc i) \<and> ss_received s' = 0" by simp
qed (simp_all add: star_init_def tasks_sent_def task_frames_def stop_frames_def)

lemma star_passes_end:
  assumes "whileX fuel (star_pass C (star_logged M) L n) s w = Done s' w'"
    and "star_inv C L n s w" and "ss_received s < NT + n" and "n = length (sl_workers L)" and "0 < n"
  shows "star_inv C L n s' w' \<and> NT \<le> ss_received s' \<and> ss_received s' < NT + n"
proof -
  have "\<exists>t v. (star_inv C L n t v \<and> ss_received t < NT + n) \<and> star_pass C (star_logged M) L n t v = Done (Exit s') w'"
    using assms(2,3,4,5) by (intro whileX_inv [OF assms(1), of "\<lambda>t v. star_inv C L n t v \<and> ss_received t < NT + n"])
      (use star_pass_inv [of C M L] in \<open>simp, blast\<close>)
  then show ?thesis by (auto simp: star_pass_def split: if_splits)
qed

lemma star_stops_sent:
  assumes "loopP (star_shutdown C (star_logged M) L) [0..<n] s w = Done s' w'" and "star_inv C L n s w"
    and "n = length (sl_workers L)"
  shows "stop_frames (fst w') = sl_workers L \<and> task_frames (fst w') = task_frames (fst w) \<and>
    ss_next s' = ss_next s \<and> ss_received s' = ss_received s"
proof -
  have "stop_frames (fst w') = take n (sl_workers L) \<and> task_frames (fst w') = task_frames (fst w) \<and>
      ss_next s' = ss_next s \<and> ss_received s' = ss_received s"
    by (rule loopP_index [OF assms(1), of "\<lambda>i t v. stop_frames (fst v) = take i (sl_workers L) \<and>
          task_frames (fst v) = task_frames (fst w) \<and> ss_next t = ss_next s \<and> ss_received t = ss_received s"])
      (use assms(2,3) in \<open>auto simp: star_inv_def tasks_sent_def take_Suc_conv_app_nth dest: star_shutdown_logged\<close>)
  then show ?thesis using assms(3) by simp
qed

text \<open>
  C24: When the distribution of the first protocol version ends with at least one worker, the nine tasks
  have been sent, each exactly once and in order, each sealed under the key of the worker it went to; at
  least nine results were accepted and fewer than nine plus the number of workers; and the last message
  to every worker is a single SHUTDOWN.
\<close>

theorem star_tasks_distributed:
  "on_return (\<lambda>s (l, e).
      if sl_workers L = [] then l = []
      else ss_next s = NT \<and> NT \<le> ss_received s \<and> ss_received s < NT + length (sl_workers L) \<and>
        list_all2 (carries C L) star_tasks (task_frames l) \<and> stop_frames l = sl_workers L)
    (star_distribute fuel C (star_logged M) L (star_init 128) ([], e))"
proof (cases "sl_workers L = []")
  case True
  then show ?thesis by (simp add: on_return_def star_distribute_def)
next
  case False
  let ?n = "length (sl_workers L)" and ?M = "star_logged M"
  have n: "0 < ?n" using False by simp
  show ?thesis
  proof (rule on_returnI)
    fix s w'
    assume "star_distribute fuel C ?M L (star_init 128) ([], e) = Done s w'"
    with False obtain s1 w1 s2 w2 where
      1: "loopP (star_assign C ?M L) [0..<?n] (star_init 128) ([], e) = Done s1 w1" and
      2: "whileX fuel (star_pass C ?M L ?n) s1 w1 = Done s2 w2" and
      3: "loopP (star_shutdown C ?M L) [0..<?n] s2 w2 = Done s w'"
      by (auto simp: star_distribute_def Let_def)
    from star_tasks_first [OF 1 refl] n have "star_inv C L ?n s1 w1" "ss_received s1 < NT + ?n"
      by (simp_all add: star_inv_def)
    with star_passes_end [OF 2 _ _ refl n] have
      r: "star_inv C L ?n s2 w2" "NT \<le> ss_received s2" "ss_received s2 < NT + ?n" by simp_all
    with star_stops_sent [OF 3 r(1) refl] show "case w' of (l, e) \<Rightarrow>
        if sl_workers L = [] then l = []
        else ss_next s = NT \<and> NT \<le> ss_received s \<and> ss_received s < NT + ?n \<and>
          list_all2 (carries C L) star_tasks (task_frames l) \<and> stop_frames l = sl_workers L"
      using False by (cases w') (auto simp: star_inv_def tasks_sent_def)
  qed
qed


section \<open>What the worker does with a message\<close>

lemma star_worker_recv_Some:
  assumes "aead_documented C" and "star_worker_secure_recv C M icomm g len tag w = Done (Some (p, g')) w'"
  shows "\<exists>frame n c. n = star_ctr frame \<and> sc_recv_ctr g \<le> n \<and> g' = g\<lparr>sc_recv_ctr := n + 1\<rparr> \<and>
    aead_enc C (sc_key g) (take NPUB frame) [] p = Some c"
proof -
  from assms(2) obtain buf n where o: "star_open C (sc_key g) (sc_recv_ctr g) len buf = Some (p, n)"
    and g: "g' = g\<lparr>sc_recv_ctr := n\<rparr>"
    by (auto simp: star_worker_secure_recv_def split: if_splits)
  from star_open_Some [OF assms(1) o] g show ?thesis by (auto simp: star_ctr_def)
qed

lemma star_recv_ctrl_True:
  assumes "aead_documented C" and "star_recv_ctrl C M icomm g tag magic w = Done (True, g') w'"
  shows "\<exists>frame n c. n = star_ctr frame \<and> sc_recv_ctr g \<le> n \<and> g' = g\<lparr>sc_recv_ctr := n + 1\<rparr> \<and>
    aead_enc C (sc_key g) (take NPUB frame) [] (le_enc 4 magic) = Some c"
proof -
  from assms(2) obtain bs where r: "star_worker_secure_recv C M icomm g 4 tag w = Done (Some (bs, g')) w'"
    and m: "le_dec bs = magic"
    by (auto simp: star_recv_ctrl_def split: option.splits)
  have "length bs = 4"
    using r star_open_Some [OF assms(1)] by (fastforce simp: star_worker_secure_recv_def split: if_splits)
  then have "bs = le_enc 4 magic" using m le_enc_dec [of bs, where 'a = 32] by simp
  with star_worker_recv_Some [OF assms(1) r] show ?thesis by simp
qed

lemma star_recv_ctrl_key:
  "star_recv_ctrl C M icomm g t m v = Done (ok, g') v' \<Longrightarrow> sc_key g' = sc_key g"
  by (auto simp: star_recv_ctrl_def star_worker_secure_recv_def split: option.splits if_splits)

lemma star_serve_task_key: "star_serve_task C M icomm g v = Done g' v' \<Longrightarrow> sc_key g' = sc_key g"
  by (auto simp: star_serve_task_def star_worker_secure_recv_def star_worker_secure_send_def Let_def
      split: option.splits if_splits)

lemma star_discard_Next:
  assumes "\<And>n e. fst (m_malloc M n e)"
  shows "star_discard M icomm tag count g v = Done f v' \<Longrightarrow> f = Next g"
  using assms by (auto simp: star_discard_def Let_def split: if_splits) (metis fst_conv)+


definition demo_star_mpi :: "int \<Rightarrow> bytes \<Rightarrow> unit star_mpi" where
  \<comment> \<open>one message waits\<close>
  "demo_star_mpi tag msg = \<lparr>m_wait = demo_wait_sys, m_send = (\<lambda>c t b e. (MPI_SUCCESS, e)),
     m_recv = (\<lambda>c t n e. ((MPI_SUCCESS, msg), e)), m_get_count = (\<lambda>d. (MPI_SUCCESS, length d)),
     m_iprobe = (\<lambda>c t e. ((MPI_SUCCESS, True), e)), m_disconnect = (\<lambda>c e. (MPI_SUCCESS, e)),
     m_init = (\<lambda>e. (MPI_SUCCESS, e)), m_finalize = (\<lambda>e. (MPI_SUCCESS, e)), m_wtime = (\<lambda>e. (0, e)),
     m_malloc = (\<lambda>n e. (True, e)), m_probe = (\<lambda>c e. ((MPI_SUCCESS, tag, int (length msg)), e)),
     m_stack = (\<lambda>n e. (replicate n 0, e))\<rparr>"


text \<open>
  A sealed int that reaches the worker under the TASK tag, whatever it was sealed as: the answer, or the
  undefined behaviour of the square.
\<close>

lemma star_task_answered:
  assumes "aead_documented C" and "m_probe M icomm e = ((MPI_SUCCESS, TAG_TASK, k), e1)"
    and "m_stack M (NPUB + 256 + ABYTES) e1 = (b1, e2)"
    and "m_recv M icomm TAG_TASK (NPUB + 4 + ABYTES) e2 = ((MPI_SUCCESS, star_seal C b (sc_key g) n (le_enc 4 (x :: u32))), e3)"
    and "sc_recv_ctr g \<le> n" and "aead_enc C (sc_key g) (star_nonce n) [] (le_enc 4 x) = Some c"
  shows "star_worker_step C M icomm g e =
    (case square_int (sint x) of
       None \<Rightarrow> Halt 134 e3
     | Some y \<Rightarrow> bindP (star_worker_secure_send C M icomm (g\<lparr>sc_recv_ctr := n + 1\<rparr>)
         (le_enc 4 x @ le_enc 4 (word_of_int y :: u32)) TAG_RESULT) (\<lambda>g. ret (Next g)) e3)"
proof -
  have o: "star_open C (sc_key g) (sc_recv_ctr g) 4 (star_seal C b (sc_key g) n (le_enc 4 x) @ rest) =
      Some (le_enc 4 x, n + 1)" for rest
    using star_open_seal [OF assms(1,6,5), of b rest] by simp
  have "star_worker_secure_recv C M icomm g 4 TAG_TASK e1 = Done (Some (le_enc 4 x, g\<lparr>sc_recv_ctr := n + 1\<rparr>)) e3"
    using assms(3,4) o by (simp add: star_worker_secure_recv_def star_mpi_recv_def overlay_def call_def bindP_def
        SECURE_MAX_PLAIN_def)
  then have "star_serve_task C M icomm g e1 = (case square_int (sint x) of None \<Rightarrow> Halt 134 e3
      | Some y \<Rightarrow> star_worker_secure_send C M icomm (g\<lparr>sc_recv_ctr := n + 1\<rparr>)
         (le_enc 4 x @ le_enc 4 (word_of_int y :: u32)) TAG_RESULT e3)"
    by (simp add: star_serve_task_def bindP_def Let_def split: option.split)
  moreover have "star_mpi_probe M icomm e = Done (TAG_TASK, k) e1"
    using assms(2) by (simp add: star_mpi_probe_def call_def bindP_def)
  ultimately show ?thesis by (simp add: star_worker_step_def bindP_def split: option.split)
qed

text \<open>
  An IDLE or SHUTDOWN message that is delivered under the TASK tag passes the check of the AEAD, because
  the tag is not authenticated, and the square of its sentinel overflows.
\<close>

lemma squares:
  "list_all (\<lambda>x. square_int (sint x) = Some (sint x * sint x)) star_tasks"
  "square_int (sint CTRL_MAGIC_IDLE) = None" "square_int (sint CTRL_MAGIC_SHUTDOWN) = None"
  by (simp_all add: star_tasks_def square_int_def)

end
