(* ===== verification/Star_Enrollment.thy ===== *)
theory Star_Enrollment
  imports Star_Node Npb_Options
begin

text \<open>
  How a worker joins in the first protocol version (src/master.c, src/worker.c): a port that is handed
  over in a file, a report bound to a nonce and the worker's public key that \<open>snpguest\<close> checks, run by
  \<open>system\<close>, and an unauthenticated key exchange; then \<open>main\<close> of both programs. The record
  \<open>star_node\<close> collects what is outside: MPI, the operating system, and libsodium with its random
  numbers. A receive of a fixed-size buffer leaves the rest of the buffer as it was when the message is
  shorter.
\<close>

abbreviation TAG_ATTEST_NONCE :: int where "TAG_ATTEST_NONCE \<equiv> 80"
abbreviation TAG_ATTEST_REPORT_LEN :: int where "TAG_ATTEST_REPORT_LEN \<equiv> 81"
abbreviation TAG_ATTEST_REPORT_DATA :: int where "TAG_ATTEST_REPORT_DATA \<equiv> 82"
abbreviation TAG_ATTEST_RESULT :: int where "TAG_ATTEST_RESULT \<equiv> 83"
abbreviation TAG_KX_CLIENT_PK :: int where "TAG_KX_CLIENT_PK \<equiv> 90"
abbreviation TAG_KX_SERVER_PK :: int where "TAG_KX_SERVER_PK \<equiv> 91"
abbreviation SNP_REPORT_TMP :: string where "SNP_REPORT_TMP \<equiv> ''snp_report.bin''"

record 'e star_node =
  stn_mpi :: "'e star_mpi"
  stn_os :: "'e os"
  stn_crypto :: crypto
  stn_open_port :: "'e \<Rightarrow> (mpi_rc \<times> string) \<times> 'e"
  stn_accept :: "string \<Rightarrow> 'e \<Rightarrow> (mpi_rc \<times> comm) \<times> 'e"
  stn_connect :: "string \<Rightarrow> 'e \<Rightarrow> (mpi_rc \<times> comm) \<times> 'e"
  stn_barrier :: "comm \<Rightarrow> 'e \<Rightarrow> mpi_rc \<times> 'e"
  stn_close_port :: "string \<Rightarrow> 'e \<Rightarrow> mpi_rc \<times> 'e"
  stn_sodium_init :: "'e \<Rightarrow> bool \<times> 'e"
  stn_randombytes :: "nat \<Rightarrow> 'e \<Rightarrow> bytes \<times> 'e"
  stn_kx_keypair :: "'e \<Rightarrow> (bytes \<times> bytes) \<times> 'e"
  stn_skip_attestation :: bool

section \<open>Text helpers\<close>

definition getenv_int :: "'e os \<Rightarrow> string \<Rightarrow> int \<Rightarrow> int" where
  "getenv_int S k defv =
     (case os_getenv S k of
        None \<Rightarrow> defv
      | Some s \<Rightarrow> if s = [] then defv else let v = c_atoi s in if v > 0 then v else defv)"

definition sanitize_path :: "string \<Rightarrow> int" where
  "sanitize_path p =
     (if list_ex (\<lambda>c. of_char c < (0x20 :: nat) \<or> c \<in> set '';&|$`\"(){}<>!'' \<or> of_char c = (39 :: nat)) p
      then - 1 else 0)"

section \<open>Verification by the central node\<close>

definition star_verify_command :: "string \<Rightarrow> bytes \<Rightarrow> string" where
  \<comment> \<open>what snprintf leaves in the buffer of 1024\<close>
  "star_verify_command certs_dir expected_report_data =
     take 1023 (''snpguest verify attestation '' @ certs_dir @ '' '' @ SNP_REPORT_TMP @ '' --report-data 0x'' @
       bytes_to_hex expected_report_data (REPORT_DATA_SIZE * 2 + 1) @ '' > snpguest_verify.log 2>&1'')"

definition certs_dir_or :: "'e os \<Rightarrow> string" where
  "certs_dir_or S =
     (case os_getenv S ''SNP_CERTS_DIR'' of None \<Rightarrow> ''certs'' | Some d \<Rightarrow> if d = [] then ''certs'' else d)"

definition star_write_report :: "'e os \<Rightarrow> bytes \<Rightarrow> ('e, bool) prog" where
  "star_write_report S report =
     bindP (sys S (Fopen SNP_REPORT_TMP ''wb'')) (\<lambda>f.
     if os_failed f then ret False
     else
       bindP (sys S (Fwrite SNP_REPORT_TMP report)) (\<lambda>n.
       bindP (sys S (Fclose SNP_REPORT_TMP)) (\<lambda>_.
       ret (o_rc n = int (length report)))))"

definition star_run :: "'e os \<Rightarrow> string \<Rightarrow> ('e, int) prog" where
  \<comment> \<open>system: -1, or the exit status of a shell that exited\<close>
  "star_run S cmd = bindP (sys S (System cmd)) (\<lambda>r. ret (if os_failed r \<or> \<not> o_exited r then - 1 else o_rc r))"

definition star_verify_report :: "'e os \<Rightarrow> bytes \<Rightarrow> bytes \<Rightarrow> ('e, int) prog" where
  "star_verify_report S report expected_report_data =
     (if report = [] then ret (- 1)
      else bindP (star_write_report S report) (\<lambda>ok.
        if \<not> ok then ret (- 1)
        else if sanitize_path (certs_dir_or S) \<noteq> 0 then ret (- 1)
        else bindP (star_run S (star_verify_command (certs_dir_or S) expected_report_data)) (\<lambda>status.
          ret (if status = 0 then 0 else - 1))))"

definition write_port_file :: "'e os \<Rightarrow> string \<Rightarrow> string \<Rightarrow> ('e, unit) prog" where
  "write_port_file S path port_name =
     (let tmp = take 255 (path @ ''.tmp'') in
      bindP (sys S (Fopen tmp ''w'')) (\<lambda>f.
      if os_failed f then halt 1
      else
        bindP (sys S (Fwrite tmp (map of_char port_name @ [10]))) (\<lambda>_.
        bindP (sys S (Fclose tmp)) (\<lambda>_.
        bindP (sys S (Rename tmp path)) (\<lambda>r.
        if o_rc r \<noteq> 0 then halt 1 else ret ())))))"

section \<open>A round of the central node\<close>

definition star_recv_into :: "'e star_mpi \<Rightarrow> bytes \<Rightarrow> int \<Rightarrow> comm \<Rightarrow> ('e, bytes) prog" where
  \<comment> \<open>a buffer after a message was received into it\<close>
  "star_recv_into M buf tag comm = bindP (star_mpi_recv M (length buf) tag comm) (\<lambda>d. ret (overlay d buf))"

definition star_recv_new :: "'e star_mpi \<Rightarrow> nat \<Rightarrow> int \<Rightarrow> comm \<Rightarrow> ('e, bytes) prog" where
  "star_recv_new M n tag comm = bindP (call (m_stack M n)) (\<lambda>buf. star_recv_into M (take n buf) tag comm)"

definition star_accept :: "'e star_node \<Rightarrow> ('e, comm) prog" where
  "star_accept N =
     bindP (call (stn_open_port N)) (\<lambda>(rc, port).
     if rc \<noteq> MPI_SUCCESS then halt 1
     else
       bindP (write_port_file (stn_os N) ''port.txt'' port) (\<lambda>_.
       bindP (call (stn_accept N port)) (\<lambda>(rc, icomm).
       if rc \<noteq> MPI_SUCCESS then halt 1
       else
         bindP (call (stn_barrier N icomm)) (\<lambda>_.
         bindP (call (stn_close_port N port)) (\<lambda>rc.
         if rc \<noteq> MPI_SUCCESS then halt 1 else ret icomm)))))"

definition star_receive_report :: "'e star_mpi \<Rightarrow> comm \<Rightarrow> ('e, bytes option) prog" where
  \<comment> \<open>None is a length out of bounds\<close>
  "star_receive_report M icomm =
     bindP (star_recv_into M (replicate 4 0) TAG_ATTEST_REPORT_LEN icomm) (\<lambda>bs.
     let report_len = sint (le_dec bs :: u32) in
     if report_len < 0 \<or> report_len > int MAX_REPORT_LEN then ret None
     else if report_len > 0 then
       bindP (call (m_malloc M (nat report_len))) (\<lambda>ok.
       if \<not> ok then halt 1
       else bindP (star_recv_new M (nat report_len) TAG_ATTEST_REPORT_DATA icomm) (\<lambda>report. ret (Some report)))
     else ret (Some []))"

definition star_report_data :: "crypto \<Rightarrow> bytes \<Rightarrow> bytes \<Rightarrow> bytes" where
  "star_report_data C nonceM client_pk = generichash C REPORT_DATA_SIZE [] (nonceM @ client_pk)"

definition star_attest :: "'e star_node \<Rightarrow> comm \<Rightarrow> ('e, bytes option) prog" where
  \<comment> \<open>the public key of a worker that passed\<close>
  "star_attest N icomm =
     (let M = stn_mpi N in
      bindP (call (stn_randombytes N REPORT_DATA_SIZE)) (\<lambda>nonceM.
      bindP (star_mpi_send M nonceM TAG_ATTEST_NONCE icomm) (\<lambda>_.
      bindP (star_recv_new M 32 TAG_KX_CLIENT_PK icomm) (\<lambda>client_pk.
      bindP (star_receive_report M icomm) (\<lambda>r.
      case r of
        None \<Rightarrow> ret None
      | Some report \<Rightarrow>
          bindP (star_verify_report (stn_os N) report (star_report_data (stn_crypto N) nonceM client_pk)) (\<lambda>rc.
          let attest_ok = (if stn_skip_attestation N then True else rc = 0) in
          bindP (star_mpi_send M (le_enc 4 (if attest_ok then 1 else 0 :: u32)) TAG_ATTEST_RESULT icomm) (\<lambda>_.
          ret (if attest_ok then Some client_pk else None))))))))"

definition star_server_exchange :: "'e star_node \<Rightarrow> comm \<Rightarrow> bytes \<Rightarrow> ('e, bytes) prog" where
  "star_server_exchange N icomm client_pk =
     bindP (call (stn_kx_keypair N)) (\<lambda>(server_pk, server_sk).
     bindP (star_mpi_send (stn_mpi N) server_pk TAG_KX_SERVER_PK icomm) (\<lambda>_.
     case star_server_key (stn_crypto N) server_pk server_sk client_pk of
       None \<Rightarrow> halt 1
     | Some app_key \<Rightarrow> ret app_key))"

definition star_round :: "'e star_node \<Rightarrow> int \<Rightarrow> star_links \<Rightarrow> ('e, star_links) prog" where
  "star_round N rnd L =
     bindP (star_accept N) (\<lambda>icomm.
     bindP (star_attest N icomm) (\<lambda>attested.
     case attested of
       None \<Rightarrow> bindP (call (m_disconnect (stn_mpi N) icomm)) (\<lambda>_. ret L)
     | Some client_pk \<Rightarrow>
         bindP (star_server_exchange N icomm client_pk) (\<lambda>app_key.
         if length (sl_workers L) \<ge> 128 then halt 1
         else ret \<lparr>sl_workers = sl_workers L @ [icomm], sl_keys = sl_keys L @ [app_key]\<rparr>)))"

definition star_target :: "'e os \<Rightarrow> string list \<Rightarrow> int" where
  "star_target S argv =
     (if length argv \<ge> 3 \<and> argv ! 1 = ''--master''
      then let target = c_atoi (argv ! 2) in if target \<le> 0 then 1 else target
      else getenv_int S ''TARGET_WORKERS'' 2)"

definition star_master_main :: "nat \<Rightarrow> 'e star_node \<Rightarrow> string list \<Rightarrow> ('e, int) prog" where
  "star_master_main fuel N argv =
     (let M = stn_mpi N in
      bindP (call (m_init M)) (\<lambda>_.
      bindP (call (stn_sodium_init N)) (\<lambda>sodium_ok.
      if \<not> sodium_ok then halt 1
      else
        bindP (loopP (star_round N) [1..star_target (stn_os N) argv] \<lparr>sl_workers = [], sl_keys = []\<rparr>) (\<lambda>L.
        bindP (star_distribute fuel (stn_crypto N) M L (star_init 128)) (\<lambda>_.
        bindP (call (m_finalize M)) (\<lambda>_. ret 0))))))"

section \<open>The worker\<close>

definition star_get_report :: "'e os \<Rightarrow> bytes \<Rightarrow> ('e, bytes option) prog" where
  "star_get_report S report_data =
     (let data_file = ''report_data.bin''; output_file = ''attestation-report.bin'';
          close_fail = bindP (sys S (Fclose output_file)) (\<lambda>_. ret None) in
      bindP (sys S (Fopen data_file ''wb'')) (\<lambda>f.
      if os_failed f then ret None
      else
        bindP (sys S (Fwrite data_file report_data)) (\<lambda>n.
        bindP (sys S (Fclose data_file)) (\<lambda>_.
        if o_rc n \<noteq> int REPORT_DATA_SIZE then ret None
        else
          bindP (star_run S (''snpguest report '' @ output_file @ '' '' @ data_file @ '' > snpguest_report.log 2>&1'')) (\<lambda>status.
          if status \<noteq> 0 then ret None
          else
            bindP (sys S (Fopen output_file ''rb'')) (\<lambda>rf.
            if os_failed rf then ret None
            else
              bindP (sys S (Fseek_End output_file)) (\<lambda>r.
              if o_rc r \<noteq> 0 then close_fail
              else
                bindP (sys S (Ftell output_file)) (\<lambda>sz.
                if o_rc sz \<le> 0 then close_fail
                else
                  bindP (sys S (Rewind output_file)) (\<lambda>_.
                  let out_len = sint (word_of_int (o_rc sz) :: u32); bytes_len = nat (out_len mod 2 ^ 64) in
                  bindP (sys S (Malloc bytes_len)) (\<lambda>m.
                  if os_failed m then close_fail
                  else
                    bindP (sys S (Fread output_file bytes_len)) (\<lambda>rd.
                    bindP (sys S (Fclose output_file)) (\<lambda>_.
                    if int (length (o_data rd)) \<noteq> out_len then ret None else ret (Some (o_data rd))))))))))))))"

definition star_worker_attest :: "'e star_node \<Rightarrow> comm \<Rightarrow> ('e, (bytes \<times> bytes) option) prog" where
  \<comment> \<open>the worker's key pair, if the central node accepted it\<close>
  "star_worker_attest N icomm =
     (let M = stn_mpi N in
      bindP (star_recv_new M REPORT_DATA_SIZE TAG_ATTEST_NONCE icomm) (\<lambda>nonceM.
      bindP (call (stn_kx_keypair N)) (\<lambda>(client_pk, client_sk).
      let report_data = star_report_data (stn_crypto N) nonceM client_pk in
      bindP (if stn_skip_attestation N then ret []
             else bindP (star_get_report (stn_os N) report_data) (\<lambda>r. case r of None \<Rightarrow> halt 1 | Some rep \<Rightarrow> ret rep))
        (\<lambda>report.
      bindP (star_mpi_send M client_pk TAG_KX_CLIENT_PK icomm) (\<lambda>_.
      bindP (star_mpi_send M (le_enc 4 (of_nat (length report) :: u32)) TAG_ATTEST_REPORT_LEN icomm) (\<lambda>_.
      bindP (if length report > 0 then star_mpi_send M report TAG_ATTEST_REPORT_DATA icomm else ret ()) (\<lambda>_.
      bindP (star_recv_into M (replicate 4 0) TAG_ATTEST_RESULT icomm) (\<lambda>bs.
      ret (if (le_dec bs :: u32) = 0 then None else Some (client_pk, client_sk))))))))))"

definition star_worker_main :: "nat \<Rightarrow> 'e star_node \<Rightarrow> string list \<Rightarrow> ('e, int) prog" where
  "star_worker_main fuel N argv =
     (let M = stn_mpi N in
      bindP (call (m_init M)) (\<lambda>_.
      if length argv < 2 then halt 1
      else
        bindP (call (stn_sodium_init N)) (\<lambda>sodium_ok.
        if \<not> sodium_ok then halt 1
        else
          bindP (call (stn_connect N (argv ! 1))) (\<lambda>(rc, icomm).
          if rc \<noteq> MPI_SUCCESS then halt 1
          else
            bindP (call (stn_barrier N icomm)) (\<lambda>_.
            bindP (star_worker_attest N icomm) (\<lambda>accepted.
            case accepted of
              None \<Rightarrow>
                bindP (call (m_disconnect M icomm)) (\<lambda>_. bindP (call (m_finalize M)) (\<lambda>_. ret 0))
            | Some (client_pk, client_sk) \<Rightarrow>
                bindP (star_recv_new M 32 TAG_KX_SERVER_PK icomm) (\<lambda>server_pk.
                case star_client_key (stn_crypto N) client_pk client_sk server_pk of
                  None \<Rightarrow> halt 1
                | Some app_key \<Rightarrow>
                    bindP (star_worker_loop fuel (stn_crypto N) M icomm app_key) (\<lambda>_. ret 0))))))))"

section \<open>What the central node accepts\<close>

lemma star_command_whole:
  assumes "length certs_dir \<le> 807" and "length rd = REPORT_DATA_SIZE"
  shows "star_verify_command certs_dir rd =
    ''snpguest verify attestation '' @ certs_dir @ '' snp_report.bin --report-data 0x'' @
      bytes_to_hex rd (REPORT_DATA_SIZE * 2 + 1) @ '' > snpguest_verify.log 2>&1''"
proof -
  have "length (bytes_to_hex rd 129) = 128" using assms(2) by (simp add: bytes_to_hex_def length_hex)
  with assms(1) show ?thesis by (simp add: star_verify_command_def)
qed

text \<open>
  The output of \<open>snprintf\<close> is not checked for truncation: a directory name of 980 characters leaves
  a command without the report data.
\<close>

lemma long_certs_dir_unbound:
  "length certs_dir = 980 \<Longrightarrow>
   star_verify_command certs_dir rd = ''snpguest verify attestation '' @ certs_dir @ '' snp_report.bin''"
  by (simp add: star_verify_command_def)

definition shell_safe :: "string \<Rightarrow> bool" where
  "shell_safe p \<longleftrightarrow> set p \<inter> set '';&|$`\"(){}<>!'' = {} \<and> list_all (\<lambda>c. 32 \<le> (of_char c :: nat) \<and> of_char c \<noteq> (39 :: nat)) p"

lemma sanitize_path_safe: "sanitize_path p = 0 \<longleftrightarrow> shell_safe p"
  by (auto simp: sanitize_path_def shell_safe_def list_ex_iff list_all_iff not_less) fastforce+

definition star_verified :: "'e os \<Rightarrow> bytes \<Rightarrow> bytes \<Rightarrow> os_log \<Rightarrow> bool" where
  \<comment> \<open>the whole report was written, and then the shell ran the check of it with status 0\<close>
  "star_verified S report rd l \<longleftrightarrow> report \<noteq> [] \<and> shell_safe (certs_dir_or S) \<and>
     (\<exists>r0 r1 r2 r3. l = [(Fopen SNP_REPORT_TMP ''wb'', r0), (Fwrite SNP_REPORT_TMP report, r1), (Fclose SNP_REPORT_TMP, r2),
        (System (star_verify_command (certs_dir_or S) rd), r3)] \<and> o_rc r1 = int (length report) \<and> o_exited r3 \<and> o_rc r3 = 0)"

lemma star_verify_report_ran:
  assumes "star_verify_report (os_logged S) report rd ([], e) = Done rc (l, e')"
  shows "rc = - 1 \<or> rc = 0 \<and> star_verified S report rd l"
  using assms
  by (auto simp: star_verify_report_def star_write_report_def star_run_def star_verified_def certs_dir_or_def
      sanitize_path_safe [symmetric] split: if_splits)

section \<open>Who gets a key\<close>

text \<open>
  A key of the central node's table: derived with a public key whose nonce and report the check accepted,
  unless the attestation is skipped.
\<close>

definition star_admitted :: "'e star_node \<Rightarrow> bytes \<Rightarrow> bool" where
  "star_admitted N key \<longleftrightarrow> (\<exists>nonceM client_pk report server_pk server_sk.
     star_server_key (stn_crypto N) server_pk server_sk client_pk = Some key \<and>
     (stn_skip_attestation N \<or> (\<exists>e e'.
        star_verify_report (stn_os N) report (star_report_data (stn_crypto N) nonceM client_pk) e = Done 0 e')))"

lemma star_attest_passed:
  assumes "star_attest N icomm w = Done (Some client_pk) w'"
  shows "stn_skip_attestation N \<or> (\<exists>nonceM report e e'.
    star_verify_report (stn_os N) report (star_report_data (stn_crypto N) nonceM client_pk) e = Done 0 e')"
  using assms by (auto simp: star_attest_def Let_def split: option.splits if_splits)

lemma star_round_admits:
  assumes "star_round N r L w = Done L' w'"
  shows "L' = L \<or> length (sl_workers L) < 128 \<and>
    (\<exists>icomm key. L' = \<lparr>sl_workers = sl_workers L @ [icomm], sl_keys = sl_keys L @ [key]\<rparr> \<and> star_admitted N key)"
proof -
  from assms obtain icomm attested v1 v2 where a: "star_attest N icomm v1 = Done attested v2"
    and k: "(case attested of
       None \<Rightarrow> bindP (call (m_disconnect (stn_mpi N) icomm)) (\<lambda>_. ret L)
     | Some client_pk \<Rightarrow>
         bindP (star_server_exchange N icomm client_pk) (\<lambda>app_key.
         if length (sl_workers L) \<ge> 128 then halt 1
         else ret \<lparr>sl_workers = sl_workers L @ [icomm], sl_keys = sl_keys L @ [app_key]\<rparr>)) v2 = Done L' w'"
    by (auto simp: star_round_def)
  show ?thesis
  proof (cases attested)
    case None
    with k show ?thesis by auto
  next
    case (Some client_pk)
    with k obtain key v3 where x: "star_server_exchange N icomm client_pk v2 = Done key v3"
      and L: "length (sl_workers L) < 128" "L' = \<lparr>sl_workers = sl_workers L @ [icomm], sl_keys = sl_keys L @ [key]\<rparr>"
      by (auto split: if_splits)
    from x obtain server_pk server_sk where "star_server_key (stn_crypto N) server_pk server_sk client_pk = Some key"
      by (auto simp: star_server_exchange_def split: option.splits)
    with star_attest_passed [OF a [unfolded Some]] have "star_admitted N key"
      unfolding star_admitted_def by blast
    with L show ?thesis by blast
  qed
qed


end
