(* ===== verification/Attest_Demo.thy ===== *)
theory Attest_Demo
  imports Star_Enrollment Enrollment
begin

text \<open>
  The attestation demonstrator (src/master_attest.c, src/worker_attest.c): the first protocol version with
  its report exchange replaced by an authenticator: a request with a nonce, a header with the worker's key
  and a binder, the evidence, and a hash over all of it. The channel, the task distribution, the key
  exchange, the worker's loop and the helpers are the code of src/master.c and src/worker.c again, and so
  are their definitions here. The header has the records of theory \<open>Enrollment\<close>, with the sizes of
  these programs: 232 bytes with the key, 200 without.
\<close>

abbreviation TAG_EA_FINISHED :: int where "TAG_EA_FINISHED \<equiv> 73"

section \<open>Hashes\<close>

definition ea_export_attestation_value :: "crypto \<Rightarrow> bytes \<Rightarrow> bytes" where
  "ea_export_attestation_value C context = generichash C HASH_LEN [] context"

definition att_aik_pub_hash :: "crypto \<Rightarrow> bytes \<Rightarrow> bytes" where
  "att_aik_pub_hash C pub_key = generichash C HASH_LEN [] pub_key"

definition att_binding_value :: "crypto \<Rightarrow> bytes \<Rightarrow> bytes \<Rightarrow> bytes" where
  "att_binding_value C pub_key exported_value = generichash C HASH_LEN [] (pub_key @ exported_value)"

definition att_compute_binding :: "crypto \<Rightarrow> bytes \<Rightarrow> bytes \<Rightarrow> bytes \<times> bytes \<times> bytes" where
  "att_compute_binding C context pub_key =
     (let exported_value = ea_export_attestation_value C context
      in (exported_value, att_aik_pub_hash C pub_key, att_binding_value C pub_key exported_value))"

definition ea_derive_report_data :: "crypto \<Rightarrow> bytes \<Rightarrow> bytes" where
  "ea_derive_report_data C binding = generichash C REPORT_DATA_SIZE [] binding"

definition att_encode_hdr :: "ea_payload_hdr \<Rightarrow> bytes" where
  "att_encode_hdr p =
     le_enc 4 (ph_version p) @ media_type p @ le_enc 4 (ph_evidence_len p)
     @ aik_pub_hash (ph_binder p) @ eb_binding (ph_binder p) @ exporter_label (ph_binder p)"

definition att_decode_auth_hdr :: "bytes \<Rightarrow> ea_auth_hdr" where
  "att_decode_auth_hdr bs =
     \<lparr>ah_client_pk = take 32 bs,
      ah_payload_hdr = \<lparr>ph_version = field32 32 bs, media_type = take 64 (drop 36 bs),
        ph_evidence_len = field32 100 bs,
        ph_binder = \<lparr>aik_pub_hash = take 32 (drop 104 bs), eb_binding = take 32 (drop 136 bs),
          exporter_label = take 64 (drop 168 bs)\<rparr>\<rparr>\<rparr>"

definition ea_compute_finished :: "crypto \<Rightarrow> bytes \<Rightarrow> bytes \<Rightarrow> ea_payload_hdr \<Rightarrow> bytes \<Rightarrow> bytes" where
  "ea_compute_finished C context pub_key hdr evidence =
     generichash C HASH_LEN [] (context @ pub_key @ att_encode_hdr hdr @ evidence)"

section \<open>Central node\<close>

definition att_verify_payload :: "crypto \<Rightarrow> ea_payload_hdr \<Rightarrow> bytes \<Rightarrow> bytes \<Rightarrow> int" where
  "att_verify_payload C hdr context pub_key =
     (if ph_version hdr \<noteq> 1 then - 1
      else if \<not> strncmp_eq 64 (media_type hdr) EA_MEDIA_TYPE then - 1
      else if \<not> strncmp_eq 64 (exporter_label (ph_binder hdr)) EA_EXPORTER_LABEL then - 1
      else
        let (_, expected_aik, expected_binding) = att_compute_binding C context pub_key in
        if expected_aik \<noteq> aik_pub_hash (ph_binder hdr) then - 1
        else if expected_binding \<noteq> eb_binding (ph_binder hdr) then - 1
        else 0)"

definition att_verify_report :: "'e os \<Rightarrow> bytes \<Rightarrow> bytes \<Rightarrow> ('e, int) prog" where
  \<comment> \<open>the result of fetching the chip's certificate is only printed\<close>
  "att_verify_report S report expected_report_data =
     (if report = [] then ret (- 1)
      else bindP (star_write_report S report) (\<lambda>ok.
        if \<not> ok then ret (- 1)
        else if sanitize_path (certs_dir_or S) \<noteq> 0 then ret (- 1)
        else
          bindP (star_run S (take 1023 (''snpguest fetch vcek pem '' @ certs_dir_or S @ '' '' @ SNP_REPORT_TMP @
                   '' > snpguest_fetch_vcek.log 2>&1''))) (\<lambda>_.
          bindP (star_run S (star_verify_command (certs_dir_or S) expected_report_data)) (\<lambda>status.
          ret (if status = 0 then 0 else - 1)))))"

definition att_check ::
  "'e star_node \<Rightarrow> bytes \<Rightarrow> ea_auth_hdr \<Rightarrow> bytes \<Rightarrow> bytes \<Rightarrow> ('e, bool) prog" where
  \<comment> \<open>attest_ok, as it is sent to the worker\<close>
  "att_check N context auth_hdr evidence finished_recv =
     (let C = stn_crypto N; hdr = ah_payload_hdr auth_hdr; pk = ah_client_pk auth_hdr;
          attest_ok = (att_verify_payload C hdr context pk = 0 \<and>
            ea_compute_finished C context pk hdr evidence = finished_recv) in
      bindP (if attest_ok \<and> evidence \<noteq> [] then
               bindP (att_verify_report (stn_os N) evidence
                        (ea_derive_report_data C (eb_binding (ph_binder hdr)))) (\<lambda>rc. ret (rc = 0))
             else ret attest_ok) (\<lambda>attest_ok.
      ret (if stn_skip_attestation N then True else attest_ok)))"

definition att_receive_evidence :: "'e star_mpi \<Rightarrow> comm \<Rightarrow> u32 \<Rightarrow> ('e, bytes option) prog" where
  \<comment> \<open>None is a length out of bounds\<close>
  "att_receive_evidence M icomm evidence_len =
     (if unat evidence_len > MAX_REPORT_LEN then ret None
      else if evidence_len > 0 then
        bindP (call (m_malloc M (unat evidence_len))) (\<lambda>ok.
        if \<not> ok then halt 1
        else bindP (star_recv_new M (unat evidence_len) TAG_EA_EVIDENCE_DATA icomm) (\<lambda>evidence. ret (Some evidence)))
      else ret (Some []))"

definition att_attest :: "'e star_node \<Rightarrow> comm \<Rightarrow> ('e, bytes option) prog" where
  \<comment> \<open>the public key of a worker that passed\<close>
  "att_attest N icomm =
     (let M = stn_mpi N in
      bindP (call (stn_randombytes N EA_CONTEXT_LEN)) (\<lambda>context.
      bindP (star_mpi_send M (encode_ea_request \<lparr>eq_context = context, attestation_offer = 1\<rparr>) TAG_EA_REQUEST icomm) (\<lambda>_.
      bindP (star_recv_new M 232 TAG_EA_AUTH_HDR icomm) (\<lambda>bs.
      let auth_hdr = att_decode_auth_hdr bs in
      bindP (att_receive_evidence M icomm (ph_evidence_len (ah_payload_hdr auth_hdr))) (\<lambda>r.
      case r of
        None \<Rightarrow> ret None
      | Some evidence \<Rightarrow>
          bindP (star_recv_new M HASH_LEN TAG_EA_FINISHED icomm) (\<lambda>finished_recv.
          bindP (att_check N context auth_hdr evidence finished_recv) (\<lambda>attest_ok.
          bindP (star_mpi_send M (le_enc 4 (if attest_ok then 1 else 0 :: u32)) TAG_EA_RESULT icomm) (\<lambda>_.
          ret (if attest_ok then Some (ah_client_pk auth_hdr) else None)))))))))"

definition att_round :: "'e star_node \<Rightarrow> int \<Rightarrow> star_links \<Rightarrow> ('e, star_links) prog" where
  "att_round N rnd L =
     bindP (star_accept N) (\<lambda>icomm.
     bindP (att_attest N icomm) (\<lambda>attested.
     case attested of
       None \<Rightarrow> bindP (call (m_disconnect (stn_mpi N) icomm)) (\<lambda>_. ret L)
     | Some client_pk \<Rightarrow>
         bindP (star_server_exchange N icomm client_pk) (\<lambda>app_key.
         if length (sl_workers L) \<ge> 128 then halt 1
         else ret \<lparr>sl_workers = sl_workers L @ [icomm], sl_keys = sl_keys L @ [app_key]\<rparr>)))"

definition att_master_main :: "nat \<Rightarrow> 'e star_node \<Rightarrow> string list \<Rightarrow> ('e, int) prog" where
  "att_master_main fuel N argv =
     (let M = stn_mpi N in
      bindP (call (m_init M)) (\<lambda>_.
      bindP (call (stn_sodium_init N)) (\<lambda>sodium_ok.
      if \<not> sodium_ok then halt 1
      else
        bindP (loopP (att_round N) [1..star_target (stn_os N) argv] \<lparr>sl_workers = [], sl_keys = []\<rparr>) (\<lambda>L.
        bindP (star_distribute fuel (stn_crypto N) M L (star_init 128)) (\<lambda>_.
        bindP (call (m_finalize M)) (\<lambda>_. ret 0))))))"

section \<open>Worker\<close>

definition att_auth_hdr :: "crypto \<Rightarrow> bytes \<Rightarrow> bytes \<Rightarrow> nat \<Rightarrow> ea_auth_hdr" where
  "att_auth_hdr C context client_pk evidence_len =
     (let (exported_value, aik_hash, binding) = att_compute_binding C context client_pk in
      \<lparr>ah_client_pk = client_pk,
       ah_payload_hdr = \<lparr>ph_version = 1, media_type = char_field 64 EA_MEDIA_TYPE,
         ph_evidence_len = of_nat evidence_len,
         ph_binder = \<lparr>aik_pub_hash = aik_hash, eb_binding = binding,
           exporter_label = char_field 64 EA_EXPORTER_LABEL\<rparr>\<rparr>\<rparr>)"

definition att_worker_attest :: "'e star_node \<Rightarrow> comm \<Rightarrow> ('e, (bytes \<times> bytes) option) prog" where
  \<comment> \<open>the worker's key pair, if the central node accepted it\<close>
  "att_worker_attest N icomm =
     (let M = stn_mpi N; C = stn_crypto N in
      bindP (star_recv_new M 33 TAG_EA_REQUEST icomm) (\<lambda>bs.
      let req = decode_ea_request bs in
      bindP (call (stn_kx_keypair N)) (\<lambda>(client_pk, client_sk).
      let (exported_value, aik_hash, binding) = att_compute_binding C (eq_context req) client_pk;
          report_data = ea_derive_report_data C binding in
      bindP (if \<not> stn_skip_attestation N \<and> attestation_offer req \<noteq> 0 then
               bindP (star_get_report (stn_os N) report_data) (\<lambda>r. case r of None \<Rightarrow> halt 1 | Some ev \<Rightarrow> ret ev)
             else ret []) (\<lambda>evidence.
      let auth_hdr = att_auth_hdr C (eq_context req) client_pk (length evidence);
          finished = ea_compute_finished C (eq_context req) client_pk (ah_payload_hdr auth_hdr) evidence in
      bindP (star_mpi_send M (client_pk @ att_encode_hdr (ah_payload_hdr auth_hdr)) TAG_EA_AUTH_HDR icomm) (\<lambda>_.
      bindP (if length evidence > 0 then star_mpi_send M evidence TAG_EA_EVIDENCE_DATA icomm else ret ()) (\<lambda>_.
      bindP (star_mpi_send M finished TAG_EA_FINISHED icomm) (\<lambda>_.
      bindP (star_recv_into M (replicate 4 0) TAG_EA_RESULT icomm) (\<lambda>bs.
      ret (if (le_dec bs :: u32) = 0 then None else Some (client_pk, client_sk))))))))))"

definition att_worker_main :: "nat \<Rightarrow> 'e star_node \<Rightarrow> string list \<Rightarrow> ('e, int) prog" where
  "att_worker_main fuel N argv =
     (let M = stn_mpi N in
      bindP (call (m_init M)) (\<lambda>_.
      if length argv < 2 then halt 1
      else
        bindP (call (stn_sodium_init N)) (\<lambda>sodium_ok.
        if \<not> sodium_ok then halt 1
        else
          bindP (call (stn_connect N (argv ! 1))) (\<lambda>(rc, icomm).
          if rc \<noteq> MPI_SUCCESS then halt 1
          else
            bindP (call (stn_barrier N icomm)) (\<lambda>_.
            bindP (att_worker_attest N icomm) (\<lambda>accepted.
            case accepted of
              None \<Rightarrow>
                bindP (call (m_disconnect M icomm)) (\<lambda>_. bindP (call (m_finalize M)) (\<lambda>_. ret 0))
            | Some (client_pk, client_sk) \<Rightarrow>
                bindP (star_recv_new M 32 TAG_KX_SERVER_PK icomm) (\<lambda>server_pk.
                case star_client_key (stn_crypto N) client_pk client_sk server_pk of
                  None \<Rightarrow> halt 1
                | Some app_key \<Rightarrow>
                    bindP (star_worker_loop fuel (stn_crypto N) M icomm app_key) (\<lambda>_. ret 0))))))))"

section \<open>What the check of an authenticator establishes\<close>

lemma att_texts:
  "strncmp_eq 64 (char_field 64 EA_MEDIA_TYPE) EA_MEDIA_TYPE"
  "strncmp_eq 64 (char_field 64 EA_EXPORTER_LABEL) EA_EXPORTER_LABEL"
  using ea_texts by (auto intro!: char_field_eq)

lemma att_honest_payload: "att_verify_payload C (ah_payload_hdr (att_auth_hdr C context pk n)) context pk = 0"
  by (simp add: att_verify_payload_def att_auth_hdr_def att_compute_binding_def Let_def att_texts)

lemma att_hdr_roundtrip:
  assumes "hash_documented C" and "length pk = 32"
  shows "att_decode_auth_hdr (pk @ att_encode_hdr (ah_payload_hdr (att_auth_hdr C context pk n))) = att_auth_hdr C context pk n"
  using assms
  by (simp add: att_decode_auth_hdr_def att_encode_hdr_def att_auth_hdr_def att_compute_binding_def Let_def
      att_aik_pub_hash_def att_binding_value_def HASH_LEN_def field_defs)


text \<open>
  C26: The check of the attestation demonstrator accepts exactly an authenticator with the right binder and
  hash whose evidence, if there is any, was verified. Evidence is optional: a peer without a protected
  machine, which sends no evidence and computes the public binder and hash for its own key, is accepted in
  a build with attestation, and snpguest is never run.
\<close>

theorem att_evidence_optional:
  "on_done (\<lambda>attest_ok.
      if attest_ok
      then stn_skip_attestation N \<or>
        att_verify_payload (stn_crypto N) (ah_payload_hdr h) context (ah_client_pk h) = 0 \<and>
        finished = ea_compute_finished (stn_crypto N) context (ah_client_pk h) (ah_payload_hdr h) evidence \<and>
        (evidence = [] \<or> (\<exists>e e'. att_verify_report (stn_os N) evidence
           (ea_derive_report_data (stn_crypto N) (eb_binding (ph_binder (ah_payload_hdr h)))) e = Done 0 e'))
      else \<not> stn_skip_attestation N)
    (att_check N context h evidence finished w) \<and>
   (let forged = att_auth_hdr (stn_crypto N) context pk 0 in
    att_check N context forged [] (ea_compute_finished (stn_crypto N) context pk (ah_payload_hdr forged) []) w = Done True w)"
proof
  show "on_done (\<lambda>attest_ok.
      if attest_ok
      then stn_skip_attestation N \<or>
        att_verify_payload (stn_crypto N) (ah_payload_hdr h) context (ah_client_pk h) = 0 \<and>
        finished = ea_compute_finished (stn_crypto N) context (ah_client_pk h) (ah_payload_hdr h) evidence \<and>
        (evidence = [] \<or> (\<exists>e e'. att_verify_report (stn_os N) evidence
           (ea_derive_report_data (stn_crypto N) (eb_binding (ph_binder (ah_payload_hdr h)))) e = Done 0 e'))
      else \<not> stn_skip_attestation N) (att_check N context h evidence finished w)"
    by (rule on_doneI) (auto simp: att_check_def Let_def split: if_splits)
  have "ah_client_pk (att_auth_hdr (stn_crypto N) context pk 0) = pk"
    by (simp add: att_auth_hdr_def att_compute_binding_def Let_def)
  then show "let forged = att_auth_hdr (stn_crypto N) context pk 0 in
    att_check N context forged [] (ea_compute_finished (stn_crypto N) context pk (ah_payload_hdr forged) []) w = Done True w"
    by (simp add: att_check_def Let_def att_honest_payload)
qed

end
