(* ===== verification/Owner_Keygen.thy ===== *)
theory Owner_Keygen
  imports Snp_Report
begin

text \<open>
  The program that makes the owner's signing keys (src/owner_keygen.c): \<open>write_new_file\<close> and
  \<open>main\<close>. The key pair that libsodium generated and the outcome of its initialisation are
  arguments. A file is named by its path; what the calls leave in the file system is read off the
  log of the calls (\<open>files_after\<close>).
\<close>

section \<open>The program\<close>

definition write_step ::
  "'e os \<Rightarrow> string \<Rightarrow> bytes \<Rightarrow> nat \<Rightarrow> ('e, (nat, bool) flow) prog" where
  \<comment> \<open>one turn of the loop that writes; the state is the number of bytes written\<close>
  "write_step S path data written =
     (if \<not> written < length data then ret (Exit True)
      else bindP (sys S (Write path (drop written data))) (\<lambda>count.
        if os_failed count then
          (if o_errno count = EINTR then ret (Next written)
           else bindP (sys S (Close path)) (\<lambda>_.
                bindP (sys S (Unlink path)) (\<lambda>_. ret (Exit False))))
        else ret (Next (written + nat (o_rc count)))))"

definition write_new_file :: "nat \<Rightarrow> 'e os \<Rightarrow> string \<Rightarrow> bytes \<Rightarrow> u32 \<Rightarrow> ('e, int) prog" where
  \<comment> \<open>fuel bounds the calls of write\<close>
  "write_new_file fuel S path data mode =
     bindP (sys S (Open_Excl path mode)) (\<lambda>fd.
     if os_failed fd then ret (- 1)
     else
       bindP (whileX fuel (write_step S path data) 0) (\<lambda>ok.
       if \<not> ok then ret (- 1)
       else
         bindP (sys S (Fsync path)) (\<lambda>sync_result.
         bindP (sys S (Close path)) (\<lambda>close_result.
         if o_rc sync_result \<noteq> 0 \<or> o_rc close_result \<noteq> 0
         then bindP (sys S (Unlink path)) (\<lambda>_. ret (- 1))
         else ret 0))))"

record keygen_end =
  ke_status :: int
  ke_secret_key :: "bytes option"
    \<comment> \<open>the stack buffer of the secret key when main returns; None if it was never filled\<close>
  ke_printed :: "string list"

definition owner_keygen_main ::
  "nat \<Rightarrow> crypto \<Rightarrow> 'e os \<Rightarrow> bool \<Rightarrow> bytes \<times> bytes \<Rightarrow> string list \<Rightarrow> ('e, keygen_end) prog" where
  "owner_keygen_main fuel C S sodium_ok keys argv =
     (if length argv \<noteq> 3 then ret \<lparr>ke_status = 2, ke_secret_key = None, ke_printed = []\<rparr>
      else if \<not> sodium_ok then ret \<lparr>ke_status = 1, ke_secret_key = None, ke_printed = []\<rparr>
      else
        let (public_key, secret_key) = keys;
            wiped = Some (replicate (length secret_key) 0) in
        bindP (write_new_file fuel S (argv ! 2) secret_key 0x180) (\<lambda>rc.
        if rc \<noteq> 0 then ret \<lparr>ke_status = 1, ke_secret_key = wiped, ke_printed = []\<rparr>
        else
          bindP (write_new_file fuel S (argv ! 1) public_key 0x1A4) (\<lambda>rc.
          if rc \<noteq> 0 then
            bindP (sys S (Unlink (argv ! 2))) (\<lambda>_.
            ret \<lparr>ke_status = 1, ke_secret_key = wiped, ke_printed = []\<rparr>)
          else
            ret \<lparr>ke_status = 0, ke_secret_key = wiped,
                 ke_printed =
                   [''owner public key: '' @ argv ! 1,
                    ''owner secret key: '' @ argv ! 2 @ '' (keep only on the central node)'',
                    ''public-key fingerprint: '' @ bytes_to_hex (generichash C 16 [] public_key) 33]\<rparr>)))"

section \<open>The files that the calls leave\<close>

record made_file =
  mf_mode :: u32
  mf_content :: bytes
  mf_synced :: bool

fun file_step :: "os_call \<times> os_reply \<Rightarrow> (string \<Rightarrow> made_file option) \<Rightarrow> (string \<Rightarrow> made_file option)" where
  "file_step (Open_Excl p mode, r) fs =
     (if os_failed r then fs else fs(p \<mapsto> \<lparr>mf_mode = mode, mf_content = [], mf_synced = False\<rparr>))"
| "file_step (Write p d, r) fs =
     (if os_failed r then fs
      else fs(p := map_option (\<lambda>f. f\<lparr>mf_content := mf_content f @ take (nat (o_rc r)) d, mf_synced := False\<rparr>) (fs p)))"
| "file_step (Fsync p, r) fs =
     (if o_rc r \<noteq> 0 then fs else fs(p := map_option (\<lambda>f. f\<lparr>mf_synced := True\<rparr>) (fs p)))"
| "file_step (Unlink p, r) fs = (if o_rc r \<noteq> 0 then fs else fs(p := None))"
| "file_step _ fs = fs"

definition files_after :: "os_log \<Rightarrow> string \<Rightarrow> made_file option" where
  \<comment> \<open>the files that the program made\<close>
  "files_after l = fold file_step l Map.empty"

definition unlinks_done :: "os_log \<Rightarrow> bool" where
  \<comment> \<open>every removal that was asked for succeeded\<close>
  "unlinks_done l = list_all (\<lambda>(c, r). case c of Unlink p \<Rightarrow> o_rc r = 0 | _ \<Rightarrow> True) l"

lemma files_after_append [simp]: "files_after (l @ l') = fold file_step l' (files_after l)"
  by (simp add: files_after_def)

lemma unlinks_done_simps [simp]:
  "unlinks_done []" "unlinks_done (l @ l') \<longleftrightarrow> unlinks_done l \<and> unlinks_done l'"
  "unlinks_done ((c, r) # l) \<longleftrightarrow> (case c of Unlink p \<Rightarrow> o_rc r = 0 | _ \<Rightarrow> True) \<and> unlinks_done l"
  by (simp_all add: unlinks_done_def)

text \<open>While the loop runs the file holds the bytes counted so far.\<close>

lemma write_step_logged:
  assumes "write_step (os_logged S) path data n (l, e) = Done f w'"
    and "files_after l = fs(path \<mapsto> \<lparr>mf_mode = mode, mf_content = take n data, mf_synced = False\<rparr>)"
  shows "case f of
      Next n' \<Rightarrow> (unlinks_done (fst w') \<longleftrightarrow> unlinks_done l) \<and>
        files_after (fst w') = fs(path \<mapsto> \<lparr>mf_mode = mode, mf_content = take n' data, mf_synced = False\<rparr>)
    | Exit True \<Rightarrow> fst w' = l \<and> length data \<le> n
    | Exit False \<Rightarrow> unlinks_done (fst w') \<longrightarrow> unlinks_done l \<and> files_after (fst w') = fs(path := None)"
  using assms
  by (auto simp: write_step_def take_add split: if_splits flow.splits bool.splits)

lemma write_loop_logged:
  assumes "whileX fuel (write_step (os_logged S) path data) 0 (l, e) = Done ok w'"
    and "files_after l = fs(path \<mapsto> \<lparr>mf_mode = mode, mf_content = [], mf_synced = False\<rparr>)"
  shows "if ok then (unlinks_done (fst w') \<longleftrightarrow> unlinks_done l) \<and>
      files_after (fst w') = fs(path \<mapsto> \<lparr>mf_mode = mode, mf_content = data, mf_synced = False\<rparr>)
    else unlinks_done (fst w') \<longrightarrow> unlinks_done l \<and> files_after (fst w') = fs(path := None)"
proof -
  let ?P = "\<lambda>n w. (unlinks_done (fst w) \<longleftrightarrow> unlinks_done l) \<and>
      files_after (fst w) = fs(path \<mapsto> \<lparr>mf_mode = mode, mf_content = take n data, mf_synced = False\<rparr>)"
  have "\<exists>n v. ?P n v \<and> write_step (os_logged S) path data n v = Done (Exit ok) w'"
    using assms(1)
  proof (rule whileX_inv [where P = ?P])
    show "?P 0 (l, e)" using assms(2) by simp
    show "?P n' w''" if "?P n w" and "write_step (os_logged S) path data n w = Done (Next n') w''" for n w n' w''
      using write_step_logged [of S path data n "fst w" "snd w" "Next n'" w'' fs mode] that by simp
  qed
  then obtain n v where P: "?P n v" and b: "write_step (os_logged S) path data n (fst v, snd v) = Done (Exit ok) w'"
    by auto
  from write_step_logged [OF b conjunct2 [OF P]] P show ?thesis
    by (cases ok) auto
qed

lemma write_new_file_logged:
  assumes "write_new_file fuel (os_logged S) path data mode (l, e) = Done rc w'"
  shows "if rc = 0 then (unlinks_done (fst w') \<longleftrightarrow> unlinks_done l) \<and>
      files_after (fst w') = (files_after l)(path \<mapsto> \<lparr>mf_mode = mode, mf_content = data, mf_synced = True\<rparr>)
    else unlinks_done (fst w') \<longrightarrow>
      unlinks_done l \<and> files_after (fst w') \<in> {files_after l, (files_after l)(path := None)}"
proof -
  from assms obtain fd e1 where o: "os_do S (Open_Excl path mode) e = (fd, e1)"
    and k: "(if os_failed fd then ret (- 1)
      else bindP (whileX fuel (write_step (os_logged S) path data) 0) (\<lambda>ok.
       if \<not> ok then ret (- 1)
       else
         bindP (sys (os_logged S) (Fsync path)) (\<lambda>sync_result.
         bindP (sys (os_logged S) (Close path)) (\<lambda>close_result.
         if o_rc sync_result \<noteq> 0 \<or> o_rc close_result \<noteq> 0
         then bindP (sys (os_logged S) (Unlink path)) (\<lambda>_. ret (- 1))
         else ret 0)))) (l @ [(Open_Excl path mode, fd)], e1) = Done rc w'"
    by (auto simp: write_new_file_def)
  show ?thesis
  proof (cases "os_failed fd")
    case True
    with k show ?thesis by auto
  next
    case False
    then have f0: "files_after (l @ [(Open_Excl path mode, fd)]) =
        (files_after l)(path \<mapsto> \<lparr>mf_mode = mode, mf_content = [], mf_synced = False\<rparr>)" by simp
    from k False obtain ok l2 e2 where
      w: "whileX fuel (write_step (os_logged S) path data) 0 (l @ [(Open_Excl path mode, fd)], e1) = Done ok (l2, e2)"
      and k2: "(if \<not> ok then ret (- 1)
       else
         bindP (sys (os_logged S) (Fsync path)) (\<lambda>sync_result.
         bindP (sys (os_logged S) (Close path)) (\<lambda>close_result.
         if o_rc sync_result \<noteq> 0 \<or> o_rc close_result \<noteq> 0
         then bindP (sys (os_logged S) (Unlink path)) (\<lambda>_. ret (- 1))
         else ret 0))) (l2, e2) = Done rc w'" by auto
    from write_loop_logged [OF w f0] k2 show ?thesis
      by (auto split: if_splits)
  qed
qed

section \<open>Both keys or none\<close>

text \<open>
  C29: The program ends with status 0 only if it created both files itself, the secret key with mode 0600
  and the public key with mode 0644, each holding exactly its key, written completely and synced; with
  another status nothing was printed, and once the removals that it asks for have succeeded no file that
  it created is left. The secret key in memory is always wiped.
\<close>

theorem owner_keys_all_or_nothing:
  "on_return (\<lambda>k (l, _).
     ke_secret_key k \<in> {None, Some (replicate (length sk) 0)} \<and>
     (if ke_status k = 0
      then length argv = 3 \<and>
        files_after l = [argv ! 2 \<mapsto> \<lparr>mf_mode = 0x180, mf_content = sk, mf_synced = True\<rparr>,
                         argv ! 1 \<mapsto> \<lparr>mf_mode = 0x1A4, mf_content = pk, mf_synced = True\<rparr>]
      else ke_printed k = [] \<and> (if unlinks_done l then files_after l = Map.empty else True)))
   (owner_keygen_main fuel C (os_logged S) sodium_ok (pk, sk) argv ([], e))"
proof (rule on_returnI)
  fix k w'
  assume run: "owner_keygen_main fuel C (os_logged S) sodium_ok (pk, sk) argv ([], e) = Done k w'"
  obtain l e' where w': "w' = (l, e')" by (cases w')
  have z: "files_after [] = Map.empty" by (simp add: files_after_def)
  show "case w' of (l, _) \<Rightarrow>
     ke_secret_key k \<in> {None, Some (replicate (length sk) 0)} \<and>
     (if ke_status k = 0
      then length argv = 3 \<and>
        files_after l = [argv ! 2 \<mapsto> \<lparr>mf_mode = 0x180, mf_content = sk, mf_synced = True\<rparr>,
                         argv ! 1 \<mapsto> \<lparr>mf_mode = 0x1A4, mf_content = pk, mf_synced = True\<rparr>]
      else ke_printed k = [] \<and> (if unlinks_done l then files_after l = Map.empty else True))"
  proof (cases "length argv = 3 \<and> sodium_ok")
    case False
    with run w' z show ?thesis by (auto simp: owner_keygen_main_def split: if_splits)
  next
    case True
    with run w' show ?thesis
      by (fastforce simp: owner_keygen_main_def Let_def z fun_upd_twist split: if_splits
          dest!: write_new_file_logged)
  qed
qed

text \<open>
  With an operating system whose writes make progress or fail for good the program ends: the loops need
  one turn per byte at most.
\<close>

definition writes_progress :: "'e os \<Rightarrow> bool" where
  "writes_progress S \<longleftrightarrow> (\<forall>p d e. let r = fst (os_do S (Write p d) e) in
     0 < o_rc r \<or> os_failed r \<and> o_errno r \<noteq> EINTR)"

lemma write_loop_ends:
  assumes "writes_progress S" and "length data < fuel"
  shows "whileX fuel (write_step S path data) 0 w \<noteq> Spin v"
proof (rule whileX_measure [where P = "\<lambda>_. True" and f = "\<lambda>n. length data - n"])
  show "length data - 0 < fuel" using assms(2) by simp
  show "True \<and> length data - n' < length data - n" if "write_step S path data n w = Done (Next n') w'" for n w n' w'
  proof -
    obtain r w1 where r: "os_do S (Write path (drop n data)) w = (r, w1)" by fastforce
    with that have "n < length data \<and> n' = (if os_failed r then n else n + nat (o_rc r)) \<and>
        (os_failed r \<longrightarrow> o_errno r = EINTR)"
      by (auto simp: write_step_def sys_def split: if_splits)
    moreover from assms(1) r have "0 < o_rc r \<or> os_failed r \<and> o_errno r \<noteq> EINTR"
      by (metis fst_conv writes_progress_def)
    ultimately show ?thesis by auto
  qed
  show "spinless (write_step S path data n)" for n
    by (auto simp: write_step_def sys_def spinless_def bindP_def split: outcome.splits prod.splits)
qed simp

lemma owner_keygen_ends:
  assumes "writes_progress S" and "length pk < fuel" and "length sk < fuel"
  shows "owner_keygen_main fuel C S sodium_ok (pk, sk) argv w \<noteq> Spin v"
  using write_loop_ends [OF assms(1,2)] write_loop_ends [OF assms(1,3)]
  by (auto simp: owner_keygen_main_def write_new_file_def Let_def bindP_def sys_def split: outcome.splits prod.splits if_splits)

end
