(* ===== verification/Spec2Isabelle.thy ===== *)
theory Spec2Isabelle
  imports Central_Node Worker_Node Bench_Complete Run_Summary Star_Node Attest_Demo Owner_Keygen
begin

text \<open>
  The MPI programs of DistributedEnclave (src/): a central node on a trusted machine enrols workers
  that run in AMD SEV-SNP guests, hands them work over encrypted channels, checks and times what comes back,
  and writes a result file. There are four pairs of programs and a key generator:

  \<^item> the NPB programs (master_npb.c, worker_npb.c), with the workloads EP, CG, STREAM, RANDOM, VMAP and TASKQ;
  \<^item> the DGEMM benchmark (master_bench.c, worker_bench.c, dgemm_kernel.c);
  \<^item> the first protocol version (master.c, worker.c; master_star.c and worker_star.c are the same files
    again), which distributes nine squares;
  \<^item> the attestation demonstrator (master_attest.c, worker_attest.c), whose computation phase is the one of
    the first protocol version;
  \<^item> owner_keygen.c, which makes the key pair the owner signs enrolments with.

  The NPB programs and the benchmark share the deadline module (npb_timeout.c, npb_receive.h,
  npb_mpi_wait.h) and the rendezvous (bench_rendezvous.c). Many functions stand in several programs word for
  word (encodings, channel, enrolment, evidence); they are defined once, from the NPB programs, and used
  for the others.

  How the parts interact. The central node publishes a port and accepts one worker per round
  (\<open>Rendezvous\<close>). A worker proves with an SNP report that it holds its key pair in a measured guest; the
  central node has snpguest check the report (\<open>Snp_Report\<close>) and signs the transcript with the owner's key, which
  the worker has pinned; both derive directional keys from it (\<open>Enrollment\<close>). Commands, data and results travel
  in frames with explicit counters (\<open>Secure_Channel\<close>, \<open>Secure_Io\<close>). Every blocking call runs in a deadline
  scope that ends the process when it expires (\<open>Wait_Deadline\<close>, \<open>Mpi_Io\<close>). The central node runs the workload of
  its command line (\<open>Npb_Options\<close>, \<open>Central_Node\<close>), one handler per workload; the worker serves commands in a
  loop (\<open>Worker_Node\<close>).
\<close>

section \<open>Conventions of the model\<close>

text \<open>
  Code with effects is a \<open>prog\<close> (\<open>Prelude\<close>): from a state to \<open>Done\<close> with a value and a state, \<open>Halt\<close> with the exit
  status (MPI_Abort, exit, _exit), or \<open>Spin\<close>, a loop that was still running when its fuel was used up. \<open>for\<close> loops
  are \<open>loopP\<close> and \<open>loopX\<close> over the list of indices; a loop without a bound in the code is \<open>whileX\<close> with fuel. The
  state of a process is its wait state and an environment \<open>'e\<close>; what is not in the repository is a record
  of functions on it, an argument of the definitions: MPI (\<open>mpi\<close>, \<open>rdv\<close>, \<open>star_mpi\<close>), system calls, stdio and
  child processes (\<open>os\<close>, one datatype of calls), libsodium (\<open>crypto\<close>), the mathematics library (\<open>libm\<close>) and \<open>rand\<close>
  (\<open>libc_rand\<close>). What is relied on of them is a named hypothesis that states documented behaviour: \<open>aead_documented\<close>,
  \<open>hash_documented\<close>, \<open>count_documented\<close>, \<open>libm_documented\<close>; each is shown to hold of a concrete
  instance (\<open>demo_crypto\<close>, \<open>fifo_mpi\<close>, \<open>demo_libm\<close>), which the witnesses use. A collision of the hash is never assumed
  away: the theorems of \<open>Enrollment\<close> name the two inputs that would have to collide.

  Machine integers are words (\<open>u8\<close>, \<open>u32\<close>, \<open>u64\<close>, an \<open>int32_t\<close> field a \<open>u32\<close> read with \<open>sint\<close>); C's \<open>int\<close> locals are \<open>int\<close>
  where the code keeps them in range. Doubles are their 64-bit patterns with correctly rounded operations
  (\<open>Binary64\<close>). Structs on the wire are bytes, with one encoding and one decoding function each. A status of
  -1 that only says whether an output was filled is \<open>None\<close>. Static variables are records that are passed along:
  \<open>wait_state\<close> (npb_timeout.c), \<open>master_state\<close> (counters and results of master_npb.c), \<open>worker_chan\<close> (keys and
  counters of the workers), \<open>bench_state\<close>, \<open>star_state\<close> and \<open>star_chan\<close>. A build with SKIP_ATTESTATION is the flag
  \<open>nd_skip_attestation\<close> or \<open>stn_skip_attestation\<close>.
\<close>

section \<open>Theories\<close>

text \<open>
  Shared:

  \<^item> \<open>Prelude\<close>: programs, loops and their invariant and termination rules, words and lists.
  \<^item> \<open>Wait_Deadline\<close>: src/npb_timeout.c. Settings, nested scopes, the alarm and its handler; the reachable states
    are an inductive step relation (C31).
  \<^item> \<open>Binary64\<close>: C's double; exactness, sign and magnitude lemmas for the kernels.
  \<^item> \<open>Mpi_Io\<close>: src/npb_receive.h, src/npb_mpi_wait.h and the wrappers \<open>mpi_send_f\<close>, \<open>mpi_recv_f\<close>, \<open>die_mpi\<close>, over the
    interface \<open>deadline_scope\<close>, interpreted by the deadline module.
  \<^item> \<open>Rendezvous\<close>: src/bench_rendezvous.c; the clean-up of ports and names on every error path (C30).
  \<^item> \<open>Byte_Codec\<close>, \<open>Wire_Structs\<close>, \<open>Npb_Defs\<close>: byte order, hexadecimal text, the structs of the NPB protocol, constants;
    round trips.
  \<^item> \<open>Secure_Channel\<close>: nonces, additional data and frames; the interface \<open>framed_channel\<close> and its interpretation
    \<open>wire\<close>: sessions deliver in order, and whatever an adversary delivers, what is accepted is a prefix of what
    was sent (C3, C32).
  \<^item> \<open>Secure_Io\<close>: the send and receive functions of both sides (C33).

  Enrolment and evidence:

  \<^item> \<open>Snp_Report\<close>: child processes, claims, certificates, the temporary files and their removal; every system
    call is logged, and the theorems speak of the log (C4, C36).
  \<^item> \<open>Enrollment\<close>: the handshake of both sides; who is admitted, what the transcript binds, how the keys are
    separated, and that both sides agree (C1, C2, C11, C12, C34).

  NPB workloads:

  \<^item> \<open>Npb_Options\<close>: the command line (C38). \<open>Npb_Kernels\<close>: the generator, the EP kernel and the sparse product (C16).
  \<^item> \<open>Task_Tokens\<close>: the xorshift generator and its 64x64 bit-matrix shortcut (C19).
  \<^item> \<open>Worker_Stream\<close> (STREAM, VMAP), \<open>Worker_Random\<close>, \<open>Worker_Taskq\<close>: the worker's side; what it computes.
  \<^item> \<open>Master_State\<close>, \<open>Master_Rounds\<close>: the counters and the result store, the handlers of STREAM, RANDOM and VMAP
    over the interface \<open>timed_rounds\<close> (C35); \<open>recorded_runs\<close> does the same for EP and CG.
  \<^item> \<open>Honest_Workers\<close>: what a worker following the protocol reports is accepted (C13).
  \<^item> \<open>Master_Taskq\<close>: the polling scheduler; each task accepted exactly once, an end within one pass per task, and
    the agreement of both sides on a task (C7, C17, C18).
  \<^item> \<open>Ep_Workload\<close>, \<open>Cg_Workload\<close>: distinct streams of the generator, exact sums of the counts, and the product
    of CG put together from the workers' rows (C8, C14, C15).
  \<^item> \<open>Csv_Output\<close>: the result file, its rows and its atomic replacement (C28).
  \<^item> \<open>Central_Node\<close>, \<open>Worker_Node\<close>: both \<open>main\<close> functions (C5, C6).

  DGEMM benchmark:

  \<^item> \<open>Dgemm_Kernel\<close>: src/dgemm_kernel.c, the partition of the rows and \<open>verify_row\<close>; the distributed product is the
    sequential one, bit for bit (C10). \<open>Dgemm_Tolerance\<close>: how far, in exact arithmetic, a cell that \<open>verify_row\<close> accepts
    can be from the product.
  \<^item> \<open>Bench_Channel\<close>: the command struct, \<open>send_matrix\<close> and \<open>recv_matrix\<close>, shown equal to the bulk functions on the
    bytes. \<open>Bench_Options\<close>: the command line and the commands it gives (C39).
  \<^item> \<open>Bench_Master\<close>, \<open>Bench_Worker\<close>: both \<open>main\<close> functions and their loops (C21, C22, C37). \<open>Bench_Counters\<close>: the
    counters of both sides stay in step (C20).
  \<^item> \<open>Worker_Process\<close>: a worker as a process, a function from the messages it has been sent to those it sends
    back (\<open>replies\<close>), obtained by running its program over an MPI that stops it when nothing has arrived.
    \<open>Worker_Cluster\<close>: the MPI of a central node whose links end in such processes (\<open>cluster_mpi\<close>), and what one
    call does to one link. \<open>Bench_Process\<close>: the benchmark's worker as such a process. \<open>Bench_Complete\<close>: both
    programs over one network; every accepted command line is served to its end, a result is recorded for every
    run, and every worker ends (C9).

  Both central nodes:

  \<^item> \<open>Run_Summary\<close>: the statistics printed after the runs of the benchmark, of EP and of CG; the means are right to
    the printed digits, and no deviation is the root of a negative number.

  The older programs and the key generator:

  \<^item> \<open>Star_Channel\<close>: the frames of the first protocol version; the interface \<open>counter_filter\<close> for a receiver that only
    asks for growing counters; replays are rejected, but the two directions share key and counters (C23, C27).
  \<^item> \<open>Star_Node\<close>: its distribution of tasks and its worker loop (C24, C40). \<open>Star_Enrollment\<close>: its handshake (C25).
  \<^item> \<open>Attest_Demo\<close>: the authenticator check of the demonstrator, which lets a worker without evidence through (C26).
  \<^item> \<open>Owner_Keygen\<close>: src/owner_keygen.c; both key files or none (C29).
\<close>

section \<open>Fuel and bounds\<close>

text \<open>
  Fuel stands for loops that the code does not bound: interrupted waits for a child (\<open>run_process\<close>), lookups of the
  published name (\<open>bench_connect_worker\<close>), calls of write (\<open>write_new_file\<close>), passes of the polling loops
  (\<open>taskq_dispatch\<close>, \<open>star_distribute\<close>), commands served (\<open>worker_main\<close>, \<open>bench_worker_main\<close>, \<open>star_worker_main\<close>). More
  fuel never changes a run that has ended (\<open>whileX_mono\<close>). That it is enough is a theorem where the code has a
  reason to end: TASKQ needs one pass per task and a last one while results arrive (C18), the key
  generator one call per byte while writes make progress (\<open>owner_keygen_ends\<close>), and a worker of the benchmark
  one command per message it has been sent (\<open>Worker_Process\<close>). The lookups and the worker
  loops go on for as long as the other side is silent, so there the theorems speak of every step. Counted
  loops need no fuel, and \<open>spinless\<close> code never spins.

  Sizes: at most 128 workers, 1000 runs, 4000 NPB results, 32 dimensions up to 8192 and 32000 results of
  the benchmark, reports up to 16384 bytes, small messages up to 256 bytes, messages up to INT_MAX bytes. The
  command lines keep within them (C38, C39), so the result stores are never full (C6, C21).
\<close>

section \<open>Not modelled\<close>

text \<open>
  What the programs print, apart from the result files and the statistics of the runs (\<open>Run_Summary\<close>), which are
  functions of the results and not part of the programs' steps; the contents of snpguest, libsodium, MPI and the C library beyond what is stated above;
  the timing of signals beyond the states of \<open>Wait_Deadline\<close>; contraction of floating-point operations by a
  compiler. The scripts, build files and the Go code of the repository (src/fort/, src/openmpi/, src/analysis/) are
  outside this development. The wiping of keys in memory is modelled in \<open>Owner_Keygen\<close> only; elsewhere the buffers
  are dead after it. Copies of modelled functions in other programs are not defined again.

  The two sides of the NPB workloads are related by the agreement of each handler with an honest worker (C13,
  C17); a run of both programs over one network is proved for the DGEMM benchmark (C9) and not repeated for
  them.
\<close>

end
